(* ===== verification/Kwt_Prelude.thy ===== *)
theory Kwt_Prelude
  imports Main
begin

text \<open>
  Shared vocabulary of the development: the types that stand for Go's time values and results,
  the collections of rules the component theories declare into, and generic facts about counting
  in lists that are updated by index, about association lists and about list indices, which the
  components use as their heaps and tables.
\<close>

text \<open>
  An instant is the number of nanoseconds since Go's zero time, so \<open>IsZero\<close> is equality with 0;
  a duration is a number of nanoseconds (where its 64-bit width matters, a word is used).
\<close>

type_synonym gtime = int
type_synonym duration = int

definition time_is_zero :: "gtime \<Rightarrow> bool" where
  "time_is_zero t \<longleftrightarrow> t = 0"

named_theorems kwt_inv \<open>introduction rules for component invariants\<close>
named_theorems kwt_unfold \<open>definitions that component proofs unfold together\<close>

subsection \<open>Counting in lists updated by index\<close>

definition count_where :: "('a \<Rightarrow> bool) \<Rightarrow> 'a list \<Rightarrow> int" where
  "count_where P xs = int (length (filter P xs))"

lemma count_where_simps [simp]:
  "count_where P [] = 0"
  "count_where P (x # xs) = of_bool (P x) + count_where P xs"
  "count_where P (xs @ ys) = count_where P xs + count_where P ys"
  by (simp_all add: count_where_def)

lemma count_where_nonneg [simp]: "0 \<le> count_where P xs"
  by (simp add: count_where_def)

lemma count_where_le_length: "count_where P xs \<le> int (length xs)"
  by (simp add: count_where_def)

lemma count_where_update:
  "i < length xs \<Longrightarrow>
    count_where P (xs[i := y]) = count_where P xs - of_bool (P (xs ! i)) + of_bool (P y)"
proof (induction xs arbitrary: i)
  case Nil
  then show ?case by simp
next
  case (Cons x xs)
  then show ?case by (cases i) simp_all
qed

lemma count_where_update_same:
  assumes "P y = P (xs ! i)"
  shows "count_where P (xs[i := y]) = count_where P xs"
proof (cases "i < length xs")
  case True
  with assms show ?thesis by (simp add: count_where_update)
next
  case False
  then show ?thesis by (simp add: list_update_beyond)
qed

lemma count_where_pos: "i < length xs \<Longrightarrow> P (xs ! i) \<Longrightarrow> 0 < count_where P xs"
proof -
  assume "i < length xs" and "P (xs ! i)"
  then have "xs ! i \<in> set (filter P xs)" by simp
  then have "filter P xs \<noteq> []" by force
  then show ?thesis by (simp add: count_where_def)
qed

lemma count_where_cong: "(\<And>x. x \<in> set xs \<Longrightarrow> P x = Q x) \<Longrightarrow> count_where P xs = count_where Q xs"
  by (simp add: count_where_def cong: filter_cong)

subsection \<open>Association lists\<close>

lemma map_of_filter_key:
  "map_of (filter (\<lambda>p. Q (fst p)) ps) k = (if Q k then map_of ps k else None)"
  by (induction ps) auto

lemma map_of_in_fst: "map_of ps k = Some v \<Longrightarrow> k \<in> fst ` set ps"
  by (induction ps) (auto split: if_splits)

lemma distinct_fst_filter: "distinct (map fst ps) \<Longrightarrow> distinct (map fst (filter Q ps))"
  by (induction ps) auto

lemma map_of_distinct_iff:
  "distinct (map fst ps) \<Longrightarrow> map_of ps k = Some v \<longleftrightarrow> (k, v) \<in> set ps"
  by (rule map_of_eq_Some_iff)

subsection \<open>Indices\<close>

lemma nth_list_update_cases:
  "xs[i := y] ! j = (if i = j \<and> j < length xs then y else xs ! j)"
  by (cases "i < length xs") (auto simp: nth_list_update list_update_beyond)

lemma all_nth_update:
  assumes "\<forall>j < length xs. P j (xs ! j)" and "i < length xs \<Longrightarrow> P i y"
  shows "\<forall>j < length (xs[i := y]). P j (xs[i := y] ! j)"
  using assms by (auto simp: nth_list_update_cases)

lemma all_nth_append:
  assumes "\<forall>j < length xs. P j (xs ! j)" and "P (length xs) y"
  shows "\<forall>j < length (xs @ [y]). P j ((xs @ [y]) ! j)"
  using assms by (auto simp: nth_append less_Suc_eq)

end
