(* ===== verification/Go_Strings.thy ===== *)
theory Go_Strings
  imports Kwt_Prelude "HOL-Library.Sublist" "HOL-Library.List_Lexorder" "HOL-Library.Char_ord"
begin

text \<open>
  The part of Go's standard library the program uses on strings. A Go string is a sequence of
  bytes, here a \<open>string\<close> (a list of 8-bit characters); \<open><\<close> on strings is the bytewise order of
  \<open>List_Lexorder\<close>, as in Go. \<open>TrimSpace\<close> removes every Unicode white-space rune, given by its
  UTF-8 bytes. \<open>ToLower\<close> lowers ASCII letters and the two non-ASCII runes whose lower case is an
  ASCII letter (U+0130 and U+212A); other non-ASCII runes have a non-ASCII lower case and are kept,
  which the program's tests against ASCII texts cannot tell apart. Where two texts are compared after
  lowering both (repository identities), the model is exact for texts without other non-ASCII letters.
\<close>

subsection \<open>Characters\<close>

definition byte :: "nat \<Rightarrow> char" where
  "byte n = char_of n"

definition code :: "char \<Rightarrow> nat" where
  "code c = of_char c"

definition is_digit :: "char \<Rightarrow> bool" where
  "is_digit c \<longleftrightarrow> 48 \<le> code c \<and> code c \<le> 57"

definition is_upper :: "char \<Rightarrow> bool" where
  "is_upper c \<longleftrightarrow> 65 \<le> code c \<and> code c \<le> 90"

definition is_lower :: "char \<Rightarrow> bool" where
  "is_lower c \<longleftrightarrow> 97 \<le> code c \<and> code c \<le> 122"

definition is_hex :: "char \<Rightarrow> bool" where
  "is_hex c \<longleftrightarrow> is_digit c \<or> (97 \<le> code c \<and> code c \<le> 102) \<or> (65 \<le> code c \<and> code c \<le> 70)"

definition digit_val :: "char \<Rightarrow> nat" where
  "digit_val c = code c - 48"

lemma code_less_256 [simp]: "code c < 256"
  by (simp add: code_def)

lemma code_byte: "n < 256 \<Longrightarrow> code (byte n) = n"
  by (simp add: code_def byte_def)

lemma code_inject [simp]: "code c = code d \<longleftrightarrow> c = d"
  by (simp add: code_def)

subsection \<open>White space\<close>

definition space_seqs :: "string list" where
  "space_seqs =
     map (\<lambda>n. [byte n]) [9, 10, 11, 12, 13, 32]
     @ map (map byte) [[0xC2, 0x85], [0xC2, 0xA0], [0xE1, 0x9A, 0x80], [0xE2, 0x80, 0xA8],
         [0xE2, 0x80, 0xA9], [0xE2, 0x80, 0xAF], [0xE2, 0x81, 0x9F], [0xE3, 0x80, 0x80]]
     @ map (\<lambda>n. map byte [0xE2, 0x80, n]) [0x80 ..< 0x8B]"

definition strips :: "string list \<Rightarrow> string \<Rightarrow> string option" where
  "strips seqs s = find (\<lambda>p. p \<noteq> [] \<and> prefix p s) seqs"

lemma strips_Some: "strips seqs s = Some p \<Longrightarrow> p \<in> set seqs \<and> p \<noteq> [] \<and> prefix p s"
  by (auto simp: strips_def find_Some_iff)

lemma strips_None: "strips seqs s = None \<longleftrightarrow> (\<forall>p \<in> set seqs. p = [] \<or> \<not> prefix p s)"
  by (auto simp: strips_def find_None_iff)

function strip_seqs :: "string list \<Rightarrow> string \<Rightarrow> string" where
  "strip_seqs seqs s =
     (case strips seqs s of None \<Rightarrow> s | Some p \<Rightarrow> strip_seqs seqs (drop (length p) s))"
  by pat_completeness auto
termination
  by (relation "measure (\<lambda>(seqs, s). length s)") (auto dest!: strips_Some simp: prefix_def)

declare strip_seqs.simps [simp del]

definition trim_left_space :: "string \<Rightarrow> string" where
  "trim_left_space s = strip_seqs space_seqs s"

definition trim_right_space :: "string \<Rightarrow> string" where
  "trim_right_space s = rev (strip_seqs (map rev space_seqs) (rev s))"

definition trim_space :: "string \<Rightarrow> string" where
  "trim_space s = trim_right_space (trim_left_space s)"

lemma strip_seqs_stop: "strips seqs (strip_seqs seqs s) = None"
proof (induction seqs s rule: strip_seqs.induct)
  case (1 seqs s)
  then show ?case
    by (cases "strips seqs s") (auto simp: strip_seqs.simps [of seqs s])
qed

lemma strip_seqs_suffix: "suffix (strip_seqs seqs s) s"
proof (induction seqs s rule: strip_seqs.induct)
  case (1 seqs s)
  show ?case
  proof (cases "strips seqs s")
    case None
    then show ?thesis by (simp add: strip_seqs.simps [of seqs s])
  next
    case (Some p)
    then have "suffix (strip_seqs seqs (drop (length p) s)) (drop (length p) s)"
      by (rule "1.IH")
    then have "suffix (strip_seqs seqs (drop (length p) s)) s"
      by (rule suffix_order.trans) (rule suffix_drop)
    with Some show ?thesis by (simp add: strip_seqs.simps [of seqs s])
  qed
qed

lemma strip_seqs_id: "strips seqs s = None \<Longrightarrow> strip_seqs seqs s = s"
  by (simp add: strip_seqs.simps [of seqs s])

lemma trim_right_prefix: "prefix (trim_right_space s) s"
  using strip_seqs_suffix [of "map rev space_seqs" "rev s"]
  by (simp add: trim_right_space_def suffix_to_prefix)

lemma strips_prefix_None: "strips seqs s = None \<Longrightarrow> prefix s' s \<Longrightarrow> strips seqs s' = None"
  by (auto simp: strips_None dest: prefix_order.trans)

lemma trim_space_idem [simp]: "trim_space (trim_space s) = trim_space s"
proof -
  let ?l = "trim_left_space s"
  have "strips space_seqs ?l = None"
    by (simp add: trim_left_space_def strip_seqs_stop)
  then have "strips space_seqs (trim_right_space ?l) = None"
    by (rule strips_prefix_None) (rule trim_right_prefix)
  then have "trim_left_space (trim_space s) = trim_space s"
    by (simp add: trim_space_def trim_left_space_def strip_seqs_id)
  moreover have "trim_right_space (trim_space s) = trim_space s"
    by (simp add: trim_space_def trim_right_space_def strip_seqs_id strip_seqs_stop)
  ultimately show ?thesis by (simp add: trim_space_def)
qed

lemma trim_space_length: "length (trim_space s) \<le> length s"
proof -
  have "length (trim_right_space (trim_left_space s)) \<le> length (trim_left_space s)"
    using trim_right_prefix by (rule prefix_length_le)
  also have "\<dots> \<le> length s"
    unfolding trim_left_space_def using strip_seqs_suffix by (rule suffix_length_le)
  finally show ?thesis by (simp add: trim_space_def)
qed

lemma trim_space_Nil [simp]: "trim_space [] = []"
  using trim_space_length [of "[]"] by simp

subsection \<open>Prefixes, cutting and splitting\<close>

definition has_prefix :: "string \<Rightarrow> string \<Rightarrow> bool" where
  "has_prefix s p \<longleftrightarrow> prefix p s"

definition has_suffix :: "string \<Rightarrow> string \<Rightarrow> bool" where
  "has_suffix s p \<longleftrightarrow> prefix (rev p) (rev s)"

definition trim_prefix :: "string \<Rightarrow> string \<Rightarrow> string" where
  "trim_prefix s p = (if has_prefix s p then drop (length p) s else s)"

definition trim_suffix :: "string \<Rightarrow> string \<Rightarrow> string" where
  "trim_suffix s p = (if has_suffix s p then take (length s - length p) s else s)"

fun cut :: "string \<Rightarrow> char \<Rightarrow> string \<times> string \<times> bool" where
  "cut [] c = ([], [], False)"
| "cut (x # xs) c =
     (if x = c then ([], xs, True)
      else (case cut xs c of (b, a, ok) \<Rightarrow> (x # b, a, ok)))"

fun split_n :: "string \<Rightarrow> char \<Rightarrow> nat \<Rightarrow> string list" where
  "split_n s c 0 = []"
| "split_n s c (Suc 0) = [s]"
| "split_n s c (Suc (Suc n)) =
     (case cut s c of (b, a, ok) \<Rightarrow> if ok then b # split_n a c (Suc n) else [s])"

definition contains_char :: "string \<Rightarrow> char \<Rightarrow> bool" where
  "contains_char s c \<longleftrightarrow> c \<in> set s"

fun join :: "string \<Rightarrow> string list \<Rightarrow> string" where
  "join sep [] = []"
| "join sep [s] = s"
| "join sep (s # t # ss) = s @ sep @ join sep (t # ss)"

lemma cut_append: "c \<notin> set s \<Longrightarrow> cut (s @ c # t) c = (s, t, True)"
  by (induction s) auto

lemma cut_missing: "c \<notin> set s \<Longrightarrow> cut s c = (s, [], False)"
  by (induction s) auto

lemma cut_ok: "cut s c = (b, a, True) \<Longrightarrow> s = b @ c # a \<and> c \<notin> set b"
  by (induction s arbitrary: b) (auto split: if_splits prod.splits)

lemma cut_not_ok: "cut s c = (b, a, False) \<Longrightarrow> b = s \<and> a = [] \<and> c \<notin> set s"
  by (induction s arbitrary: b) (auto split: if_splits prod.splits)

subsection \<open>Letter case\<close>

definition lower_char :: "char \<Rightarrow> char" where
  "lower_char c = (if is_upper c then byte (code c + 32) else c)"

fun to_lower :: "string \<Rightarrow> string" where
  "to_lower [] = []"
| "to_lower [c] = [lower_char c]"
| "to_lower [c, d] =
     (if [c, d] = map byte [0xC4, 0xB0] then ''i'' else lower_char c # to_lower [d])"
| "to_lower (c # d # e # s) =
     (if [c, d] = map byte [0xC4, 0xB0] then CHR ''i'' # to_lower (e # s)
      else if [c, d, e] = map byte [0xE2, 0x84, 0xAA] then CHR ''k'' # to_lower s
      else lower_char c # to_lower (d # e # s))"

definition ascii_lower :: "string \<Rightarrow> string" where
  "ascii_lower s = map lower_char s"

text \<open>
  \<open>EqualFold\<close> as the program uses it: one side is a spelling of an ASCII word without \<open>k\<close> and
  \<open>s\<close>, the only ASCII letters that Unicode folds with non-ASCII runes.
\<close>

definition equal_fold :: "string \<Rightarrow> string \<Rightarrow> bool" where
  "equal_fold s t \<longleftrightarrow> ascii_lower s = ascii_lower t"

lemma lower_char_idem [simp]: "lower_char (lower_char c) = lower_char c"
  by (simp add: lower_char_def is_upper_def code_byte)

lemma ascii_lower_idem [simp]: "ascii_lower (ascii_lower s) = ascii_lower s"
  by (simp add: ascii_lower_def)

lemma to_lower_ascii: "\<forall>c \<in> set s. code c < 128 \<Longrightarrow> to_lower s = ascii_lower s"
proof (induction s rule: to_lower.induct)
  case (3 c d)
  then have "c \<noteq> byte 0xC4" by (auto simp: code_byte)
  with 3 show ?case by (simp add: ascii_lower_def)
next
  case (4 c d e s)
  then have "c \<noteq> byte 0xC4" "c \<noteq> byte 0xE2" by (auto simp: code_byte)
  with 4 show ?case by (simp add: ascii_lower_def)
qed (simp_all add: ascii_lower_def)

subsection \<open>Decimal numbers\<close>

definition digit_char :: "nat \<Rightarrow> char" where
  "digit_char d = byte (48 + d)"

fun itoa_nat :: "nat \<Rightarrow> string" where
  "itoa_nat n = (if n < 10 then [digit_char n] else itoa_nat (n div 10) @ [digit_char (n mod 10)])"

declare itoa_nat.simps [simp del]

definition itoa :: "int \<Rightarrow> string" where
  "itoa i = (if i < 0 then CHR ''-'' # itoa_nat (nat (- i)) else itoa_nat (nat i))"

definition digits_val :: "nat \<Rightarrow> string \<Rightarrow> nat" where
  "digits_val acc s = foldl (\<lambda>v c. v * 10 + digit_val c) acc s"

lemma is_digit_digit_char [simp]: "d < 10 \<Longrightarrow> is_digit (digit_char d)"
  by (simp add: is_digit_def digit_char_def code_byte)

lemma digit_val_digit_char [simp]: "d < 10 \<Longrightarrow> digit_val (digit_char d) = d"
  by (simp add: digit_val_def digit_char_def code_byte)

lemma itoa_nat_digits: "\<forall>c \<in> set (itoa_nat n). is_digit c"
proof (induction n rule: itoa_nat.induct)
  case (1 n)
  then show ?case by (subst itoa_nat.simps) auto
qed

lemma itoa_nat_nonempty [simp]: "itoa_nat n \<noteq> []"
  by (subst itoa_nat.simps) simp

lemma digits_val_itoa_nat: "digits_val 0 (itoa_nat n) = n"
proof (induction n rule: itoa_nat.induct)
  case (1 n)
  show ?case
  proof (cases "n < 10")
    case True
    then show ?thesis by (subst itoa_nat.simps) (simp add: digits_val_def)
  next
    case False
    with 1 have "digits_val 0 (itoa_nat (n div 10)) = n div 10" by simp
    with False show ?thesis
      by (subst itoa_nat.simps) (simp add: digits_val_def)
  qed
qed

lemma itoa_nat_inject [simp]: "itoa_nat m = itoa_nat n \<longleftrightarrow> m = n"
  by (metis digits_val_itoa_nat)

subsection \<open>Hexadecimal\<close>

definition hex_decode_len :: "string \<Rightarrow> nat option" where
  "hex_decode_len s =
     (if even (length s) \<and> list_all is_hex s then Some (length s div 2) else None)"

subsection \<open>Texts without space around them\<close>

definition is_graphic :: "char \<Rightarrow> bool" where
  "is_graphic c \<longleftrightarrow> 33 \<le> code c \<and> code c \<le> 126"

lemma strips_other_head:
  "(\<And>p. p \<in> set seqs \<Longrightarrow> hd p \<noteq> hd s) \<Longrightarrow> strips seqs s = None"
  unfolding strips_None by (metis hd_append2 prefix_def)

lemma graphic_not_space_head:
  assumes "is_graphic c" and "p \<in> set space_seqs"
  shows "hd p \<noteq> c" and "last p \<noteq> c"
proof -
  have "\<forall>p \<in> set space_seqs. \<not> is_graphic (hd p) \<and> \<not> is_graphic (last p)" by code_simp
  with assms show "hd p \<noteq> c" "last p \<noteq> c" by auto
qed

lemma trim_right_graphic:
  assumes "s \<noteq> []" and "is_graphic (last s)"
  shows "trim_right_space s = s"
proof -
  have ne: "\<forall>p \<in> set space_seqs. p \<noteq> []" by code_simp
  have "strips (map rev space_seqs) (rev s) = None"
  proof (rule strips_other_head)
    fix p assume "p \<in> set (map rev space_seqs)"
    then obtain q where "q \<in> set space_seqs" "p = rev q" by auto
    with graphic_not_space_head(2) [OF assms(2)] ne show "hd p \<noteq> hd (rev s)"
      by (simp add: hd_rev)
  qed
  then show ?thesis by (simp add: trim_right_space_def strip_seqs_id)
qed

lemma trim_space_graphic:
  assumes "s \<noteq> []" and "is_graphic (hd s)" and "is_graphic (last s)"
  shows "trim_space s = s"
proof -
  have "strips space_seqs s = None"
    by (rule strips_other_head) (use graphic_not_space_head(1) [OF assms(2)] in blast)
  then have "trim_left_space s = s" by (simp add: trim_left_space_def strip_seqs_id)
  then show ?thesis by (simp add: trim_space_def trim_right_graphic [OF assms(1,3)])
qed

lemma digit_graphic: "is_digit c \<Longrightarrow> is_graphic c"
  by (simp add: is_digit_def is_graphic_def)

subsection \<open>Quoting with \<open>%q\<close>\<close>

text \<open>
  \<open>strconv.Quote\<close> on one byte of a text. Bytes of non-ASCII runes are kept, as Go keeps printable
  runes; it would escape the unprintable ones and invalid UTF-8.
\<close>

definition hex_digit :: "nat \<Rightarrow> char" where
  "hex_digit n = char_of (if n < 10 then 48 + n else 87 + n)"

definition quote_byte :: "char \<Rightarrow> string" where
  "quote_byte c =
     (let n = code c in
      if c = CHR 0x22 \<or> n = 92 then [CHR 0x5C, c]
      else if n = 7 then [CHR 0x5C, CHR ''a'']
      else if n = 8 then [CHR 0x5C, CHR ''b'']
      else if n = 9 then [CHR 0x5C, CHR ''t'']
      else if n = 10 then [CHR 0x5C, CHR ''n'']
      else if n = 11 then [CHR 0x5C, CHR ''v'']
      else if n = 12 then [CHR 0x5C, CHR ''f'']
      else if n = 13 then [CHR 0x5C, CHR ''r'']
      else if n < 32 \<or> n = 127 then [CHR 0x5C, CHR ''x'', hex_digit (n div 16), hex_digit (n mod 16)]
      else [c])"

definition go_quote :: "string \<Rightarrow> string" where
  "go_quote s = [CHR 0x22] @ concat (map quote_byte s) @ [CHR 0x22]"

subsection \<open>Hexadecimal text\<close>

definition hex_text :: "char list \<Rightarrow> string" where
  "hex_text bytes = concat (map (\<lambda>b. [hex_digit (code b div 16), hex_digit (code b mod 16)]) bytes)"

lemma hex_digit_is_hex: "n < 16 \<Longrightarrow> is_hex (hex_digit n)"
  by (auto simp: hex_digit_def is_hex_def is_digit_def code_def)

lemma hex_text_length: "length (hex_text bs) = 2 * length bs"
  by (induction bs) (simp_all add: hex_text_def)

lemma hex_text_hex: "list_all is_hex (hex_text bs)"
proof -
  have "code b div 16 < 16" "code b mod 16 < 16" for b using code_less_256 [of b] by linarith+
  then show ?thesis by (induction bs) (simp_all add: hex_text_def hex_digit_is_hex)
qed

lemma hex_digit_inject: "m < 16 \<Longrightarrow> n < 16 \<Longrightarrow> hex_digit m = hex_digit n \<Longrightarrow> m = n"
proof -
  have code: "code (hex_digit k) = (if k < 10 then 48 + k else 87 + k)" if "k < 16" for k
    using that by (simp add: hex_digit_def code_def)
  assume a: "m < 16" "n < 16" "hex_digit m = hex_digit n"
  then have "code (hex_digit m) = code (hex_digit n)" by simp
  with a(1,2) show ?thesis by (simp add: code split: if_splits)
qed

lemma hex_text_inject [simp]: "hex_text s = hex_text t \<longleftrightarrow> s = t"
proof
  have bound: "code c div 16 < 16" "code c mod 16 < 16" for c using code_less_256 [of c] by linarith+
  assume "hex_text s = hex_text t"
  then show "s = t"
  proof (induction s arbitrary: t)
    case Nil
    then show ?case by (cases t) (simp_all add: hex_text_def)
  next
    case (Cons c s)
    then obtain d t' where t: "t = d # t'" by (cases t) (simp_all add: hex_text_def)
    from Cons.prems have "hex_digit (code c div 16) = hex_digit (code d div 16)"
      "hex_digit (code c mod 16) = hex_digit (code d mod 16)" "hex_text s = hex_text t'"
      by (simp_all add: t hex_text_def)
    with Cons.IH bound have "code c div 16 = code d div 16" "code c mod 16 = code d mod 16" "s = t'"
      using hex_digit_inject by blast+
    then show ?case by (metis code_inject div_mult_mod_eq t)
  qed
qed simp

end
