(* ===== verification/Service.thy ===== *)
theory Service
  imports Go_Strings
begin

text \<open>
  The contracts shared by the services (\<open>service/error.go\<close>, \<open>service/operation.go\<close>): stable
  failure codes and descriptors, error chains as \<open>errors.As\<close> and \<open>errors.Is\<close> walk them, operation
  events, and the stream validator that every producer and consumer of an operation stream runs.
\<close>

subsection \<open>Dynamic values\<close>

text \<open>
  A Go \<open>any\<close> in a \<open>map[string]any\<close>, by its reflection kind: numbers carry their decimal text, a
  float also whether it is NaN or infinite, a slice is \<open>None\<close> when nil, \<open>G_RawMessage\<close> is a
  \<open>json.RawMessage\<close>, \<open>G_Time\<close> a \<open>time.Time\<close>, and \<open>G_Other\<close> any kind without a JSON form here.
\<close>

datatype go_value =
    G_Nil
  | G_Bool bool
  | G_String string
  | G_Int int
  | G_Float bool string
  | G_Time gtime
  | G_RawMessage string
  | G_Bytes "string option"
  | G_Slice "go_value list option"
  | G_Map "(string \<times> go_value) list"
  | G_Other

type_synonym details = "(string \<times> go_value) list"

subsection \<open>Failure codes\<close>

datatype service_code =
    InvalidRequest | Conflict | Busy | NotFound | InteractionRequired | PermissionDenied
  | ConnectionChanged | Unsupported | TransportFailure | DaemonStartFailed
  | DaemonUnresponsive | DaemonIncompatible | ClientOutdated | DaemonDowngradeRefused
  | DaemonBuildOrderUnknown | DaemonDraining | DaemonTransportFailed | InventoryTimeout
  | InventoryFailed | InspectionFailed | RemovalFailed | ProjectNotFound
  | RegistrationChanged | UnregistrationFailed | ProtectedSessionLive
  | ProtectedEndpointInventoryIncomplete | OperationIDConflict
  | OperationCapacityExhausted | OperationJournalUnavailable | OperationOutcomeUnknown
  | SSHInvalidTarget | SSHResolutionFailed | SSHRouteUnreviewable
  | SSHConfigurationChanged | SSHUnsupportedVersion | SSHInteractionRequired
  | SSHPromptRejected | SSHPromptTimedOut | SSHConnectionFailed | SSHConnectionChanged
  | SSHControlPathOccupied | SSHCleanupFailed | Internal

fun code_string :: "service_code \<Rightarrow> string" where
  "code_string InvalidRequest = ''invalid_request''"
| "code_string Conflict = ''conflict''"
| "code_string Busy = ''busy''"
| "code_string NotFound = ''not_found''"
| "code_string InteractionRequired = ''interaction_required''"
| "code_string PermissionDenied = ''permission_denied''"
| "code_string ConnectionChanged = ''connection_changed''"
| "code_string Unsupported = ''unsupported''"
| "code_string TransportFailure = ''transport_failure''"
| "code_string DaemonStartFailed = ''daemon_start_failed''"
| "code_string DaemonUnresponsive = ''daemon_unresponsive''"
| "code_string DaemonIncompatible = ''daemon_incompatible''"
| "code_string ClientOutdated = ''client_outdated''"
| "code_string DaemonDowngradeRefused = ''daemon_downgrade_refused''"
| "code_string DaemonBuildOrderUnknown = ''daemon_build_order_unknown''"
| "code_string DaemonDraining = ''daemon_draining''"
| "code_string DaemonTransportFailed = ''daemon_transport_failed''"
| "code_string InventoryTimeout = ''inventory_timeout''"
| "code_string InventoryFailed = ''inventory_failed''"
| "code_string InspectionFailed = ''inspection_failed''"
| "code_string RemovalFailed = ''removal_failed''"
| "code_string ProjectNotFound = ''project_not_found''"
| "code_string RegistrationChanged = ''registration_changed''"
| "code_string UnregistrationFailed = ''unregistration_failed''"
| "code_string ProtectedSessionLive = ''protected_session_live''"
| "code_string ProtectedEndpointInventoryIncomplete = ''protected_endpoint_inventory_incomplete''"
| "code_string OperationIDConflict = ''operation_id_conflict''"
| "code_string OperationCapacityExhausted = ''operation_capacity_exhausted''"
| "code_string OperationJournalUnavailable = ''operation_journal_unavailable''"
| "code_string OperationOutcomeUnknown = ''operation_outcome_unknown''"
| "code_string SSHInvalidTarget = ''ssh_invalid_target''"
| "code_string SSHResolutionFailed = ''ssh_resolution_failed''"
| "code_string SSHRouteUnreviewable = ''ssh_route_unreviewable''"
| "code_string SSHConfigurationChanged = ''ssh_configuration_changed''"
| "code_string SSHUnsupportedVersion = ''ssh_unsupported_version''"
| "code_string SSHInteractionRequired = ''ssh_interaction_required''"
| "code_string SSHPromptRejected = ''ssh_prompt_rejected''"
| "code_string SSHPromptTimedOut = ''ssh_prompt_timed_out''"
| "code_string SSHConnectionFailed = ''ssh_connection_failed''"
| "code_string SSHConnectionChanged = ''ssh_connection_changed''"
| "code_string SSHControlPathOccupied = ''ssh_control_path_occupied''"
| "code_string SSHCleanupFailed = ''ssh_cleanup_failed''"
| "code_string Internal = ''internal''"

subsection \<open>Descriptors and error chains\<close>

record descriptor =
  d_code :: service_code
  d_message :: string
  d_retryable :: bool
  d_details :: details

text \<open>
  A Go error as its chain: a typed service error with its private cause, an error wrapped by
  \<open>fmt.Errorf("...%w")\<close>, a join, the two context errors, or any other error by its text.
\<close>

datatype go_error =
    Service_Error descriptor "go_error option"
  | Wrapped string go_error
  | Joined "go_error list"
  | Context_Canceled
  | Context_Deadline_Exceeded
  | Plain_Error string

definition new_error :: "service_code \<Rightarrow> string \<Rightarrow> bool \<Rightarrow> details \<Rightarrow> go_error option \<Rightarrow> go_error" where
  "new_error c msg retry det cause =
     Service_Error \<lparr>d_code = c, d_message = msg, d_retryable = retry, d_details = det\<rparr> cause"

text \<open>\<open>errors.As(err, &typed)\<close>: the first service error of the chain, depth first.\<close>

fun errors_as_service :: "go_error \<Rightarrow> descriptor option"
  and errors_as_service_list :: "go_error list \<Rightarrow> descriptor option" where
  "errors_as_service (Service_Error d c) = Some d"
| "errors_as_service (Wrapped t e) = errors_as_service e"
| "errors_as_service (Joined es) = errors_as_service_list es"
| "errors_as_service Context_Canceled = None"
| "errors_as_service Context_Deadline_Exceeded = None"
| "errors_as_service (Plain_Error t) = None"
| "errors_as_service_list [] = None"
| "errors_as_service_list (e # es) =
     (case errors_as_service e of Some d \<Rightarrow> Some d | None \<Rightarrow> errors_as_service_list es)"

text \<open>\<open>errors.Is(err, context.Canceled) || errors.Is(err, context.DeadlineExceeded)\<close>.\<close>

fun is_context_error :: "go_error \<Rightarrow> bool"
  and is_context_error_opt :: "go_error option \<Rightarrow> bool"
  and is_context_error_list :: "go_error list \<Rightarrow> bool" where
  "is_context_error (Service_Error d c) = is_context_error_opt c"
| "is_context_error (Wrapped t e) = is_context_error e"
| "is_context_error (Joined es) = is_context_error_list es"
| "is_context_error Context_Canceled = True"
| "is_context_error Context_Deadline_Exceeded = True"
| "is_context_error (Plain_Error t) = False"
| "is_context_error_opt None = False"
| "is_context_error_opt (Some e) = is_context_error e"
| "is_context_error_list [] = False"
| "is_context_error_list (e # es) = (is_context_error e \<or> is_context_error_list es)"

definition as_error :: "go_error \<Rightarrow> descriptor" where
  "as_error e = (case errors_as_service e of
       Some d \<Rightarrow> d
     | None \<Rightarrow> \<lparr>d_code = Internal, d_message = ''internal failure'', d_retryable = False,
                d_details = []\<rparr>)"

definition is_code :: "go_error \<Rightarrow> service_code \<Rightarrow> bool" where
  "is_code e c = (case errors_as_service e of Some d \<Rightarrow> d_code d = c | None \<Rightarrow> False)"

definition service_error_text :: "descriptor \<Rightarrow> string" where
  "service_error_text d = (if d_message d \<noteq> [] then d_message d else code_string (d_code d))"

subsection \<open>Operation events\<close>

datatype event_kind = Progress | Warning | Prompt | Complete | Other_Kind string

fun kind_string :: "event_kind \<Rightarrow> string" where
  "kind_string Progress = ''progress''"
| "kind_string Warning = ''warning''"
| "kind_string Prompt = ''prompt''"
| "kind_string Complete = ''complete''"
| "kind_string (Other_Kind s) = s"

record operation_prompt =
  pr_id :: string
  pr_kind :: string
  pr_message :: string
  pr_sensitive :: bool
  pr_deadline :: "string option"
  pr_details :: details

record operation_event =
  ev_operation :: string
  ev_sequence :: nat
  ev_kind :: event_kind
  ev_message :: string
  ev_prompt :: "operation_prompt option"
  ev_result :: "string option"
  ev_failure :: "descriptor option"

record operation_response =
  rs_prompt :: string
  rs_value :: string

definition max_message_bytes :: nat where
  "max_message_bytes = 16 * 1024"

definition max_response_bytes :: nat where
  "max_response_bytes = 64 * 1024"

definition blank_event :: "event_kind \<Rightarrow> operation_event" where
  "blank_event k = \<lparr>ev_operation = [], ev_sequence = 0, ev_kind = k, ev_message = [],
     ev_prompt = None, ev_result = None, ev_failure = None\<rparr>"

definition validate_event_shape :: "operation_event \<Rightarrow> go_error option" where
  "validate_event_shape ev =
     (if length (ev_message ev) > max_message_bytes
      then Some (Plain_Error ''operation event message exceeds 16384 bytes'')
      else case ev_kind ev of
        Progress \<Rightarrow>
          (if ev_prompt ev \<noteq> None \<or> ev_result ev \<noteq> None \<or> ev_failure ev \<noteq> None
           then Some (Plain_Error ''progress event carries incompatible payload'') else None)
      | Warning \<Rightarrow>
          (if ev_prompt ev \<noteq> None \<or> ev_result ev \<noteq> None \<or> ev_failure ev \<noteq> None
           then Some (Plain_Error ''warning event carries incompatible payload'') else None)
      | Prompt \<Rightarrow>
          (case ev_prompt ev of
             None \<Rightarrow> Some (Plain_Error ''prompt event has no prompt'')
           | Some p \<Rightarrow>
               if pr_id p = [] then Some (Plain_Error ''prompt event has an empty prompt ID'')
               else if pr_kind p = [] then Some (Plain_Error ''prompt event has an empty prompt kind'')
               else if length (pr_message p) > max_message_bytes
               then Some (Plain_Error ''operation prompt message exceeds 16384 bytes'')
               else if ev_result ev \<noteq> None \<or> ev_failure ev \<noteq> None
               then Some (Plain_Error ''prompt event carries a terminal payload'')
               else None)
      | Complete \<Rightarrow>
          (if ev_prompt ev \<noteq> None then Some (Plain_Error ''completion event carries a prompt'')
           else if (ev_result ev = None) = (ev_failure ev = None)
           then Some (Plain_Error ''completion event must carry exactly one result or failure'')
           else None)
      | Other_Kind k \<Rightarrow> Some (Plain_Error (''unknown operation event kind '' @ go_quote k)))"

definition validate_response :: "operation_response \<Rightarrow> string option" where
  "validate_response r =
     (if rs_prompt r = [] then Some ''operation response prompt ID is empty''
      else if length (rs_value r) > max_response_bytes
      then Some ''operation response exceeds 65536 bytes''
      else None)"

subsection \<open>The stream validator\<close>

record validator =
  v_operation :: string
  v_sequence :: nat
  v_terminal :: bool

definition new_validator :: "string \<Rightarrow> nat \<Rightarrow> go_error + validator" where
  "new_validator op after =
     (if op = [] then Inl (Plain_Error ''operation ID is empty'')
      else Inr \<lparr>v_operation = op, v_sequence = after, v_terminal = False\<rparr>)"

definition accept :: "validator \<Rightarrow> operation_event \<Rightarrow> go_error + validator" where
  "accept v ev =
     (if v_terminal v then Inl (Plain_Error ''operation stream is terminal'')
      else if ev_operation ev \<noteq> v_operation v
      then Inl (Plain_Error (''operation ID '' @ go_quote (ev_operation ev) @ '' does not match '' @
                  go_quote (v_operation v)))
      else if ev_sequence ev \<noteq> v_sequence v + 1
      then Inl (Plain_Error (''operation event sequence is '' @ itoa_nat (ev_sequence ev) @ ''; expected '' @
                  itoa_nat (v_sequence v + 1)))
      else case validate_event_shape ev of
        Some e \<Rightarrow> Inl e
      | None \<Rightarrow> Inr (v\<lparr>v_sequence := ev_sequence ev,
                        v_terminal := (ev_kind ev = Complete)\<rparr>))"

text \<open>A consumer that validates a whole stream stops at the first refused event.\<close>

fun accept_all :: "validator \<Rightarrow> operation_event list \<Rightarrow> go_error + validator" where
  "accept_all v [] = Inr v"
| "accept_all v (e # es) = (case accept v e of Inl x \<Rightarrow> Inl x | Inr v' \<Rightarrow> accept_all v' es)"

subsection \<open>The contract of a stream acceptor\<close>

text \<open>
  What the producer of a stream relies on: an accepted event is the next one of its operation,
  the acceptor closes exactly on the terminal kind, and a closed acceptor takes nothing more. Any
  accepted run is then consecutive, belongs to one operation, and ends where it terminates.
\<close>

locale stream_acceptor =
  fixes acc :: "'v \<Rightarrow> 'e \<Rightarrow> 'x + 'v"
    and seq_of :: "'v \<Rightarrow> nat"
    and closed :: "'v \<Rightarrow> bool"
    and owner :: "'v \<Rightarrow> 'o"
    and e_seq :: "'e \<Rightarrow> nat"
    and e_owner :: "'e \<Rightarrow> 'o"
    and e_last :: "'e \<Rightarrow> bool"
  assumes acc_seq: "acc v e = Inr v' \<Longrightarrow> e_seq e = seq_of v + 1 \<and> seq_of v' = seq_of v + 1"
    and acc_owner: "acc v e = Inr v' \<Longrightarrow> e_owner e = owner v \<and> owner v' = owner v"
    and acc_closed: "acc v e = Inr v' \<Longrightarrow> \<not> closed v \<and> (closed v' \<longleftrightarrow> e_last e)"
begin

fun run :: "'v \<Rightarrow> 'e list \<Rightarrow> 'x + 'v" where
  "run v [] = Inr v"
| "run v (e # es) = (case acc v e of Inl x \<Rightarrow> Inl x | Inr v' \<Rightarrow> run v' es)"

lemma run_seq:
  "run v es = Inr v' \<Longrightarrow> map e_seq es = [seq_of v + 1 ..< seq_of v + 1 + length es]
     \<and> seq_of v' = seq_of v + length es"
proof (induction es arbitrary: v)
  case Nil
  then show ?case by simp
next
  case (Cons e es)
  then obtain w where w: "acc v e = Inr w" and r: "run w es = Inr v'"
    by (auto split: sum.splits)
  from acc_seq [OF w] Cons.IH [OF r]
  show ?case by (simp add: upt_conv_Cons del: upt_Suc)
qed

lemma run_owner: "run v es = Inr v' \<Longrightarrow> (\<forall>e \<in> set es. e_owner e = owner v) \<and> owner v' = owner v"
proof (induction es arbitrary: v)
  case Nil
  then show ?case by simp
next
  case (Cons e es)
  then obtain w where w: "acc v e = Inr w" and r: "run w es = Inr v'"
    by (auto split: sum.splits)
  from acc_owner [OF w] Cons.IH [OF r] show ?case by simp
qed

lemma run_closed_stuck: "closed v \<Longrightarrow> run v es = Inr v' \<Longrightarrow> es = []"
  using acc_closed by (cases es) (auto split: sum.splits)

lemma run_last:
  "run v es = Inr v' \<Longrightarrow> (\<forall>e \<in> set (butlast es). \<not> e_last e)
     \<and> (es \<noteq> [] \<longrightarrow> (closed v' \<longleftrightarrow> e_last (last es)))"
proof (induction es arbitrary: v)
  case Nil
  then show ?case by simp
next
  case (Cons e es)
  then obtain w where w: "acc v e = Inr w" and r: "run w es = Inr v'"
    by (auto split: sum.splits)
  show ?case
  proof (cases "es = []")
    case True
    with r acc_closed [OF w] show ?thesis by simp
  next
    case False
    with r acc_closed [OF w] run_closed_stuck have "\<not> e_last e" by blast
    with False Cons.IH [OF r] show ?thesis by simp
  qed
qed

lemma run_append:
  "run v (es @ fs) = (case run v es of Inl x \<Rightarrow> Inl x | Inr v' \<Rightarrow> run v' fs)"
  by (induction es arbitrary: v) (auto split: sum.splits)

end

lemma accept_Inr:
  assumes "accept v ev = Inr v'"
  shows "\<not> v_terminal v" and "ev_operation ev = v_operation v"
    and "ev_sequence ev = v_sequence v + 1" and "validate_event_shape ev = None"
    and "v' = v\<lparr>v_sequence := v_sequence v + 1, v_terminal := (ev_kind ev = Complete)\<rparr>"
  using assms by (auto simp: accept_def split: if_splits option.splits)

interpretation opstream: stream_acceptor accept v_sequence v_terminal v_operation
    ev_sequence ev_operation "\<lambda>ev. ev_kind ev = Complete"
  by unfold_locales (auto dest: accept_Inr)

lemma accept_all_run: "accept_all v es = opstream.run v es"
  by (induction es arbitrary: v) (auto split: sum.splits)



end
