(* ===== verification/Gate.thy ===== *)
theory Gate
  imports Service "HOL-Library.Word"
begin

text \<open>
  The admission gate of the daemon (\<open>internal/daemon/gate.go\<close>): reservations of work and of SSH
  leases, the drain that stops new ones, the idle test and the two waiting loops. The mutex makes
  every method atomic, so a method is a function on the gate; the \<open>changed\<close> channel that is closed
  and replaced on every change is the count \<open>g_changed\<close> of those replacements. The reservation
  counter keeps its 64 bits.
\<close>

datatype reservation_kind = ReservationWork | ReservationLease

datatype drain_result = DrainReleased | DrainDeadline | DrainCanceled

record gate_snapshot =
  gs_draining :: bool
  gs_drain_deadline :: gtime
  gs_active_work :: int
  gs_active_leases :: int
  gs_last_activity :: gtime

record gate =
  g_last_activity :: gtime
  g_draining :: bool
  g_drain_deadline :: gtime
  g_active_work :: int
  g_active_leases :: int
  g_seq :: "64 word"
  g_reservations :: "64 word \<rightharpoonup> reservation_kind"
  g_changed :: nat

definition new_gate :: "gtime \<Rightarrow> gate" where
  "new_gate now = \<lparr>g_last_activity = now, g_draining = False, g_drain_deadline = 0,
     g_active_work = 0, g_active_leases = 0, g_seq = 0, g_reservations = Map.empty,
     g_changed = 0\<rparr>"

definition notify :: "gate \<Rightarrow> gate" where
  "notify g = g\<lparr>g_changed := Suc (g_changed g)\<rparr>"

definition touch :: "gtime \<Rightarrow> gate \<Rightarrow> gate" where
  "touch now g =
     (if g_draining g \<or> \<not> now > g_last_activity g then g
      else notify (g\<lparr>g_last_activity := now\<rparr>))"

definition reserve :: "reservation_kind \<Rightarrow> gtime \<Rightarrow> gate \<Rightarrow> go_error + 64 word \<times> gate" where
  "reserve kind now g =
     (if g_draining g
      then Inl (new_error DaemonDraining ''daemon is draining'' True
                  [(''drain_deadline'', G_Time (g_drain_deadline g))] None)
      else
        let i = g_seq g + 1;
            g1 = g\<lparr>g_seq := i, g_reservations := (g_reservations g)(i \<mapsto> kind)\<rparr>;
            g2 = (if kind = ReservationLease then g1\<lparr>g_active_leases := g_active_leases g1 + 1\<rparr>
                  else g1\<lparr>g_active_work := g_active_work g1 + 1\<rparr>);
            g3 = (if now > g_last_activity g2 then g2\<lparr>g_last_activity := now\<rparr> else g2)
        in Inr (i, notify g3))"

text \<open>The closure \<open>Reserve\<close> returns; its \<open>sync.Once\<close> makes a second call do nothing, as the
  missing reservation already does.\<close>

definition release :: "64 word \<Rightarrow> gate \<Rightarrow> gate" where
  "release i g =
     (case g_reservations g i of
        None \<Rightarrow> g
      | Some kind \<Rightarrow>
          let g1 = g\<lparr>g_reservations := (g_reservations g)(i := None)\<rparr>
          in notify (if kind = ReservationLease
               then g1\<lparr>g_active_leases := g_active_leases g1 - 1\<rparr>
               else g1\<lparr>g_active_work := g_active_work g1 - 1\<rparr>))"

definition snapshot :: "gate \<Rightarrow> gate_snapshot" where
  "snapshot g = \<lparr>gs_draining = g_draining g, gs_drain_deadline = g_drain_deadline g,
     gs_active_work = g_active_work g, gs_active_leases = g_active_leases g,
     gs_last_activity = g_last_activity g\<rparr>"

definition begin_drain :: "gtime \<Rightarrow> gate \<Rightarrow> gate_snapshot \<times> gate" where
  "begin_drain deadline g =
     (let g' = (if g_draining g then g
                else notify (g\<lparr>g_draining := True, g_drain_deadline := deadline\<rparr>))
      in (snapshot g', g'))"

definition should_stop_for_idle :: "gtime \<Rightarrow> duration \<Rightarrow> gate \<Rightarrow> bool" where
  "should_stop_for_idle now idle_timeout g \<longleftrightarrow>
     idle_timeout > 0 \<and> \<not> g_draining g \<and> g_active_work g = 0 \<and> g_active_leases g = 0 \<and>
     \<not> now < g_last_activity g + idle_timeout"

text \<open>
  A wait observes the gate, and then blocks until its context ends, its timer fires, or the gate
  changes; the wake-ups a scheduler delivers are an argument, and \<open>None\<close> is a wait still blocked.
\<close>

datatype wakeup = Context_Done | Changed gate gtime | Timer_Fired

fun wait_for_drain :: "gate \<Rightarrow> gtime \<Rightarrow> wakeup list \<Rightarrow> drain_result option" where
  "wait_for_drain g now ws =
     (if g_draining g \<and> g_active_work g = 0 \<and> g_active_leases g = 0 then Some DrainReleased
      else if \<not> g_drain_deadline g > now then Some DrainDeadline
      else case ws of
        [] \<Rightarrow> None
      | Context_Done # _ \<Rightarrow> Some DrainCanceled
      | Changed g' now' # ws' \<Rightarrow> wait_for_drain g' now' ws'
      | Timer_Fired # _ \<Rightarrow> Some DrainDeadline)"

declare wait_for_drain.simps [simp del]

fun wait_for_release :: "gate \<Rightarrow> wakeup list \<Rightarrow> bool option" where
  "wait_for_release g ws =
     (if g_active_work g = 0 \<and> g_active_leases g = 0 then Some True
      else case ws of
        [] \<Rightarrow> None
      | Context_Done # _ \<Rightarrow> Some False
      | Changed g' now' # ws' \<Rightarrow> wait_for_release g' ws'
      | Timer_Fired # ws' \<Rightarrow> wait_for_release g ws')"

declare wait_for_release.simps [simp del]

subsection \<open>Runs of the gate\<close>

datatype gate_event =
    Touch gtime
  | Reserve reservation_kind gtime
  | Release "64 word"
  | Begin_Drain gtime

fun gate_step :: "gate_event \<Rightarrow> gate \<Rightarrow> gate" where
  "gate_step (Touch now) g = touch now g"
| "gate_step (Reserve kind now) g = (case reserve kind now g of Inl e \<Rightarrow> g | Inr (i, g') \<Rightarrow> g')"
| "gate_step (Release i) g = release i g"
| "gate_step (Begin_Drain deadline) g = snd (begin_drain deadline g)"

definition gate_run :: "gate_event list \<Rightarrow> gate \<Rightarrow> gate" where
  "gate_run es g = fold gate_step es g"

subsection \<open>The counters count the outstanding reservations\<close>

definition outstanding :: "reservation_kind \<Rightarrow> gate \<Rightarrow> 64 word set" where
  "outstanding k g = {i. g_reservations g i = Some k}"

definition gate_counts :: "gate \<Rightarrow> bool" where
  "gate_counts g \<longleftrightarrow>
     g_active_work g = int (card (outstanding ReservationWork g)) \<and>
     g_active_leases g = int (card (outstanding ReservationLease g))"

text \<open>After at most \<open>n\<close> reservations, the counter has not wrapped and no live identifier is ahead
  of it.\<close>

definition gate_inv :: "nat \<Rightarrow> gate \<Rightarrow> bool" where
  "gate_inv n g \<longleftrightarrow>
     gate_counts g \<and> unat (g_seq g) \<le> n \<and>
     (\<forall>i k. g_reservations g i = Some k \<longrightarrow> unat i \<le> unat (g_seq g))"

lemma finite_outstanding [simp]: "finite (outstanding k g)"
  by simp

lemma gate_inv_new: "gate_inv 0 (new_gate now)"
  by (simp add: gate_inv_def gate_counts_def outstanding_def new_gate_def)

lemma gate_inv_mono: "gate_inv m g \<Longrightarrow> m \<le> n \<Longrightarrow> gate_inv n g"
  by (auto simp: gate_inv_def)

lemma card_map_upd_new:
  "m i = None \<Longrightarrow> card {j. (m(i \<mapsto> k)) j = Some (l::reservation_kind)} =
     card {j. m j = Some l} + (if k = l then 1 else 0)" for i :: "64 word"
proof -
  assume none: "m i = None"
  then have "{j. (m(i \<mapsto> k)) j = Some l} =
      (if k = l then insert i {j. m j = Some l} else {j. m j = Some l})"
    by auto
  with none show ?thesis by simp
qed

lemma card_map_del:
  "m i = Some k \<Longrightarrow> int (card {j. (m(i := None)) j = Some (l::reservation_kind)}) =
     int (card {j. m j = Some l}) - (if k = l then 1 else 0)" for i :: "64 word"
proof -
  assume some: "m i = Some k"
  have eq: "{j. (m(i := None)) j = Some l} = {j. m j = Some l} - {i}" by auto
  show ?thesis
  proof (cases "k = l")
    case True
    with some have i: "i \<in> {j. m j = Some l}" by simp
    then have "0 < card {j. m j = Some l}" by (auto simp: card_gt_0_iff)
    with i True show ?thesis unfolding eq by (simp add: card_Diff_singleton of_nat_diff)
  next
    case False
    with some show ?thesis unfolding eq by (simp add: card_Diff_singleton_if)
  qed
qed

lemma unat_Suc_word: "unat (w :: 64 word) < 2 ^ 64 - 1 \<Longrightarrow> unat (w + 1) = Suc (unat w)"
proof -
  assume "unat w < 2 ^ 64 - 1"
  then have "Suc (unat w) < 2 ^ LENGTH(64)" by simp
  then show ?thesis by (simp add: unat_word_ariths unat_1 del: One_nat_def)
qed

lemma reserve_fresh:
  assumes "gate_inv n g" and "n < 2 ^ 64 - 1"
  shows "g_reservations g (g_seq g + 1) = None"
proof (rule ccontr)
  assume "g_reservations g (g_seq g + 1) \<noteq> None"
  then obtain k where "g_reservations g (g_seq g + 1) = Some k" by blast
  with assms(1) have "unat (g_seq g + 1) \<le> unat (g_seq g)" by (auto simp: gate_inv_def)
  moreover have "unat (g_seq g + 1) = Suc (unat (g_seq g))"
    using assms by (intro unat_Suc_word) (auto simp: gate_inv_def)
  ultimately show False by simp
qed

lemma reserve_cases:
  assumes "reserve kind now g = Inr (i, g')"
  shows "\<not> g_draining g" and "i = g_seq g + 1" and "g_seq g' = g_seq g + 1"
    and "g_reservations g' = (g_reservations g)(g_seq g + 1 \<mapsto> kind)"
    and "g_active_work g' = g_active_work g + (if kind = ReservationWork then 1 else 0)"
    and "g_active_leases g' = g_active_leases g + (if kind = ReservationLease then 1 else 0)"
    and "g_draining g' = g_draining g" and "g_drain_deadline g' = g_drain_deadline g"
  using assms by (cases kind; auto simp: reserve_def Let_def notify_def split: if_splits)+

lemma gate_inv_reserve:
  assumes inv: "gate_inv n g" and bound: "n < 2 ^ 64 - 1"
    and res: "reserve kind now g = Inr (i, g')"
  shows "gate_inv (Suc n) g'"
proof -
  note r = reserve_cases [OF res]
  have fresh: "g_reservations g (g_seq g + 1) = None" by (rule reserve_fresh [OF inv bound])
  have suc: "unat (g_seq g + 1) = Suc (unat (g_seq g))"
    using inv bound by (intro unat_Suc_word) (auto simp: gate_inv_def)
  have "gate_counts g'"
    using inv card_map_upd_new [where m = "g_reservations g", OF fresh, of kind]
    by (cases kind) (simp_all add: gate_inv_def gate_counts_def outstanding_def r)
  moreover have "unat (g_seq g') \<le> Suc n" using inv suc by (simp add: gate_inv_def r)
  moreover have "\<forall>j k. g_reservations g' j = Some k \<longrightarrow> unat j \<le> unat (g_seq g')"
    using inv suc by (auto simp: gate_inv_def r)
  ultimately show ?thesis by (simp add: gate_inv_def)
qed

lemma release_counts:
  assumes "gate_counts g"
  shows "gate_counts (release i g)"
proof (cases "g_reservations g i")
  case None
  with assms show ?thesis by (simp add: release_def)
next
  case (Some kind)
  with assms card_map_del [where m = "g_reservations g", OF Some] show ?thesis
    by (cases kind) (simp_all add: release_def gate_counts_def outstanding_def notify_def Let_def
        del: fun_upd_apply)
qed

lemma release_simps [simp]:
  "g_seq (release i g) = g_seq g" "g_draining (release i g) = g_draining g"
  "g_drain_deadline (release i g) = g_drain_deadline g"
  "g_last_activity (release i g) = g_last_activity g"
  by (auto simp: release_def notify_def Let_def split: option.split)

lemma release_reservations [simp]:
  "g_reservations (release i g) = (g_reservations g)(i := None)"
  by (auto simp: release_def notify_def Let_def split: option.split)

lemma gate_inv_release: "gate_inv n g \<Longrightarrow> gate_inv n (release i g)"
  by (auto simp: gate_inv_def release_counts)

lemma gate_inv_step:
  assumes "gate_inv n g" and "n < 2 ^ 64 - 1"
  shows "gate_inv (Suc n) (gate_step e g)"
proof (cases e)
  case (Reserve kind now)
  show ?thesis
  proof (cases "reserve kind now g")
    case (Inl x)
    with Reserve assms(1) show ?thesis by (simp add: gate_inv_mono)
  next
    case (Inr r)
    with Reserve assms show ?thesis by (cases r) (simp add: gate_inv_reserve)
  qed
next
  case (Release i)
  with assms(1) show ?thesis by (simp add: gate_inv_mono gate_inv_release)
next
  case (Touch now)
  with assms(1) show ?thesis
    by (auto simp: touch_def notify_def gate_inv_def gate_counts_def outstanding_def)
next
  case (Begin_Drain deadline)
  with assms(1) show ?thesis
    by (auto simp: begin_drain_def notify_def gate_inv_def gate_counts_def outstanding_def Let_def)
qed

lemma gate_inv_run:
  "gate_inv n g \<Longrightarrow> n + length es < 2 ^ 64 \<Longrightarrow> gate_inv (n + length es) (gate_run es g)"
proof (induction es arbitrary: n g)
  case Nil
  then show ?case by (simp add: gate_run_def)
next
  case (Cons e es)
  then have "gate_inv (Suc n) (gate_step e g)" by (intro gate_inv_step) auto
  with Cons.IH [of "Suc n"] Cons.prems show ?case by (simp add: gate_run_def)
qed

text \<open>
  C1. From a new gate, after any sequence of fewer than 2^64 touches, reservations, releases and
  drains in any order, \<open>activeWork\<close> and \<open>activeLeases\<close> are exactly the numbers of outstanding work
  and lease reservations, and the identifier the next reservation takes is not in use.
\<close>

theorem gate_counters_exact:
  assumes "length es < 2 ^ 64 - 1"
  shows "g_active_work (gate_run es (new_gate now)) =
           int (card (outstanding ReservationWork (gate_run es (new_gate now))))
       \<and> g_active_leases (gate_run es (new_gate now)) =
           int (card (outstanding ReservationLease (gate_run es (new_gate now))))
       \<and> g_reservations (gate_run es (new_gate now)) (g_seq (gate_run es (new_gate now)) + 1) = None"
proof -
  let ?g = "gate_run es (new_gate now)"
  have inv: "gate_inv (length es) ?g"
    using gate_inv_run [OF gate_inv_new, of es now] assms by simp
  moreover have "g_reservations ?g (g_seq ?g + 1) = None"
    by (rule reserve_fresh [OF inv assms])
  ultimately show ?thesis by (simp add: gate_inv_def gate_counts_def)
qed

theorem gate_counters_exact_witness:
  "g_active_work (gate_run [Reserve ReservationWork 5, Reserve ReservationLease 6, Release 1]
     (new_gate 0)) =
   int (card (outstanding ReservationWork
     (gate_run [Reserve ReservationWork 5, Reserve ReservationLease 6, Release 1] (new_gate 0))))"
  using gate_counters_exact
    [of "[Reserve ReservationWork 5, Reserve ReservationLease 6, Release 1]" 0]
  by simp

subsection \<open>Draining\<close>

lemma draining_step:
  "g_draining g \<Longrightarrow> g_draining (gate_step e g) \<and> g_drain_deadline (gate_step e g) = g_drain_deadline g
     \<and> g_active_work (gate_step e g) \<le> g_active_work g
     \<and> g_active_leases (gate_step e g) \<le> g_active_leases g
     \<and> dom (g_reservations (gate_step e g)) \<subseteq> dom (g_reservations g)"
  by (cases e)
     (auto simp: touch_def reserve_def begin_drain_def release_def notify_def Let_def
       split: option.splits if_splits)

text \<open>
  Draining is final: once a drain has begun, every later reservation fails with
  \<open>daemon_draining\<close> and the drain's first deadline, and no sequence of operations ends the drain,
  changes its deadline, adds a reservation or raises a counter.
\<close>

theorem gate_drain_is_final:
  assumes "g_draining g"
  shows "g_draining (gate_run es g) \<and> g_drain_deadline (gate_run es g) = g_drain_deadline g
       \<and> dom (g_reservations (gate_run es g)) \<subseteq> dom (g_reservations g)
       \<and> g_active_work (gate_run es g) \<le> g_active_work g
       \<and> g_active_leases (gate_run es g) \<le> g_active_leases g
       \<and> (\<exists>e. reserve kind now (gate_run es g) = Inl e \<and> is_code e DaemonDraining
             \<and> d_details (as_error e) = [(''drain_deadline'', G_Time (g_drain_deadline g))])"
  using assms
proof (induction es arbitrary: g)
  case Nil
  then show ?case
    by (simp add: gate_run_def reserve_def new_error_def is_code_def as_error_def)
next
  case (Cons e es)
  note d = draining_step [OF Cons.prems, of e]
  show ?case using Cons.IH [of "gate_step e g"] d
    by (simp add: gate_run_def) (meson order_trans subset_trans)
qed

theorem gate_drain_is_final_witness:
  "\<exists>e. reserve ReservationWork 9 (gate_run [Touch 8] (snd (begin_drain 7 (new_gate 0)))) = Inl e
     \<and> is_code e DaemonDraining"
proof -
  have "g_draining (snd (begin_drain 7 (new_gate 0)))"
    by (simp add: begin_drain_def new_gate_def notify_def Let_def)
  from gate_drain_is_final [OF this, of "[Touch 8]" ReservationWork 9] show ?thesis by blast
qed

subsection \<open>Waiting for the drain\<close>

lemma release_all_counts:
  "gate_counts g \<Longrightarrow> gate_counts (fold release is g)"
  by (induction "is" arbitrary: g) (simp_all add: release_counts)

lemma release_all_reservations:
  "g_reservations (fold release is g) i = (if i \<in> set is then None else g_reservations g i)"
  by (induction "is" arbitrary: g) auto

lemma release_all_draining [simp]: "g_draining (fold release is g) = g_draining g"
  by (induction "is" arbitrary: g) simp_all

text \<open>
  A drain ends: when the counters are exact, releasing every outstanding reservation, in any
  order, with repetitions, together with any other identifiers, brings both counters to 0, and
  then a draining gate answers \<open>DrainReleased\<close> at once, whatever the deadline and the wake-ups.
\<close>

theorem gate_drain_completes:
  assumes "gate_counts g" and "g_draining g" and "dom (g_reservations g) \<subseteq> set is"
  shows "g_active_work (fold release is g) = 0 \<and> g_active_leases (fold release is g) = 0
       \<and> wait_for_drain (fold release is g) now ws = Some DrainReleased
       \<and> wait_for_release (fold release is g) ws = Some True"
proof -
  let ?h = "fold release is g"
  have "outstanding k ?h = {}" for k
    using assms(3) by (auto simp: outstanding_def release_all_reservations)
  with release_all_counts [OF assms(1), of "is"]
  have "g_active_work ?h = 0 \<and> g_active_leases ?h = 0" by (simp add: gate_counts_def)
  with assms(2) show ?thesis
    by (simp add: wait_for_drain.simps [of ?h] wait_for_release.simps [of ?h])
qed

theorem gate_drain_completes_witness:
  "wait_for_drain (fold release [1] (snd (begin_drain 0 (new_gate 0)))) 10 [] = Some DrainReleased"
proof -
  let ?g = "snd (begin_drain 0 (new_gate 0))"
  have "gate_counts ?g" and "g_draining ?g" and "dom (g_reservations ?g) \<subseteq> set [1]"
    by (simp_all add: begin_drain_def new_gate_def notify_def Let_def gate_counts_def
        outstanding_def)
  from gate_drain_completes [OF this, of 10 "[]"] show ?thesis by blast
qed

text \<open>The gate a wait ends on: the last one a wake-up showed it.\<close>

fun last_seen :: "gate \<Rightarrow> wakeup list \<Rightarrow> gate set" where
  "last_seen g [] = {g}"
| "last_seen g (Changed g' now # ws) = insert g (last_seen g' ws)"
| "last_seen g (w # ws) = insert g (last_seen g ws)"

lemma wait_for_drain_released:
  "wait_for_drain g now ws = Some DrainReleased \<Longrightarrow>
     \<exists>h \<in> last_seen g ws. g_draining h \<and> g_active_work h = 0 \<and> g_active_leases h = 0"
proof (induction g now ws rule: wait_for_drain.induct)
  case (1 g now ws)
  have here: "g \<in> last_seen g ws"
    by (cases ws; cases "hd ws") auto
  show ?case
  proof (cases "g_draining g \<and> g_active_work g = 0 \<and> g_active_leases g = 0")
    case True
    with here show ?thesis by blast
  next
    case False
    with 1 show ?thesis
      by (auto simp: wait_for_drain.simps [of g] split: if_splits list.splits wakeup.splits)
  qed
qed

text \<open>
  Idle shutdown is safe: when the counters are exact, the daemon stops for idleness only while
  no reservation of either kind is outstanding, it is not draining, the timeout is positive and at
  least that long has passed since the last activity; and a touch or a reservation at a later
  instant postpones it.
\<close>

theorem gate_idle_stop_safe:
  assumes "gate_counts g" and "should_stop_for_idle now timeout g"
  shows "dom (g_reservations g) = {} \<and> \<not> g_draining g \<and> timeout > 0
       \<and> now - g_last_activity g \<ge> timeout
       \<and> (t > now - timeout \<longrightarrow> \<not> should_stop_for_idle now timeout (touch t g))
       \<and> (\<forall>i g'. reserve kind t g = Inr (i, g') \<longrightarrow> \<not> should_stop_for_idle now timeout g')"
proof -
  have none: "outstanding k g = {}" for k
    using assms by (cases k) (simp_all add: gate_counts_def should_stop_for_idle_def)
  have dom: "dom (g_reservations g) = {}"
  proof (rule ccontr)
    assume "dom (g_reservations g) \<noteq> {}"
    then obtain i k where "g_reservations g i = Some k" by blast
    with none [of k] show False by (simp add: outstanding_def)
  qed
  have "\<not> should_stop_for_idle now timeout g'" if "reserve kind t g = Inr (i, g')" for i g'
    using reserve_cases [OF that] assms(2) by (cases kind) (simp_all add: should_stop_for_idle_def)
  with dom assms(2) show ?thesis
    by (auto simp: should_stop_for_idle_def touch_def notify_def)
qed

theorem gate_idle_stop_safe_witness:
  "should_stop_for_idle 10 5 (new_gate 0) \<and> \<not> should_stop_for_idle 10 5 (touch 6 (new_gate 0))"
proof -
  have c: "gate_counts (new_gate 0)"
    by (simp add: new_gate_def gate_counts_def outstanding_def)
  have s: "should_stop_for_idle 10 5 (new_gate 0)"
    by (simp add: new_gate_def should_stop_for_idle_def)
  from s gate_idle_stop_safe [OF c s, of 6 ReservationWork] show ?thesis by simp
qed

subsection \<open>The gate as a source of reservations\<close>

text \<open>
  What a client of a reservation source relies on: a granted token was free and is held
  afterwards with no other token changed, and giving a token back frees exactly that token. A
  client that takes several tokens then holds distinct ones, and gives all of them back by
  releasing each once or more, in any order.
\<close>

locale reservation_source =
  fixes grant :: "'g \<Rightarrow> 'x + 't \<times> 'g"
    and give_back :: "'t \<Rightarrow> 'g \<Rightarrow> 'g"
    and held :: "'g \<Rightarrow> 't set"
    and usable :: "'g \<Rightarrow> bool"
  assumes grant_held: "usable g \<Longrightarrow> grant g = Inr (t, g') \<Longrightarrow>
      t \<notin> held g \<and> held g' = insert t (held g)"
    and give_back_held: "held (give_back t g) = held g - {t}"
begin

lemma give_back_all: "held (fold give_back ts g) = held g - set ts"
  by (induction ts arbitrary: g) (auto simp: give_back_held)

lemma grant_then_give_back:
  "usable g \<Longrightarrow> grant g = Inr (t, g') \<Longrightarrow> held (give_back t g') = held g"
  using grant_held by (fastforce simp: give_back_held)

lemma grant_distinct:
  "usable g \<Longrightarrow> grant g = Inr (t, g') \<Longrightarrow> usable g' \<Longrightarrow> grant g' = Inr (u, g'') \<Longrightarrow>
     t \<noteq> u \<and> {t, u} \<subseteq> held g''"
  using grant_held by blast

end

interpretation gate_source: reservation_source "reserve kind now" release
    "\<lambda>g. dom (g_reservations g)" "\<lambda>g. gate_inv (2 ^ 64 - 2) g" for kind now
proof unfold_locales
  fix g t g'
  assume inv: "gate_inv (2 ^ 64 - 2) g" and res: "reserve kind now g = Inr (t, g')"
  have "g_reservations g (g_seq g + 1) = None" by (rule reserve_fresh [OF inv]) simp
  then show "t \<notin> dom (g_reservations g) \<and>
      dom (g_reservations g') = insert t (dom (g_reservations g))"
    by (auto simp: reserve_cases(2,4) [OF res])
qed auto

end
