(* ===== verification/Go_Json.thy ===== *)
theory Go_Json
  imports Service
begin

text \<open>
  The part of Go's \<open>encoding/json\<close> and \<open>unicode/utf8\<close> that operation events go through: rune
  decoding, string quoting with HTML escaping, the byte scanner behind \<open>json.Valid\<close>, compaction of
  raw messages, and \<open>json.Marshal\<close> of dynamic values and of the event structure.
\<close>

subsection \<open>UTF-8\<close>

definition rune_error :: nat where
  "rune_error = 0xFFFD"

definition is_cont :: "char \<Rightarrow> bool" where
  "is_cont c \<longleftrightarrow> 0x80 \<le> code c \<and> code c \<le> 0xBF"

text \<open>\<open>utf8.DecodeRuneInString\<close>: the rune and its width; an invalid byte is \<open>RuneError\<close> of width 1.\<close>

fun decode_rune :: "string \<Rightarrow> nat \<times> nat" where
  "decode_rune [] = (rune_error, 0)"
| "decode_rune (c0 # s) =
     (let n = code c0; bad = (rune_error, 1) in
      if n < 0x80 then (n, 1)
      else if n < 0xC2 \<or> 0xF4 < n then bad
      else if n \<le> 0xDF then
        (case s of c1 # _ \<Rightarrow> if is_cont c1 then ((n - 0xC0) * 64 + (code c1 - 0x80), 2) else bad
         | _ \<Rightarrow> bad)
      else if n \<le> 0xEF then
        (case s of c1 # c2 # _ \<Rightarrow>
           if (if n = 0xE0 then 0xA0 \<le> code c1 \<and> code c1 \<le> 0xBF
               else if n = 0xED then 0x80 \<le> code c1 \<and> code c1 \<le> 0x9F else is_cont c1)
              \<and> is_cont c2
           then ((n - 0xE0) * 4096 + (code c1 - 0x80) * 64 + (code c2 - 0x80), 3) else bad
         | _ \<Rightarrow> bad)
      else
        (case s of c1 # c2 # c3 # _ \<Rightarrow>
           if (if n = 0xF0 then 0x90 \<le> code c1 \<and> code c1 \<le> 0xBF
               else if n = 0xF4 then 0x80 \<le> code c1 \<and> code c1 \<le> 0x8F else is_cont c1)
              \<and> is_cont c2 \<and> is_cont c3
           then ((n - 0xF0) * 262144 + (code c1 - 0x80) * 4096 + (code c2 - 0x80) * 64
                 + (code c3 - 0x80), 4)
           else bad
         | _ \<Rightarrow> bad))"

lemma decode_rune_width: "s \<noteq> [] \<Longrightarrow> 1 \<le> snd (decode_rune s) \<and> snd (decode_rune s) \<le> length s"
  by (cases s) (auto simp: Let_def split: list.split)

declare decode_rune.simps [simp del]

subsection \<open>Quoting strings\<close>

definition hex_digit :: "nat \<Rightarrow> char" where
  "hex_digit n = ''0123456789abcdef'' ! n"

definition backslash :: char where
  "backslash = byte 92"

definition quote :: char where
  "quote = byte 34"

definition u_escape :: "nat \<Rightarrow> string" where
  "u_escape n = [backslash, CHR ''u'', hex_digit (n div 4096 mod 16), hex_digit (n div 256 mod 16),
     hex_digit (n div 16 mod 16), hex_digit (n mod 16)]"

definition escape_ascii :: "char \<Rightarrow> string" where
  "escape_ascii c =
     (let n = code c in
      if n = 92 \<or> n = 34 then [backslash, c]
      else if n = 8 then [backslash, CHR ''b'']
      else if n = 12 then [backslash, CHR ''f'']
      else if n = 10 then [backslash, CHR ''n'']
      else if n = 13 then [backslash, CHR ''r'']
      else if n = 9 then [backslash, CHR ''t'']
      else if n < 32 \<or> n = 60 \<or> n = 62 \<or> n = 38 then u_escape n
      else [c])"

function quote_body :: "string \<Rightarrow> string" where
  "quote_body [] = []"
| "quote_body (c # s) =
     (if code c < 0x80 then escape_ascii c @ quote_body s
      else
        let rn = decode_rune (c # s) in
        (if fst rn = rune_error \<and> snd rn = 1 then u_escape rune_error
         else if fst rn = 0x2028 \<or> fst rn = 0x2029 then u_escape (fst rn)
         else take (snd rn) (c # s)) @ quote_body (drop (snd rn) (c # s)))"
  by pat_completeness auto
termination
proof (relation "measure length")
  fix c s x
  assume "x = decode_rune (c # s)"
  with decode_rune_width [of "c # s"]
  show "(drop (snd x) (c # s), c # s) \<in> measure length" by simp
qed auto

declare quote_body.simps(2) [simp del]

definition json_quote :: "string \<Rightarrow> string" where
  "json_quote s = quote # quote_body s @ [quote]"

lemma length_u_escape [simp]: "length (u_escape n) = 6"
  by (simp add: u_escape_def)

subsection \<open>\<open>json.Valid\<close>: the byte scanner\<close>

datatype parse_mode = Object_Key | Object_Value | Array_Value

datatype scan_state =
    Begin_Value | Begin_Value_Or_Empty | Begin_String | Begin_String_Or_Empty | End_Value | End_Top
  | In_String | In_String_Esc | In_String_Esc_U nat | Neg | Num_One | Num_Zero | Num_Dot
  | Num_Dot_Digits | Num_E | Num_E_Sign | Num_E_Digits | In_Literal string

definition json_space :: "char \<Rightarrow> bool" where
  "json_space c \<longleftrightarrow> code c \<in> {32, 9, 13, 10}"

definition max_nesting_depth :: nat where
  "max_nesting_depth = 10000"

definition end_value :: "parse_mode list \<Rightarrow> char \<Rightarrow> (scan_state \<times> parse_mode list) option" where
  "end_value st c =
     (case st of
        [] \<Rightarrow> if json_space c then Some (End_Top, []) else None
      | m # st' \<Rightarrow>
          let popped = Some (if st' = [] then End_Top else End_Value, st') in
          if json_space c then Some (End_Value, st)
          else case m of
            Object_Key \<Rightarrow> if c = CHR '':'' then Some (Begin_Value, Object_Value # st') else None
          | Object_Value \<Rightarrow>
              if c = CHR '','' then Some (Begin_String, Object_Key # st')
              else if c = CHR ''}'' then popped else None
          | Array_Value \<Rightarrow>
              if c = CHR '','' then Some (Begin_Value, st)
              else if c = CHR '']'' then popped else None)"

definition push_mode ::
    "scan_state \<Rightarrow> parse_mode \<Rightarrow> parse_mode list \<Rightarrow> (scan_state \<times> parse_mode list) option" where
  "push_mode s m st = (if length st < max_nesting_depth then Some (s, m # st) else None)"

definition begin_value :: "parse_mode list \<Rightarrow> char \<Rightarrow> (scan_state \<times> parse_mode list) option" where
  "begin_value st c =
     (if json_space c then Some (Begin_Value, st)
      else if c = CHR ''{'' then push_mode Begin_String_Or_Empty Object_Key st
      else if c = CHR ''['' then push_mode Begin_Value_Or_Empty Array_Value st
      else if c = quote then Some (In_String, st)
      else if c = CHR ''-'' then Some (Neg, st)
      else if c = CHR ''0'' then Some (Num_Zero, st)
      else if c = CHR ''t'' then Some (In_Literal ''rue'', st)
      else if c = CHR ''f'' then Some (In_Literal ''alse'', st)
      else if c = CHR ''n'' then Some (In_Literal ''ull'', st)
      else if is_digit c then Some (Num_One, st)
      else None)"

definition begin_string :: "parse_mode list \<Rightarrow> char \<Rightarrow> (scan_state \<times> parse_mode list) option" where
  "begin_string st c =
     (if json_space c then Some (Begin_String, st)
      else if c = quote then Some (In_String, st) else None)"

definition after_int :: "parse_mode list \<Rightarrow> char \<Rightarrow> (scan_state \<times> parse_mode list) option" where
  "after_int st c =
     (if c = CHR ''.'' then Some (Num_Dot, st)
      else if c = CHR ''e'' \<or> c = CHR ''E'' then Some (Num_E, st)
      else end_value st c)"

fun scan_step :: "scan_state \<times> parse_mode list \<Rightarrow> char \<Rightarrow> (scan_state \<times> parse_mode list) option" where
  "scan_step (Begin_Value, st) c = begin_value st c"
| "scan_step (Begin_Value_Or_Empty, st) c =
     (if json_space c then Some (Begin_Value_Or_Empty, st)
      else if c = CHR '']'' then end_value st c else begin_value st c)"
| "scan_step (Begin_String, st) c = begin_string st c"
| "scan_step (Begin_String_Or_Empty, st) c =
     (if json_space c then Some (Begin_String_Or_Empty, st)
      else if c = CHR ''}'' then end_value (Object_Value # tl st) c else begin_string st c)"
| "scan_step (End_Value, st) c = end_value st c"
| "scan_step (End_Top, st) c = (if json_space c then Some (End_Top, st) else None)"
| "scan_step (In_String, st) c =
     (if c = quote then Some (End_Value, st)
      else if c = backslash then Some (In_String_Esc, st)
      else if code c < 32 then None else Some (In_String, st))"
| "scan_step (In_String_Esc, st) c =
     (if c \<in> set ''bfnrt/'' \<or> c = backslash \<or> c = quote then Some (In_String, st)
      else if c = CHR ''u'' then Some (In_String_Esc_U 4, st) else None)"
| "scan_step (In_String_Esc_U n, st) c =
     (if is_hex c then Some (if n \<le> 1 then In_String else In_String_Esc_U (n - 1), st) else None)"
| "scan_step (Neg, st) c =
     (if c = CHR ''0'' then Some (Num_Zero, st)
      else if is_digit c then Some (Num_One, st) else None)"
| "scan_step (Num_One, st) c = (if is_digit c then Some (Num_One, st) else after_int st c)"
| "scan_step (Num_Zero, st) c = after_int st c"
| "scan_step (Num_Dot, st) c = (if is_digit c then Some (Num_Dot_Digits, st) else None)"
| "scan_step (Num_Dot_Digits, st) c =
     (if is_digit c then Some (Num_Dot_Digits, st)
      else if c = CHR ''e'' \<or> c = CHR ''E'' then Some (Num_E, st) else end_value st c)"
| "scan_step (Num_E, st) c =
     (if c = CHR ''+'' \<or> c = CHR ''-'' then Some (Num_E_Sign, st)
      else if is_digit c then Some (Num_E_Digits, st) else None)"
| "scan_step (Num_E_Sign, st) c = (if is_digit c then Some (Num_E_Digits, st) else None)"
| "scan_step (Num_E_Digits, st) c =
     (if is_digit c then Some (Num_E_Digits, st) else end_value st c)"
| "scan_step (In_Literal rest, st) c =
     (case rest of
        [] \<Rightarrow> None
      | [x] \<Rightarrow> if c = x then Some (End_Value, st) else None
      | x # xs \<Rightarrow> if c = x then Some (In_Literal xs, st) else None)"

fun scan :: "scan_state \<times> parse_mode list \<Rightarrow> string \<Rightarrow> (scan_state \<times> parse_mode list) option" where
  "scan q [] = Some q"
| "scan q (c # s) = (case scan_step q c of None \<Rightarrow> None | Some q' \<Rightarrow> scan q' s)"

text \<open>At the end of the input the scanner is given one space and must be past the top value.\<close>

definition json_valid :: "string \<Rightarrow> bool" where
  "json_valid s =
     (case scan (Begin_Value, []) s of
        None \<Rightarrow> False
      | Some q \<Rightarrow> (case scan_step q (CHR '' '') of Some (End_Top, _) \<Rightarrow> True | _ \<Rightarrow> False))"

subsection \<open>Compaction of raw messages\<close>

fun compact_raw :: "bool \<Rightarrow> bool \<Rightarrow> string \<Rightarrow> string" where
  "compact_raw in_str esc [] = []"
| "compact_raw in_str esc (c # s) =
     (let n = code c in
      if n = 60 \<or> n = 62 \<or> n = 38 then u_escape n @ compact_raw in_str False s
      else case s of
        d # e # s' \<Rightarrow>
          if n = 0xE2 \<and> code d = 0x80 \<and> (code e = 0xA8 \<or> code e = 0xA9)
          then u_escape (if code e = 0xA8 then 0x2028 else 0x2029) @ compact_raw in_str False s'
          else if \<not> in_str \<and> json_space c then compact_raw in_str False s
          else c # compact_raw (if c = quote \<and> \<not> esc then \<not> in_str else in_str)
                 (in_str \<and> c = backslash \<and> \<not> esc) s
      | _ \<Rightarrow>
          if \<not> in_str \<and> json_space c then compact_raw in_str False s
          else c # compact_raw (if c = quote \<and> \<not> esc then \<not> in_str else in_str)
                 (in_str \<and> c = backslash \<and> \<not> esc) s)"

subsection \<open>\<open>json.Marshal\<close>\<close>

definition base64_alphabet :: string where
  "base64_alphabet = ''ABCDEFGHIJKLMNOPQRSTUVWXYZabcdefghijklmnopqrstuvwxyz0123456789+/''"

fun base64 :: "string \<Rightarrow> string" where
  "base64 (a # b # c # s) =
     (let n = code a * 65536 + code b * 256 + code c in
      map (\<lambda>k. base64_alphabet ! (n div k mod 64)) [262144, 4096, 64, 1]) @ base64 s"
| "base64 [a, b] =
     (let n = code a * 65536 + code b * 256 in
      map (\<lambda>k. base64_alphabet ! (n div k mod 64)) [262144, 4096, 64]) @ ''=''"
| "base64 [a] =
     (let n = code a * 65536 in
      map (\<lambda>k. base64_alphabet ! (n div k mod 64)) [262144, 4096]) @ ''==''"
| "base64 [] = []"

lemma length_base64: "length (base64 s) = (length s + 2) div 3 * 4"
proof (induction s rule: base64.induct)
  case (1 a b c s)
  have "(length (a # b # c # s) + 2) div 3 = Suc ((length s + 2) div 3)" by simp
  with 1 show ?case by (simp add: Let_def)
qed (simp_all add: Let_def)

definition commas :: "string list \<Rightarrow> string" where
  "commas xs = join '','' xs"

text \<open>Object members in key order, as \<open>Marshal\<close> writes a map; keys of a Go map are distinct.\<close>

definition render_object :: "(string \<times> string) list \<Rightarrow> string" where
  "render_object kvs =
     ''{'' @ commas (map (\<lambda>(k, v). json_quote k @ '':'' @ v) (sort_key fst kvs)) @ ''}''"

text \<open>
  \<open>None\<close> is the error of \<open>Marshal\<close>: a NaN or infinite float, an invalid raw message, a kind without
  a JSON form. A time is written by its \<open>MarshalJSON\<close>, whose text is the parameter \<open>fmt\<close>.
\<close>

fun marshal_value :: "(gtime \<Rightarrow> string) \<Rightarrow> go_value \<Rightarrow> string option"
  and marshal_elems :: "(gtime \<Rightarrow> string) \<Rightarrow> go_value list \<Rightarrow> string list option"
  and marshal_members :: "(gtime \<Rightarrow> string) \<Rightarrow> (string \<times> go_value) list \<Rightarrow> (string \<times> string) list option"
where
  "marshal_value fmt G_Nil = Some ''null''"
| "marshal_value fmt (G_Bool b) = Some (if b then ''true'' else ''false'')"
| "marshal_value fmt (G_String s) = Some (json_quote s)"
| "marshal_value fmt (G_Int i) = Some (itoa i)"
| "marshal_value fmt (G_Float special text) = (if special then None else Some text)"
| "marshal_value fmt (G_Time t) = Some (json_quote (fmt t))"
| "marshal_value fmt (G_RawMessage s) =
     (if json_valid s then Some (compact_raw False False s) else None)"
| "marshal_value fmt (G_Bytes None) = Some ''null''"
| "marshal_value fmt (G_Bytes (Some bs)) = Some (quote # base64 bs @ [quote])"
| "marshal_value fmt (G_Slice None) = Some ''null''"
| "marshal_value fmt (G_Slice (Some vs)) =
     map_option (\<lambda>ts. ''['' @ commas ts @ '']'') (marshal_elems fmt vs)"
| "marshal_value fmt (G_Map kvs) = map_option render_object (marshal_members fmt kvs)"
| "marshal_value fmt G_Other = None"
| "marshal_elems fmt [] = Some []"
| "marshal_elems fmt (v # vs) =
     (case marshal_value fmt v of None \<Rightarrow> None
      | Some t \<Rightarrow> map_option ((#) t) (marshal_elems fmt vs))"
| "marshal_members fmt [] = Some []"
| "marshal_members fmt ((k, v) # kvs) =
     (case marshal_value fmt v of None \<Rightarrow> None
      | Some t \<Rightarrow> map_option ((#) (k, t)) (marshal_members fmt kvs))"

definition field :: "string \<Rightarrow> string \<Rightarrow> string" where
  "field name v = quote # name @ [quote] @ '':'' @ v"

definition json_bool :: "bool \<Rightarrow> string" where
  "json_bool b = (if b then ''true'' else ''false'')"

definition details_field :: "(gtime \<Rightarrow> string) \<Rightarrow> details \<Rightarrow> string list option" where
  "details_field fmt det =
     (if det = [] then Some []
      else map_option (\<lambda>t. [field ''details'' t]) (marshal_value fmt (G_Map det)))"

definition marshal_prompt :: "(gtime \<Rightarrow> string) \<Rightarrow> operation_prompt \<Rightarrow> string option" where
  "marshal_prompt fmt p =
     map_option (\<lambda>det. ''{'' @ commas
         ([field ''id'' (json_quote (pr_id p)), field ''kind'' (json_quote (pr_kind p)),
           field ''message'' (json_quote (pr_message p)),
           field ''sensitive'' (json_bool (pr_sensitive p))]
          @ (case pr_deadline p of None \<Rightarrow> [] | Some t \<Rightarrow> [field ''deadline'' (json_quote t)])
          @ det) @ ''}'')
       (details_field fmt (pr_details p))"

definition marshal_failure :: "(gtime \<Rightarrow> string) \<Rightarrow> descriptor \<Rightarrow> string option" where
  "marshal_failure fmt d =
     map_option (\<lambda>det. ''{'' @ commas
         ([field ''code'' (json_quote (code_string (d_code d))),
           field ''message'' (json_quote (d_message d)),
           field ''retryable'' (json_bool (d_retryable d))] @ det) @ ''}'')
       (details_field fmt (d_details d))"

definition optional :: "string \<Rightarrow> ('a \<Rightarrow> string option) \<Rightarrow> 'a option \<Rightarrow> string list option" where
  "optional name f x =
     (case x of None \<Rightarrow> Some [] | Some y \<Rightarrow> map_option (\<lambda>t. [field name t]) (f y))"

definition marshal_event :: "(gtime \<Rightarrow> string) \<Rightarrow> operation_event \<Rightarrow> string option" where
  "marshal_event fmt ev =
     (case optional ''prompt'' (marshal_prompt fmt) (ev_prompt ev) of None \<Rightarrow> None | Some prompt \<Rightarrow>
      case (case ev_result ev of None \<Rightarrow> Some []
            | Some r \<Rightarrow> if r = [] then Some []
                else map_option (\<lambda>t. [field ''result'' t]) (marshal_value fmt (G_RawMessage r)))
      of None \<Rightarrow> None | Some result \<Rightarrow>
      case optional ''failure'' (marshal_failure fmt) (ev_failure ev) of None \<Rightarrow> None | Some failure \<Rightarrow>
      Some (''{'' @ commas
        ([field ''operation_id'' (json_quote (ev_operation ev)),
          field ''sequence'' (itoa (int (ev_sequence ev))),
          field ''kind'' (json_quote (kind_string (ev_kind ev)))]
         @ (if ev_message ev = [] then [] else [field ''message'' (json_quote (ev_message ev))])
         @ prompt @ result @ failure) @ ''}''))"

end
