(* ===== verification/Event_Budget.thy ===== *)
theory Event_Budget
  imports Go_Json "HOL-Library.Multiset"
begin

text \<open>
  The retained-size check of operation events (\<open>internal/daemon/operation_event.go\<close>): before an
  event is marshalled, an estimate walks its payload and consumes a byte budget, so that a payload
  that cannot fit is refused without being encoded; the encoded text is then checked exactly. The
  budget is an \<open>int\<close> that only ever shrinks; \<open>None\<close> is the Go \<open>false\<close>, after which every caller
  gives up.
\<close>

definition max_detail_depth :: nat where
  "max_detail_depth = 64"

definition consume_bytes :: "int \<Rightarrow> int \<Rightarrow> int option" where
  "consume_bytes budget n = (if n < 0 \<or> n > budget then None else Some (budget - n))"

definition ascii_width :: "char \<Rightarrow> int" where
  "ascii_width c =
     (let n = code c in
      if n \<in> {92, 34, 8, 12, 10, 13, 9} then 2
      else if n < 0x20 \<or> n = 60 \<or> n = 62 \<or> n = 38 then 6 else 1)"

function consume_chars :: "int \<Rightarrow> string \<Rightarrow> int option" where
  "consume_chars budget [] = Some budget"
| "consume_chars budget (c # s) =
     (if code c < 0x80 then
        (case consume_bytes budget (ascii_width c) of None \<Rightarrow> None
         | Some b \<Rightarrow> consume_chars b s)
      else
        let rn = decode_rune (c # s);
            width = (if fst rn = rune_error \<and> snd rn = 1 then 6
                     else if fst rn = 0x2028 \<or> fst rn = 0x2029 then 6 else int (snd rn))
        in (case consume_bytes budget width of None \<Rightarrow> None
            | Some b \<Rightarrow> consume_chars b (drop (snd rn) (c # s))))"
  by pat_completeness auto
termination
proof (relation "measure (\<lambda>(b, s). length s)")
  fix c :: char and s b x y z
  assume "x = decode_rune (c # s)"
  with decode_rune_width [of "c # s"]
  show "((z, drop (snd x) (c # s)), b, c # s) \<in> measure (\<lambda>(b, s). length s)" by simp
qed auto

declare consume_chars.simps(2) [simp del]

definition consume_string :: "int \<Rightarrow> string \<Rightarrow> int option" where
  "consume_string budget s =
     (case consume_bytes budget 2 of None \<Rightarrow> None | Some b \<Rightarrow> consume_chars b s)"

text \<open>
  The depth guard is tested on entry, once per value; the interface unwrapping of a \<open>map[string]any\<close>
  does not add a level.
\<close>

fun consume_value :: "int \<Rightarrow> go_value \<Rightarrow> nat \<Rightarrow> int option"
  and consume_elems :: "bool \<Rightarrow> int \<Rightarrow> go_value list \<Rightarrow> nat \<Rightarrow> int option"
  and consume_members :: "bool \<Rightarrow> int \<Rightarrow> (string \<times> go_value) list \<Rightarrow> nat \<Rightarrow> int option" where
  "consume_value b G_Nil d = (if d > max_detail_depth then None else consume_bytes b 4)"
| "consume_value b (G_RawMessage s) d =
     (if d > max_detail_depth then None
      else if json_valid s then consume_bytes b (int (length s)) else None)"
| "consume_value b (G_Bool v) d = (if d > max_detail_depth then None else consume_bytes b 5)"
| "consume_value b (G_String s) d = (if d > max_detail_depth then None else consume_string b s)"
| "consume_value b (G_Int i) d = (if d > max_detail_depth then None else consume_bytes b 20)"
| "consume_value b (G_Float special t) d =
     (if d > max_detail_depth then None
      else if special then None else consume_bytes b 32)"
| "consume_value b (G_Map kvs) d =
     (if d > max_detail_depth then None
      else case consume_bytes b 2 of None \<Rightarrow> None | Some b' \<Rightarrow> consume_members True b' kvs d)"
| "consume_value b (G_Bytes None) d = (if d > max_detail_depth then None else consume_bytes b 4)"
| "consume_value b (G_Bytes (Some bs)) d =
     (if d > max_detail_depth then None
      else if int (length bs) > b then None
      else consume_bytes b (2 + (int (length bs) + 2) div 3 * 4))"
| "consume_value b (G_Slice None) d = (if d > max_detail_depth then None else consume_bytes b 4)"
| "consume_value b (G_Slice (Some vs)) d =
     (if d > max_detail_depth then None
      else case consume_bytes b 2 of None \<Rightarrow> None | Some b' \<Rightarrow> consume_elems True b' vs d)"
| "consume_value b (G_Time t) d = None"
| "consume_value b G_Other d = None"
| "consume_elems first b [] d = Some b"
| "consume_elems first b (v # vs) d =
     (case (if first then Some b else consume_bytes b 1) of None \<Rightarrow> None
      | Some b1 \<Rightarrow>
      case consume_value b1 v (Suc d) of None \<Rightarrow> None
      | Some b2 \<Rightarrow> consume_elems False b2 vs d)"
| "consume_members first b [] d = Some b"
| "consume_members first b ((k, v) # kvs) d =
     (case (if first then Some b else consume_bytes b 1) of None \<Rightarrow> None
      | Some b1 \<Rightarrow>
      case consume_string b1 k of None \<Rightarrow> None
      | Some b2 \<Rightarrow>
      case consume_bytes b2 1 of None \<Rightarrow> None
      | Some b3 \<Rightarrow>
      case consume_value b3 v (Suc d) of None \<Rightarrow> None
      | Some b4 \<Rightarrow> consume_members False b4 kvs d)"

definition prompt_fits :: "int \<Rightarrow> operation_prompt \<Rightarrow> int option" where
  "prompt_fits b p =
     (case consume_string b (pr_id p) of None \<Rightarrow> None | Some b1 \<Rightarrow>
      case consume_string b1 (pr_kind p) of None \<Rightarrow> None | Some b2 \<Rightarrow>
      case consume_string b2 (pr_message p) of None \<Rightarrow> None | Some b3 \<Rightarrow>
      consume_value b3 (G_Map (pr_details p)) 0)"

definition failure_fits :: "int \<Rightarrow> descriptor \<Rightarrow> int option" where
  "failure_fits b d =
     (case consume_string b (code_string (d_code d)) of None \<Rightarrow> None | Some b1 \<Rightarrow>
      case consume_string b1 (d_message d) of None \<Rightarrow> None | Some b2 \<Rightarrow>
      consume_value b2 (G_Map (d_details d)) 0)"

definition payload_fits :: "operation_event \<Rightarrow> int \<Rightarrow> bool" where
  "payload_fits ev remaining =
     (case consume_string remaining (ev_message ev) of None \<Rightarrow> False | Some b1 \<Rightarrow>
      case (case ev_result ev of None \<Rightarrow> Some b1 | Some r \<Rightarrow> consume_bytes b1 (int (length r))) of
        None \<Rightarrow> False | Some b2 \<Rightarrow>
      case (case ev_prompt ev of None \<Rightarrow> Some b2 | Some p \<Rightarrow> prompt_fits b2 p) of
        None \<Rightarrow> False | Some b3 \<Rightarrow>
      case (case ev_failure ev of None \<Rightarrow> Some b3 | Some d \<Rightarrow> failure_fits b3 d) of
        None \<Rightarrow> False | Some b4 \<Rightarrow> True)"

record retained_event =
  re_sequence :: nat
  re_kind :: event_kind
  re_encoded :: string

datatype encode_error = Event_Invalid | Event_Too_Large

definition encode_retained ::
    "(gtime \<Rightarrow> string) \<Rightarrow> operation_event \<Rightarrow> int \<Rightarrow> encode_error + retained_event" where
  "encode_retained fmt ev remaining =
     (if (case ev_result ev of None \<Rightarrow> False | Some r \<Rightarrow> \<not> json_valid r) then Inl Event_Invalid
      else if remaining < 0 \<or> \<not> payload_fits ev remaining then Inl Event_Too_Large
      else case marshal_event fmt ev of
        None \<Rightarrow> Inl Event_Invalid
      | Some encoded \<Rightarrow>
          if int (length encoded) > remaining then Inl Event_Too_Large
          else Inr \<lparr>re_sequence = ev_sequence ev, re_kind = ev_kind ev, re_encoded = encoded\<rparr>)"

subsection \<open>The estimate of a string is exact\<close>

lemma consume_bytes_iff:
  "consume_bytes b n = Some b' \<longleftrightarrow> 0 \<le> n \<and> n \<le> b \<and> b' = b - n"
  by (auto simp: consume_bytes_def)

lemma consume_bytes_None: "consume_bytes b n = None \<longleftrightarrow> n < 0 \<or> n > b"
  by (auto simp: consume_bytes_def)

lemma ascii_width_escape: "ascii_width c = int (length (escape_ascii c))"
  by (auto simp: ascii_width_def escape_ascii_def Let_def)

lemma consume_bytes_split:
  "0 \<le> n \<Longrightarrow> 0 \<le> m \<Longrightarrow>
     (case consume_bytes b n of None \<Rightarrow> None | Some b' \<Rightarrow> consume_bytes b' m) = consume_bytes b (n + m)"
  by (auto simp: consume_bytes_def)

lemma consume_chars_exact: "0 \<le> b \<Longrightarrow> consume_chars b s = consume_bytes b (int (length (quote_body s)))"
proof (induction b s rule: consume_chars.induct)
  case (1 b)
  then show ?case by (simp add: consume_bytes_def)
next
  case (2 b c s)
  show ?case
  proof (cases "code c < 0x80")
    case True
    have w: "0 \<le> ascii_width c" by (simp add: ascii_width_escape)
    have "(case consume_bytes b (ascii_width c) of None \<Rightarrow> None | Some b' \<Rightarrow> consume_chars b' s) =
        (case consume_bytes b (ascii_width c) of None \<Rightarrow> None
         | Some b' \<Rightarrow> consume_bytes b' (int (length (quote_body s))))"
      using "2.IH"(1) [OF True]
      by (auto simp: consume_bytes_iff consume_bytes_None split: option.split)
    with w True show ?thesis
      by (simp add: consume_chars.simps(2) quote_body.simps(2) consume_bytes_split
          ascii_width_escape)
  next
    case False
    let ?rn = "decode_rune (c # s)"
    let ?w = "if fst ?rn = rune_error \<and> snd ?rn = 1 then 6
        else if fst ?rn = 0x2028 \<or> fst ?rn = 0x2029 then 6 else int (snd ?rn)"
    have len: "snd ?rn \<le> length (c # s)" using decode_rune_width [of "c # s"] by simp
    have "(case consume_bytes b ?w of None \<Rightarrow> None
         | Some b' \<Rightarrow> consume_chars b' (drop (snd ?rn) (c # s))) =
        (case consume_bytes b ?w of None \<Rightarrow> None
         | Some b' \<Rightarrow> consume_bytes b' (int (length (quote_body (drop (snd ?rn) (c # s))))))"
      using "2.IH"(2) [OF False refl refl]
      by (auto simp: consume_bytes_iff consume_bytes_None simp del: drop_Suc_Cons
          split: option.split)
    also have "\<dots> = consume_bytes b (?w + int (length (quote_body (drop (snd ?rn) (c # s)))))"
      by (rule consume_bytes_split) auto
    also have "?w + int (length (quote_body (drop (snd ?rn) (c # s)))) =
        int (length (quote_body (c # s)))"
      using False len by (simp add: quote_body.simps(2) Let_def min_def)
    finally show ?thesis using False by (simp add: consume_chars.simps(2) Let_def)
  qed
qed

text \<open>
  The streaming size check of a string agrees with the encoder: it succeeds exactly when the
  quoted JSON form (escapes, HTML escapes, replacement of invalid UTF-8 included) fits the budget,
  and it then deducts exactly the length of that form.
\<close>

theorem consume_string_exact:
  "consume_string b s =
     (if int (length (json_quote s)) \<le> b then Some (b - int (length (json_quote s))) else None)"
proof -
  have "consume_string b s = consume_bytes b (2 + int (length (quote_body s)))"
  proof (cases "2 \<le> b")
    case True
    then show ?thesis
      by (auto simp: consume_string_def consume_bytes_def [of b 2] consume_chars_exact)
        (auto simp: consume_bytes_def)
  next
    case False
    then show ?thesis by (auto simp: consume_string_def consume_bytes_def)
  qed
  then show ?thesis by (simp add: json_quote_def consume_bytes_def)
qed

lemma consume_string_Some:
  "consume_string b s = Some b' \<longleftrightarrow>
     int (length (json_quote s)) \<le> b \<and> b' = b - int (length (json_quote s))"
  by (auto simp: consume_string_exact)

subsection \<open>The estimate of a value bounds its encoding\<close>

text \<open>
  Numbers of a Go value have at most 64 bits, so their decimal text has at most 20 characters; a
  float's text has at most 32. A raw message is compact when escaping it does not make it longer.
\<close>

fun sized_value :: "go_value \<Rightarrow> bool"
  and sized_elems :: "go_value list \<Rightarrow> bool"
  and sized_members :: "(string \<times> go_value) list \<Rightarrow> bool" where
  "sized_value (G_Int i) = (- (2 ^ 63) \<le> i \<and> i < 2 ^ 64)"
| "sized_value (G_Float special t) = (length t \<le> 32)"
| "sized_value (G_RawMessage s) = (length (compact_raw False False s) \<le> length s)"
| "sized_value (G_Slice (Some vs)) = sized_elems vs"
| "sized_value (G_Map kvs) = sized_members kvs"
| "sized_value v = True"
| "sized_elems [] = True"
| "sized_elems (v # vs) = (sized_value v \<and> sized_elems vs)"
| "sized_members [] = True"
| "sized_members ((k, v) # kvs) = (sized_value v \<and> sized_members kvs)"

lemma length_itoa_nat: "0 < k \<Longrightarrow> n < 10 ^ k \<Longrightarrow> length (itoa_nat n) \<le> k"
proof (induction k arbitrary: n)
  case 0
  then show ?case by simp
next
  case (Suc k)
  show ?case
  proof (cases "n < 10")
    case True
    then show ?thesis by (subst itoa_nat.simps) simp
  next
    case False
    have "n div 10 < 10 ^ k" using Suc.prems by (simp add: div_less_iff_less_mult mult.commute)
    moreover from this False have "0 < k" by (cases k) auto
    ultimately have "length (itoa_nat (n div 10)) \<le> k" by (rule Suc.IH [rotated])
    with False show ?thesis by (subst itoa_nat.simps) simp
  qed
qed

lemma length_itoa: "- (2 ^ 63) \<le> i \<Longrightarrow> i < 2 ^ 64 \<Longrightarrow> length (itoa i) \<le> 20"
proof (cases "i < 0")
  case True
  assume "- (2 ^ 63) \<le> i"
  with True have "length (itoa_nat (nat (- i))) \<le> 19" by (intro length_itoa_nat) auto
  with True show ?thesis by (simp add: itoa_def)
next
  case False
  assume "i < 2 ^ 64"
  with False have "length (itoa_nat (nat i)) \<le> 20" by (intro length_itoa_nat) auto
  with False show ?thesis by (simp add: itoa_def)
qed

lemma length_commas:
  "int (length (commas xs)) = int (sum_list (map length xs)) + int (length xs) - of_bool (xs \<noteq> [])"
proof -
  have "int (length (join '','' xs)) =
      int (sum_list (map length xs)) + int (length xs) - of_bool (xs \<noteq> [])"
    by (induction "'',''" xs rule: join.induct) auto
  then show ?thesis by (simp add: commas_def)
qed

definition member_size :: "string \<times> string \<Rightarrow> nat" where
  "member_size kv = length (json_quote (fst kv)) + 1 + length (snd kv)"

lemma length_render_object:
  "int (length (render_object kvs)) =
     2 + int (sum_list (map member_size kvs)) + int (length kvs) - of_bool (kvs \<noteq> [])"
proof -
  have "sum_list (map member_size (sort_key fst kvs)) = sum_list (map member_size kvs)"
    by (metis mset_map mset_sort sum_mset_sum_list)
  moreover have "map length (map (\<lambda>(k, v). json_quote k @ '':'' @ v) (sort_key fst kvs)) =
      map member_size (sort_key fst kvs)"
    by (auto simp: member_size_def)
  moreover have "sort_key fst kvs \<noteq> [] \<longleftrightarrow> kvs \<noteq> []"
    by (metis length_0_conv length_sort)
  ultimately show ?thesis by (simp add: render_object_def length_commas del: map_map)
qed

definition bounded_text :: "string option \<Rightarrow> int \<Rightarrow> bool" where
  "bounded_text x n = (case x of None \<Rightarrow> False | Some t \<Rightarrow> int (length t) \<le> n)"

definition bounded_texts :: "string list option \<Rightarrow> int \<Rightarrow> bool" where
  "bounded_texts x n =
     (case x of None \<Rightarrow> False | Some ts \<Rightarrow> int (sum_list (map length ts)) + int (length ts) \<le> n)"

definition bounded_members :: "(string \<times> string) list option \<Rightarrow> int \<Rightarrow> bool" where
  "bounded_members x n =
     (case x of None \<Rightarrow> False
      | Some ts \<Rightarrow> int (sum_list (map member_size ts)) + int (length ts) \<le> n)"

lemma marshal_elems_Nil_iff: "marshal_elems fmt vs = Some [] \<longleftrightarrow> vs = []"
  by (cases vs) (auto split: option.splits)

lemma marshal_members_Nil_iff: "marshal_members fmt kvs = Some [] \<longleftrightarrow> kvs = []"
  by (cases kvs) (auto split: option.splits)

lemma consume_value_bounds:
  "consume_value b v d = Some b' \<Longrightarrow> sized_value v \<Longrightarrow> bounded_text (marshal_value fmt v) (b - b')"
  "consume_elems first b vs d = Some b' \<Longrightarrow> sized_elems vs \<Longrightarrow>
     bounded_texts (marshal_elems fmt vs) (b - b' + of_bool (first \<and> vs \<noteq> []))"
  "consume_members first b kvs d = Some b' \<Longrightarrow> sized_members kvs \<Longrightarrow>
     bounded_members (marshal_members fmt kvs) (b - b' + of_bool (first \<and> kvs \<noteq> []))"
proof (induction b v d and first b vs d and first b kvs d arbitrary: b' and b' and b'
    rule: consume_value_consume_elems_consume_members.induct)
  case (7 b kvs d)
  then obtain b1 where b1: "consume_bytes b 2 = Some b1" "consume_members True b1 kvs d = Some b'"
    and d: "\<not> d > max_detail_depth"
    by (auto split: if_splits option.splits)
  with 7 have "bounded_members (marshal_members fmt kvs) (b1 - b' + of_bool (kvs \<noteq> []))"
    by simp
  then obtain ts where ts: "marshal_members fmt kvs = Some ts"
    "int (sum_list (map member_size ts)) + int (length ts) \<le> b1 - b' + of_bool (kvs \<noteq> [])"
    by (auto simp: bounded_members_def split: option.splits)
  moreover have "ts \<noteq> [] \<longleftrightarrow> kvs \<noteq> []" using ts(1) marshal_members_Nil_iff [of fmt kvs] by auto
  ultimately show ?case
    using b1 by (simp add: bounded_text_def length_render_object consume_bytes_iff)
next
  case (11 b vs d)
  then obtain b1 where b1: "consume_bytes b 2 = Some b1" "consume_elems True b1 vs d = Some b'"
    by (auto split: if_splits option.splits)
  with 11 have "bounded_texts (marshal_elems fmt vs) (b1 - b' + of_bool (vs \<noteq> []))"
    by (auto split: if_splits option.splits)
  then obtain ts where ts: "marshal_elems fmt vs = Some ts"
    "int (sum_list (map length ts)) + int (length ts) \<le> b1 - b' + of_bool (vs \<noteq> [])"
    by (auto simp: bounded_texts_def split: option.splits)
  moreover have "ts \<noteq> [] \<longleftrightarrow> vs \<noteq> []" using ts(1) marshal_elems_Nil_iff [of fmt vs] by auto
  ultimately show ?case
    using b1 by (simp add: bounded_text_def length_commas consume_bytes_iff)
next
  case (15 first b v vs d)
  then obtain b1 b2 where b1: "(if first then Some b else consume_bytes b 1) = Some b1"
    and b2: "consume_value b1 v (Suc d) = Some b2" and b3: "consume_elems False b2 vs d = Some b'"
    by (auto split: option.splits)
  have "bounded_text (marshal_value fmt v) (b1 - b2)" using 15 b1 b2 by auto
  moreover have "bounded_texts (marshal_elems fmt vs) (b2 - b')" using 15 b1 b2 b3 by fastforce
  moreover have "b1 = b - of_bool (\<not> first)" using b1 by (auto simp: consume_bytes_iff split: if_splits)
  ultimately show ?case by (auto simp: bounded_text_def bounded_texts_def split: option.splits)
next
  case (17 first b k v kvs d)
  then obtain b1 b2 b3 b4 where b1: "(if first then Some b else consume_bytes b 1) = Some b1"
    and b2: "consume_string b1 k = Some b2" and b3: "consume_bytes b2 1 = Some b3"
    and b4: "consume_value b3 v (Suc d) = Some b4"
    and b5: "consume_members False b4 kvs d = Some b'"
    by (auto split: option.splits)
  have "bounded_text (marshal_value fmt v) (b3 - b4)" using 17 b1 b2 b3 b4 by auto
  moreover have "bounded_members (marshal_members fmt kvs) (b4 - b')"
    using 17 b1 b2 b3 b4 b5 by fastforce
  moreover have "b1 = b - of_bool (\<not> first)" using b1 by (auto simp: consume_bytes_iff split: if_splits)
  ultimately show ?case using b2 b3
    by (auto simp: bounded_text_def bounded_members_def member_size_def consume_string_Some
        consume_bytes_iff split: option.splits)
qed (auto simp: bounded_text_def bounded_texts_def bounded_members_def consume_bytes_iff
      consume_string_Some length_itoa length_base64 split: if_splits)



text \<open>An event that is retained fits what remained, with the text and the kind it was given.\<close>

lemma encode_retained_Inr:
  "encode_retained fmt ev r = Inr re \<Longrightarrow>
     re_sequence re = ev_sequence ev \<and> re_kind re = ev_kind ev \<and>
     marshal_event fmt ev = Some (re_encoded re) \<and> int (length (re_encoded re)) \<le> r"
  by (auto simp: encode_retained_def split: if_splits option.splits)

end
