(* ===== verification/Public_Errors.thy ===== *)
theory Public_Errors
  imports Service
begin

text \<open>
  How the daemon publishes a failure (\<open>publicErrorDescriptor\<close>, \<open>allowedProblemDetails\<close> and
  \<open>normalizeProblemDetail\<close> of \<open>internal/daemon/server.go\<close>): the error chain is reduced to a
  descriptor whose message hides internal failures and whose details are an allow-list of keys and
  types per code. The RFC 3339 rendering of a time and the parser's acceptance test are parameters
  \<open>fmt\<close> and \<open>rfc\<close>.
\<close>

datatype detail_type = Detail_String | Detail_Bool | Detail_Number | Detail_RFC3339

definition removal_details :: "(string \<times> detail_type) list" where
  "removal_details =
     [(''path'', Detail_String), (''branch'', Detail_String), (''worktree_removed'', Detail_Bool),
      (''branch_deleted'', Detail_Bool), (''registry_unregistered'', Detail_Bool)]"

fun allowed_detail_types :: "service_code \<Rightarrow> (string \<times> detail_type) list" where
  "allowed_detail_types SSHConnectionFailed = [(''exit_code'', Detail_Number)]"
| "allowed_detail_types DaemonDraining = [(''drain_deadline'', Detail_RFC3339)]"
| "allowed_detail_types InteractionRequired =
     [(''kind'', Detail_String), (''path'', Detail_String), (''digest'', Detail_String),
      (''size'', Detail_Number), (''preview'', Detail_String), (''truncated'', Detail_Bool)]"
| "allowed_detail_types Conflict = (''reason'', Detail_String) # removal_details"
| "allowed_detail_types ConnectionChanged = (''reason'', Detail_String) # removal_details"
| "allowed_detail_types Busy = (''reason'', Detail_String) # removal_details"
| "allowed_detail_types Internal = removal_details"
| "allowed_detail_types RemovalFailed = removal_details"
| "allowed_detail_types ProtectedSessionLive =
     [(''session_name'', Detail_String), (''socket_name'', Detail_String),
      (''generation'', Detail_String)]"
| "allowed_detail_types _ = []"

fun normalize_detail ::
    "(gtime \<Rightarrow> string) \<Rightarrow> (string \<Rightarrow> bool) \<Rightarrow> detail_type \<Rightarrow> go_value \<Rightarrow> go_value option" where
  "normalize_detail fmt rfc Detail_String (G_String s) = Some (G_String s)"
| "normalize_detail fmt rfc Detail_Bool (G_Bool b) = Some (G_Bool b)"
| "normalize_detail fmt rfc Detail_Number (G_Int i) = Some (G_Int i)"
| "normalize_detail fmt rfc Detail_Number (G_Float special t) = Some (G_Float special t)"
| "normalize_detail fmt rfc Detail_RFC3339 (G_Time t) = Some (G_String (fmt t))"
| "normalize_detail fmt rfc Detail_RFC3339 (G_String s) = (if rfc s then Some (G_String s) else None)"
| "normalize_detail fmt rfc _ _ = None"

definition allowed_details ::
    "(gtime \<Rightarrow> string) \<Rightarrow> (string \<Rightarrow> bool) \<Rightarrow> service_code \<Rightarrow> details \<Rightarrow> details" where
  "allowed_details fmt rfc c det =
     List.map_filter (\<lambda>(k, v).
       case map_of (allowed_detail_types c) k of
         None \<Rightarrow> None
       | Some ty \<Rightarrow> map_option (Pair k) (normalize_detail fmt rfc ty v)) det"

definition public_descriptor ::
    "(gtime \<Rightarrow> string) \<Rightarrow> (string \<Rightarrow> bool) \<Rightarrow> go_error \<Rightarrow> descriptor" where
  "public_descriptor fmt rfc err =
     (let typed = as_error err in
      \<lparr>d_code = d_code typed,
       d_message = (if d_code typed = Internal then ''internal failure'' else d_message typed),
       d_retryable = (if d_code typed = OperationOutcomeUnknown then False else d_retryable typed),
       d_details = allowed_details fmt rfc (d_code typed) (d_details typed)\<rparr>)"

text \<open>The failure an operation completes with (\<open>operationFailure\<close> of \<open>operation.go\<close>).\<close>

definition operation_failure ::
    "(gtime \<Rightarrow> string) \<Rightarrow> (string \<Rightarrow> bool) \<Rightarrow> go_error \<Rightarrow> descriptor" where
  "operation_failure fmt rfc err =
     (case errors_as_service err of
        Some d \<Rightarrow> public_descriptor fmt rfc err
      | None \<Rightarrow>
          if is_context_error err
          then \<lparr>d_code = OperationOutcomeUnknown, d_message = ''operation was canceled'',
                d_retryable = False, d_details = []\<rparr>
          else public_descriptor fmt rfc err)"

lemma map_filter_set: "x \<in> set (List.map_filter f xs) \<longleftrightarrow> (\<exists>y \<in> set xs. f y = Some x)"
  by (force simp: List.map_filter_def)

lemma normalize_detail_Some:
  "normalize_detail fmt rfc ty v = Some w \<Longrightarrow>
     (ty = Detail_String \<and> w = v \<and> (\<exists>s. v = G_String s)) \<or>
     (ty = Detail_Bool \<and> w = v \<and> (\<exists>b. v = G_Bool b)) \<or>
     (ty = Detail_Number \<and> w = v \<and> ((\<exists>i. v = G_Int i) \<or> (\<exists>sp t. v = G_Float sp t))) \<or>
     (ty = Detail_RFC3339 \<and> ((\<exists>t. v = G_Time t \<and> w = G_String (fmt t)) \<or>
        (\<exists>s. v = G_String s \<and> rfc s \<and> w = v)))"
  by (cases "(fmt, rfc, ty, v)" rule: normalize_detail.cases) (auto split: if_splits)

lemma allowed_details_mem:
  "(k, w) \<in> set (allowed_details fmt rfc c det) \<longleftrightarrow>
     (\<exists>v ty. (k, v) \<in> set det \<and> map_of (allowed_detail_types c) k = Some ty \<and>
        normalize_detail fmt rfc ty v = Some w)"
  by (force simp: allowed_details_def map_filter_set split: option.splits)



end
