(* ===== verification/Op_Hub.thy ===== *)
theory Op_Hub
  imports Gate Event_Budget Public_Errors
begin

text \<open>
  The operation hub of the daemon (\<open>internal/daemon/operation.go\<close>): operations, their retained
  event logs, prompts, subscriptions and capacity limits. Go pointers to operations, subscriptions
  and prompt states are indices into the hub's three heaps, which only grow; the \<open>operations\<close> map is
  an association list from operation id to index, and a \<open>shuffle\<close> step may reorder it, since Go
  iterates maps in no particular order. A buffered channel is a queue with a capacity and a closed
  flag; closing a closed channel and sending on a closed one set \<open>h_panic\<close>. Every method holds the
  hub's mutex, so it is a function on the hub; the clock reading it takes is an argument.
\<close>

subsection \<open>State\<close>

record hub_options =
  o_max_events :: int
  o_max_bytes :: int
  o_max_active :: int
  o_max_completed :: int
  o_retention :: duration
  o_grace :: duration
  o_queue :: int
  o_max_subs_per_op :: int
  o_max_subs :: int
  o_format_time :: "gtime \<Rightarrow> string"
  o_parses_time :: "string \<Rightarrow> bool"

record subscription =
  s_entry :: nat
  s_queue :: "retained_event list"
  s_cap :: nat
  s_closed :: bool
  s_counted :: bool
  s_once :: bool
  s_after :: nat
  s_received :: "retained_event list"

record prompt_state =
  p_id :: string
  p_responses :: "operation_response list"
  p_responded :: bool

record op_entry =
  e_id :: string
  e_digest :: string
  e_cancelled :: bool
  e_validator :: validator
  e_events :: "retained_event list"
  e_bytes :: int
  e_terminal :: bool
  e_completed_at :: gtime
  e_prompt :: "nat option"
  e_subs :: "nat list"
  e_sub_count :: int
  e_loss_timer :: "nat option"
  e_loss_token :: nat
  e_release :: "64 word option"
  e_worker :: bool

record hub =
  h_options :: hub_options
  h_entries :: "op_entry list"
  h_subs :: "subscription list"
  h_prompts :: "prompt_state list"
  h_ops :: "(string \<times> nat) list"
  h_active :: int
  h_subscribers :: int
  h_draining :: bool
  h_drain_deadline :: gtime
  h_gate :: "gate option"
  h_panic :: bool

definition completion_reserve :: int where
  "completion_reserve = 16 * 1024"

definition default_if :: "bool \<Rightarrow> 'a \<Rightarrow> 'a \<Rightarrow> 'a" where
  "default_if c d x = (if c then d else x)"

definition normalize_options :: "hub_options \<Rightarrow> hub_options" where
  "normalize_options o1 =
     (let ev = default_if (o_max_events o1 \<le> 0) 256 (o_max_events o1) in
      o1\<lparr>o_max_events := default_if (ev < 2) 2 ev,
         o_max_bytes := default_if (o_max_bytes o1 \<le> 0) (2 ^ 20) (o_max_bytes o1),
         o_max_active := default_if (o_max_active o1 \<le> 0) 128 (o_max_active o1),
         o_max_completed := default_if (o_max_completed o1 \<le> 0) 128 (o_max_completed o1),
         o_retention := default_if (o_retention o1 \<le> 0) (5 * 60 * 10 ^ 9) (o_retention o1),
         o_grace := default_if (o_grace o1 \<le> 0) (5 * 10 ^ 9) (o_grace o1),
         o_queue := default_if (o_queue o1 \<le> 0) 32 (o_queue o1),
         o_max_subs_per_op := default_if (o_max_subs_per_op o1 \<le> 0) 8 (o_max_subs_per_op o1),
         o_max_subs := default_if (o_max_subs o1 \<le> 0) 128 (o_max_subs o1)\<rparr>)"

definition new_hub :: "hub_options \<Rightarrow> gate option \<Rightarrow> hub" where
  "new_hub opts g = \<lparr>h_options = normalize_options opts, h_entries = [], h_subs = [],
     h_prompts = [], h_ops = [], h_active = 0, h_subscribers = 0, h_draining = False,
     h_drain_deadline = 0, h_gate = g, h_panic = False\<rparr>"

definition nonterminal_byte_limit :: "hub_options \<Rightarrow> int" where
  "nonterminal_byte_limit o1 =
     o_max_bytes o1 - (if completion_reserve > o_max_bytes o1 div 2 then o_max_bytes o1 div 2
                       else completion_reserve)"

definition is_op_char :: "char \<Rightarrow> bool" where
  "is_op_char c \<longleftrightarrow> is_lower c \<or> is_upper c \<or> is_digit c \<or> c = CHR ''-'' \<or> c = CHR ''_''"

definition valid_operation_id :: "string \<Rightarrow> bool" where
  "valid_operation_id s \<longleftrightarrow> s \<noteq> [] \<and> list_all is_op_char s"

subsection \<open>Channels\<close>

text \<open>One channel: the new channel, and whether Go would have panicked.\<close>

definition close_channel :: "subscription \<Rightarrow> subscription \<times> bool" where
  "close_channel s = (s\<lparr>s_closed := True\<rparr>, s_closed s)"

definition is_critical :: "retained_event \<Rightarrow> bool" where
  "is_critical re \<longleftrightarrow> re_kind re = Prompt \<or> re_kind re = Complete"

text \<open>One round of the loop of \<open>dispatchLocked\<close>: the channel, whether its subscription stays
  registered, and whether Go would have panicked.\<close>

definition offer :: "retained_event \<Rightarrow> subscription \<Rightarrow> subscription \<times> bool \<times> bool" where
  "offer re s =
     (let limit = int (s_cap s) - (if is_critical re then 0 else 1) in
      if int (length (s_queue s)) \<ge> limit
      then (case close_channel s of (s', p) \<Rightarrow> (s', False, p))
      else if s_closed s then (s, True, True)
      else if length (s_queue s) < s_cap s
      then (s\<lparr>s_queue := s_queue s @ [re]\<rparr>, True, False)
      else (case close_channel s of (s', p) \<Rightarrow> (s', False, p)))"

text \<open>An operation with the channels and the panic flag, which most helpers work on.\<close>

type_synonym cell = "op_entry \<times> subscription list \<times> bool"

fun offer_all ::
    "retained_event \<Rightarrow> nat list \<Rightarrow> subscription list \<Rightarrow> nat list \<times> subscription list \<times> bool" where
  "offer_all re [] subs = ([], subs, False)"
| "offer_all re (i # is) subs =
     (case offer re (subs ! i) of (s', keep, p) \<Rightarrow>
      case offer_all re is (subs[i := s']) of (kept, subs', p') \<Rightarrow>
        (if keep then i # kept else kept, subs', p \<or> p'))"

fun close_all :: "nat list \<Rightarrow> subscription list \<Rightarrow> subscription list \<times> bool" where
  "close_all [] subs = (subs, False)"
| "close_all (i # is) subs =
     (case close_channel (subs ! i) of (s', p) \<Rightarrow>
      case close_all is (subs[i := s']) of (subs', p') \<Rightarrow> (subs', p \<or> p'))"

subsection \<open>The loss timer\<close>

definition schedule_subscriber_loss :: "op_entry \<Rightarrow> op_entry" where
  "schedule_subscriber_loss e =
     (if e_terminal e \<or> e_subs e \<noteq> [] \<or> e_loss_timer e \<noteq> None then e
      else e\<lparr>e_loss_token := Suc (e_loss_token e), e_loss_timer := Some (Suc (e_loss_token e))\<rparr>)"

text \<open>The timer's callback; a stopped timer whose callback already waits for the lock still runs.\<close>

definition loss_timer_fires :: "nat \<Rightarrow> nat \<Rightarrow> hub \<Rightarrow> hub" where
  "loss_timer_fires a token h =
     (let e = h_entries h ! a in
      if e_loss_token e \<noteq> token then h
      else
        let e1 = (if map_of (h_ops h) (e_id e) = Some a \<and> \<not> e_terminal e \<and> e_subs e = []
                  then e\<lparr>e_cancelled := True\<rparr> else e)
        in h\<lparr>h_entries := (h_entries h)[a := e1\<lparr>e_loss_timer := None\<rparr>]\<rparr>)"

subsection \<open>Pruning\<close>

fun oldest_completed :: "op_entry list \<Rightarrow> (string \<times> nat) list \<Rightarrow> nat option \<Rightarrow> nat option" where
  "oldest_completed es [] best = best"
| "oldest_completed es ((k, a) # ops) best =
     oldest_completed es ops
       (if e_terminal (es ! a) \<and> \<not> e_worker (es ! a)
            \<and> (case best of None \<Rightarrow> True
               | Some b \<Rightarrow> e_completed_at (es ! a) < e_completed_at (es ! b))
        then Some a else best)"

definition completed_count :: "op_entry list \<Rightarrow> (string \<times> nat) list \<Rightarrow> int" where
  "completed_count es ops = count_where (\<lambda>(k, a). e_terminal (es ! a)) ops"

definition delete_key :: "string \<Rightarrow> (string \<times> nat) list \<Rightarrow> (string \<times> nat) list" where
  "delete_key k ops = filter (\<lambda>p. fst p \<noteq> k) ops"

text \<open>
  The loop of \<open>pruneCompletedLocked\<close>; each round deletes one key, so one round per entry of the map
  is enough fuel (\<open>prune_completed_done\<close> below).
\<close>

fun prune_loop :: "nat \<Rightarrow> int \<Rightarrow> op_entry list \<Rightarrow> (string \<times> nat) list \<Rightarrow> (string \<times> nat) list" where
  "prune_loop 0 limit es ops = ops"
| "prune_loop (Suc n) limit es ops =
     (case oldest_completed es ops None of
        None \<Rightarrow> ops
      | Some a \<Rightarrow>
          if completed_count es ops \<le> limit then ops
          else prune_loop n limit es (delete_key (e_id (es ! a)) ops))"

definition prune_completed :: "hub \<Rightarrow> hub" where
  "prune_completed h =
     h\<lparr>h_ops := prune_loop (length (h_ops h)) (o_max_completed (h_options h)) (h_entries h) (h_ops h)\<rparr>"

definition expired :: "hub_options \<Rightarrow> gtime \<Rightarrow> op_entry \<Rightarrow> bool" where
  "expired o1 now e \<longleftrightarrow> e_terminal e \<and> \<not> e_worker e \<and> \<not> now < e_completed_at e + o_retention o1"

definition prune :: "gtime \<Rightarrow> hub \<Rightarrow> hub" where
  "prune now h =
     prune_completed (h\<lparr>h_ops :=
       filter (\<lambda>(k, a). \<not> expired (h_options h) now (h_entries h ! a)) (h_ops h)\<rparr>)"

subsection \<open>Appending events\<close>

definition mark_terminal :: "gtime \<Rightarrow> cell \<Rightarrow> cell" where
  "mark_terminal now c =
     (case c of (e, subs, panic) \<Rightarrow>
        if e_terminal e then c
        else (case close_all (e_subs e) subs of (subs', p) \<Rightarrow>
          (e\<lparr>e_terminal := True, e_completed_at := now, e_prompt := None, e_cancelled := True,
             e_loss_timer := None\<rparr>, subs', panic \<or> p)))"

definition dispatch :: "retained_event \<Rightarrow> cell \<Rightarrow> cell" where
  "dispatch re c =
     (case c of (e, subs, panic) \<Rightarrow>
        case offer_all re (e_subs e) subs of (kept, subs', p) \<Rightarrow>
          (schedule_subscriber_loss (e\<lparr>e_subs := kept\<rparr>), subs', panic \<or> p))"

definition retain :: "retained_event \<Rightarrow> validator \<Rightarrow> cell \<Rightarrow> cell" where
  "retain re v c =
     (case c of (e, subs, panic) \<Rightarrow>
        dispatch re (e\<lparr>e_validator := v, e_events := e_events e @ [re],
                       e_bytes := e_bytes e + int (length (re_encoded re))\<rparr>, subs, panic))"

definition capacity_failure :: descriptor where
  "capacity_failure = \<lparr>d_code = OperationOutcomeUnknown,
     d_message = ''operation outcome is unknown after event capacity was exhausted'',
     d_retryable = False, d_details = []\<rparr>"

definition capacity_event :: "op_entry \<Rightarrow> operation_event" where
  "capacity_event e = (blank_event Complete)\<lparr>ev_operation := e_id e,
     ev_sequence := length (e_events e) + 1, ev_failure := Some capacity_failure\<rparr>"

definition terminate_capacity :: "hub_options \<Rightarrow> gtime \<Rightarrow> cell \<Rightarrow> cell" where
  "terminate_capacity o1 now c =
     (case c of (e, subs, panic) \<Rightarrow>
        if e_terminal e then c
        else
          let ev = capacity_event e in
          mark_terminal now
            (case encode_retained (o_format_time o1) ev (o_max_bytes o1 - e_bytes e) of
               Inl _ \<Rightarrow> c
             | Inr re \<Rightarrow>
                 if int (length (e_events e)) < o_max_events o1
                 then (case accept (e_validator e) ev of Inl _ \<Rightarrow> c | Inr v \<Rightarrow> retain re v c)
                 else c))"

definition capacity_error :: "string \<Rightarrow> go_error" where
  "capacity_error msg = new_error OperationCapacityExhausted msg True [] None"

text \<open>
  \<open>appendLocked\<close>: the cell, the error, and whether the operation was terminated for capacity (then
  the caller's prune of completed operations follows).
\<close>

definition append_cell ::
    "hub_options \<Rightarrow> gtime \<Rightarrow> operation_event \<Rightarrow> cell \<Rightarrow> cell \<times> go_error option \<times> bool" where
  "append_cell o1 now event c =
     (case c of (e, subs, panic) \<Rightarrow>
        let ev = event\<lparr>ev_operation := e_id e, ev_sequence := length (e_events e) + 1\<rparr>;
            final = (ev_kind ev = Complete);
            limit = (if final then o_max_bytes o1 else nonterminal_byte_limit o1)
        in
        if \<not> final \<and> int (length (e_events e)) \<ge> o_max_events o1 - 1
        then (terminate_capacity o1 now c,
              Some (capacity_error ''operation event capacity is exhausted''), True)
        else if final \<and> int (length (e_events e)) \<ge> o_max_events o1
        then (terminate_capacity o1 now c,
              Some (capacity_error ''operation completion exceeds event capacity''), True)
        else case encode_retained (o_format_time o1) ev (limit - e_bytes e) of
          Inl Event_Too_Large \<Rightarrow>
            (terminate_capacity o1 now c,
             Some (capacity_error ''operation event capacity is exhausted''), True)
        | Inl Event_Invalid \<Rightarrow>
            (c, Some (Wrapped ''encode operation event: ''
                   (Plain_Error ''operation event payload is invalid'')), False)
        | Inr re \<Rightarrow>
            (case accept (e_validator e) ev of
               Inl x \<Rightarrow> (c, Some (Wrapped ''validate operation event: '' x), False)
             | Inr v \<Rightarrow> (retain re v c, None, False)))"

definition put_cell :: "nat \<Rightarrow> cell \<Rightarrow> hub \<Rightarrow> hub" where
  "put_cell a c h =
     (case c of (e, subs, panic) \<Rightarrow>
        h\<lparr>h_entries := (h_entries h)[a := e], h_subs := subs, h_panic := panic\<rparr>)"

definition get_cell :: "nat \<Rightarrow> hub \<Rightarrow> cell" where
  "get_cell a h = (h_entries h ! a, h_subs h, h_panic h)"

definition append_locked ::
    "nat \<Rightarrow> gtime \<Rightarrow> operation_event \<Rightarrow> hub \<Rightarrow> hub \<times> go_error option" where
  "append_locked a now event h =
     (case append_cell (h_options h) now event (get_cell a h) of (c, err, terminated) \<Rightarrow>
        let h' = put_cell a c h in (if terminated then prune_completed h' else h', err))"

definition mark_terminal_locked :: "nat \<Rightarrow> gtime \<Rightarrow> hub \<Rightarrow> hub" where
  "mark_terminal_locked a now h =
     (if e_terminal (h_entries h ! a) then h
      else prune_completed (put_cell a (mark_terminal now (get_cell a h)) h))"

definition terminate_capacity_locked :: "nat \<Rightarrow> gtime \<Rightarrow> hub \<Rightarrow> hub" where
  "terminate_capacity_locked a now h =
     (if e_terminal (h_entries h ! a) then h
      else prune_completed (put_cell a (terminate_capacity (h_options h) now (get_cell a h)) h))"

subsection \<open>Starting and finishing operations\<close>

record operation_start =
  st_id :: string
  st_digest :: string
  st_has_run :: bool

definition invalid_request :: "string \<Rightarrow> go_error" where
  "invalid_request msg = new_error InvalidRequest msg False [] None"

definition conflict_error :: "string \<Rightarrow> go_error" where
  "conflict_error msg = new_error Conflict msg False [] None"

definition new_entry :: "string \<Rightarrow> string \<Rightarrow> validator \<Rightarrow> 64 word option \<Rightarrow> op_entry" where
  "new_entry i digest v rel = \<lparr>e_id = i, e_digest = digest, e_cancelled = False, e_validator = v,
     e_events = [], e_bytes = 0, e_terminal = False, e_completed_at = 0, e_prompt = None,
     e_subs = [], e_sub_count = 0, e_loss_timer = None, e_loss_token = 0, e_release = rel,
     e_worker = True\<rparr>"

text \<open>The hub's \<open>Reserve\<close> hook is the gate's \<open>Reserve(ReservationWork, now)\<close> (\<open>host.go\<close>); without a
  gate there is no hook.\<close>

definition reserve_hook :: "gtime \<Rightarrow> hub \<Rightarrow> go_error + 64 word option \<times> hub" where
  "reserve_hook now h =
     (case h_gate h of
        None \<Rightarrow> Inr (None, h)
      | Some g \<Rightarrow> (case reserve ReservationWork now g of
            Inl e \<Rightarrow> Inl e
          | Inr (i, g') \<Rightarrow> Inr (Some i, h\<lparr>h_gate := Some g'\<rparr>)))"

definition run_release :: "64 word option \<Rightarrow> hub \<Rightarrow> hub" where
  "run_release rel h =
     (case rel of None \<Rightarrow> h | Some i \<Rightarrow> h\<lparr>h_gate := map_option (release i) (h_gate h)\<rparr>)"

definition create_operation ::
    "string \<Rightarrow> string \<Rightarrow> gtime \<Rightarrow> hub \<Rightarrow> hub \<times> (go_error + nat \<times> bool)" where
  "create_operation i digest now h =
     (case reserve_hook now h of
        Inl e \<Rightarrow> (h, Inl e)
      | Inr (rel, h1) \<Rightarrow>
          (case new_validator i 0 of
             Inl e \<Rightarrow> (run_release rel h1, Inl e)
           | Inr v \<Rightarrow>
               let a = length (h_entries h1);
                   e = schedule_subscriber_loss (new_entry i digest v rel)
               in (h1\<lparr>h_entries := h_entries h1 @ [e], h_ops := h_ops h1 @ [(i, a)],
                      h_active := h_active h1 + 1\<rparr>, Inr (a, True))))"

text \<open>
  The loop of \<open>Start\<close>: attempt \<open>k\<close> reads the clock \<open>clock k\<close> and, when the caller gave no id, the id
  source \<open>ids k\<close>; only a generated id that is taken leads to another attempt, four at most.
\<close>

fun start_attempts ::
    "nat \<Rightarrow> nat \<Rightarrow> operation_start \<Rightarrow> (nat \<Rightarrow> gtime) \<Rightarrow> (nat \<Rightarrow> go_error + string) \<Rightarrow> hub
       \<Rightarrow> hub \<times> (go_error + nat \<times> bool)" where
  "start_attempts 0 k st clock ids h = (h, Inl (Plain_Error ''generate unique operation ID''))"
| "start_attempts (Suc n) k st clock ids h =
     (let generated = (st_id st = []) in
      case (if generated then ids k else Inr (st_id st)) of
        Inl e \<Rightarrow> (h, Inl (Wrapped ''generate operation ID: '' e))
      | Inr i \<Rightarrow>
        if generated \<and> i = [] then (h, Inl (Plain_Error ''generated operation ID is empty''))
        else if \<not> valid_operation_id i
        then (h, Inl (invalid_request ''operation ID must contain only ASCII letters, digits, hyphens, and underscores''))
        else
          let h1 = prune (clock k) h in
          case map_of (h_ops h1) i of
            Some a \<Rightarrow>
              if generated then start_attempts n (Suc k) st clock ids h1
              else if e_digest (h_entries h1 ! a) \<noteq> st_digest st
              then (h1, Inl (new_error OperationIDConflict
                      ''operation ID belongs to a different request'' False [] None))
              else (h1, Inr (a, False))
          | None \<Rightarrow>
              if \<not> st_has_run st then (h1, Inl (invalid_request ''new operation has no worker''))
              else if h_draining h1
              then (h1, Inl (new_error DaemonDraining ''daemon is draining'' True
                      [(''drain_deadline'', G_Time (h_drain_deadline h1))] None))
              else if h_active h1 \<ge> o_max_active (h_options h1)
              then (h1, Inl (capacity_error ''daemon operation capacity is exhausted''))
              else create_operation i (st_digest st) (clock k) h1)"

definition start ::
    "operation_start \<Rightarrow> (nat \<Rightarrow> gtime) \<Rightarrow> (nat \<Rightarrow> go_error + string) \<Rightarrow> hub
       \<Rightarrow> hub \<times> (go_error + nat \<times> bool)" where
  "start st clock ids h =
     (if st_digest st = [] then (h, Inl (invalid_request ''operation request digest is empty''))
      else start_attempts 4 0 st clock ids h)"

definition finish :: "nat \<Rightarrow> gtime \<Rightarrow> string option \<Rightarrow> go_error option \<Rightarrow> hub \<Rightarrow> hub" where
  "finish a now result err h =
     (if e_terminal (h_entries h ! a) then h
      else
        let o1 = h_options h;
            result' = (if err = None \<and> result = None then Some ''{}'' else result);
            ev = (case err of
                    None \<Rightarrow> (blank_event Complete)\<lparr>ev_result := result'\<rparr>
                  | Some e \<Rightarrow> (blank_event Complete)\<lparr>ev_failure :=
                      Some (operation_failure (o_format_time o1) (o_parses_time o1) e)\<rparr>)
        in case append_locked a now ev h of (h1, append_err) \<Rightarrow>
          let h2 =
            (case append_err of
               Some x \<Rightarrow>
                 if e_terminal (h_entries h1 ! a) then h1
                 else
                   (let failure = public_descriptor (o_format_time o1) (o_parses_time o1)
                          (Wrapped ''publish operation completion: '' x)
                    in case append_locked a now
                           ((blank_event Complete)\<lparr>ev_failure := Some failure\<rparr>) h1 of
                         (h', fallback_err) \<Rightarrow>
                           if fallback_err \<noteq> None \<and> \<not> e_terminal (h_entries h' ! a)
                           then terminate_capacity_locked a now h' else h')
             | None \<Rightarrow> h1)
          in if e_terminal (h_entries h2 ! a) then h2 else mark_terminal_locked a now h2)"

text \<open>\<open>releaseWorker\<close> gives the reservation back outside the lock, and then takes the lock again to
  forget the worker; other goroutines may run in between.\<close>

definition release_worker_hook :: "nat \<Rightarrow> hub \<Rightarrow> hub" where
  "release_worker_hook a h = run_release (e_release (h_entries h ! a)) h"

definition release_worker_done :: "nat \<Rightarrow> gtime \<Rightarrow> hub \<Rightarrow> hub" where
  "release_worker_done a now h =
     prune now (h\<lparr>h_entries := (h_entries h)[a :=
                    (h_entries h ! a)\<lparr>e_release := None, e_worker := False\<rparr>],
                  h_active := h_active h - 1\<rparr>)"

subsection \<open>What a running operation calls\<close>

definition emit :: "nat \<Rightarrow> gtime \<Rightarrow> event_kind \<Rightarrow> string \<Rightarrow> hub \<Rightarrow> hub \<times> go_error option" where
  "emit a now kind msg h =
     (if e_terminal (h_entries h ! a)
      then (h, Some (conflict_error ''operation is already complete''))
      else append_locked a now ((blank_event kind)\<lparr>ev_message := msg\<rparr>) h)"

text \<open>\<open>Prompt\<close> up to its wait: the prompt state it then waits on, or the error.\<close>

definition open_prompt ::
    "nat \<Rightarrow> gtime \<Rightarrow> go_error + string \<Rightarrow> operation_prompt \<Rightarrow> hub \<Rightarrow> hub \<times> (go_error + nat)" where
  "open_prompt a now new_id prompt h =
     (case new_id of
        Inl e \<Rightarrow> (h, Inl (Wrapped ''generate prompt ID: '' e))
      | Inr i \<Rightarrow>
        if i = [] then (h, Inl (Plain_Error ''generated prompt ID is empty''))
        else if e_terminal (h_entries h ! a)
        then (h, Inl (conflict_error ''operation is already complete''))
        else if e_prompt (h_entries h ! a) \<noteq> None
        then (h, Inl (conflict_error ''operation already has an active prompt''))
        else
          let p = length (h_prompts h);
              h1 = h\<lparr>h_prompts := h_prompts h @ [\<lparr>p_id = i, p_responses = [], p_responded = False\<rparr>],
                     h_entries := (h_entries h)[a := (h_entries h ! a)\<lparr>e_prompt := Some p\<rparr>]\<rparr>
          in case append_locked a now ((blank_event Prompt)\<lparr>ev_prompt := Some (prompt\<lparr>pr_id := i\<rparr>)\<rparr>) h1 of
               (h2, None) \<Rightarrow> (h2, Inr p)
             | (h2, Some e) \<Rightarrow>
                 (if e_prompt (h_entries h2 ! a) = Some p
                  then h2\<lparr>h_entries := (h_entries h2)[a := (h_entries h2 ! a)\<lparr>e_prompt := None\<rparr>]\<rparr>
                  else h2, Inl e))"

text \<open>The wait of \<open>Prompt\<close> ends with a received response (taken from its channel) or with a
  cancelled context, and the deferred cleanup forgets the prompt if it is still the current one.\<close>

definition take_response :: "nat \<Rightarrow> hub \<Rightarrow> hub \<times> string option" where
  "take_response p h =
     (case p_responses (h_prompts h ! p) of
        [] \<Rightarrow> (h, None)
      | r # rs \<Rightarrow> (h\<lparr>h_prompts := (h_prompts h)[p := (h_prompts h ! p)\<lparr>p_responses := rs\<rparr>]\<rparr>,
                   Some (rs_value r)))"

definition close_prompt :: "nat \<Rightarrow> nat \<Rightarrow> hub \<Rightarrow> hub" where
  "close_prompt a p h =
     (if e_prompt (h_entries h ! a) = Some p
      then h\<lparr>h_entries := (h_entries h)[a := (h_entries h ! a)\<lparr>e_prompt := None\<rparr>]\<rparr>
      else h)"

subsection \<open>What clients call\<close>

text \<open>
  \<open>Respond\<close>. The response channel has room for one; a send on a full channel would block for ever
  while the mutex is held, which the result \<open>None\<close> stands for.
\<close>

definition respond :: "string \<Rightarrow> operation_response \<Rightarrow> hub \<Rightarrow> (hub \<times> go_error option) option" where
  "respond op response h =
     (case validate_response response of
        Some msg \<Rightarrow> Some (h, Some (new_error InvalidRequest msg False [] (Some (Plain_Error msg))))
      | None \<Rightarrow>
      case map_of (h_ops h) op of
        None \<Rightarrow> Some (h, Some (new_error NotFound ''operation was not found'' False [] None))
      | Some a \<Rightarrow>
        let e = h_entries h ! a in
        if e_terminal e then Some (h, Some (conflict_error ''operation is already complete''))
        else case e_prompt e of
          None \<Rightarrow> Some (h, Some (conflict_error ''operation prompt is no longer current''))
        | Some p \<Rightarrow>
          let s = h_prompts h ! p in
          if p_id s \<noteq> rs_prompt response
          then Some (h, Some (conflict_error ''operation prompt is no longer current''))
          else if p_responded s
          then Some (h, Some (conflict_error ''operation prompt already has a response''))
          else if length (p_responses s) \<ge> 1 then None
          else Some (h\<lparr>h_prompts := (h_prompts h)[p :=
                 s\<lparr>p_responded := True, p_responses := p_responses s @ [response]\<rparr>]\<rparr>, None))"

definition cancel :: "string \<Rightarrow> hub \<Rightarrow> hub \<times> go_error option" where
  "cancel op h =
     (case map_of (h_ops h) op of
        None \<Rightarrow> (h, Some (new_error NotFound ''operation was not found'' False [] None))
      | Some a \<Rightarrow>
          (if e_terminal (h_entries h ! a) then h
           else h\<lparr>h_entries := (h_entries h)[a := (h_entries h ! a)\<lparr>e_cancelled := True\<rparr>]\<rparr>, None))"

definition begin_hub_drain :: "gtime \<Rightarrow> hub \<Rightarrow> hub" where
  "begin_hub_drain deadline h =
     (if h_draining h then h else h\<lparr>h_draining := True, h_drain_deadline := deadline\<rparr>)"

definition drain_failure :: descriptor where
  "drain_failure = \<lparr>d_code = OperationOutcomeUnknown, d_message = ''daemon drain deadline expired'',
     d_retryable = False, d_details = []\<rparr>"

definition cancel_for_drain :: "nat \<Rightarrow> gtime \<Rightarrow> hub \<Rightarrow> hub" where
  "cancel_for_drain a now h =
     (if e_terminal (h_entries h ! a) then h
      else
        let h1 = fst (append_locked a now ((blank_event Complete)\<lparr>ev_failure := Some drain_failure\<rparr>) h)
        in if e_terminal (h_entries h1 ! a) then h1 else mark_terminal_locked a now h1)"

text \<open>The iteration visits the keys the map held at the start, but none deleted meanwhile.\<close>

fun cancel_each :: "(string \<times> nat) list \<Rightarrow> gtime \<Rightarrow> hub \<Rightarrow> hub" where
  "cancel_each [] now h = h"
| "cancel_each ((k, a) # ops) now h =
     cancel_each ops now (if map_of (h_ops h) k = Some a then cancel_for_drain a now h else h)"

definition cancel_active_for_drain :: "gtime \<Rightarrow> hub \<Rightarrow> hub" where
  "cancel_active_for_drain now h = cancel_each (h_ops h) now h"

definition last_sequence :: "op_entry \<Rightarrow> nat" where
  "last_sequence e = (if e_events e = [] then 0 else re_sequence (last (e_events e)))"

definition subscribe :: "string \<Rightarrow> nat \<Rightarrow> gtime \<Rightarrow> hub \<Rightarrow> hub \<times> (go_error + nat)" where
  "subscribe op after now h0 =
     (let h = prune now h0 in
      case map_of (h_ops h) op of
        None \<Rightarrow> (h, Inl (new_error NotFound ''operation was not found'' False [] None))
      | Some a \<Rightarrow>
        let e = h_entries h ! a in
        if after > last_sequence e
        then (h, Inl (invalid_request ''operation cursor is beyond the retained stream''))
        else if e_events e \<noteq> [] \<and> after + 1 < re_sequence (hd (e_events e))
        then (h, Inl (new_error OperationOutcomeUnknown
                ''operation events are no longer retained'' False [] None))
        else if e_sub_count e \<ge> o_max_subs_per_op (h_options h)
             \<or> h_subscribers h \<ge> o_max_subs (h_options h)
        then (h, Inl (capacity_error ''daemon operation subscriber capacity is exhausted''))
        else
          let replay = filter (\<lambda>re. re_sequence re > after) (e_events e);
              i = length (h_subs h);
              s = \<lparr>s_entry = a, s_queue = replay,
                   s_cap = length replay + nat (o_queue (h_options h)) + 1,
                   s_closed = e_terminal e, s_counted = True, s_once = False,
                   s_after = after, s_received = []\<rparr>
          in (h\<lparr>h_subs := h_subs h @ [s],
                h_entries := (h_entries h)[a := e\<lparr>e_loss_timer := None, e_subs := e_subs e @ [i],
                                                  e_sub_count := e_sub_count e + 1\<rparr>],
                h_subscribers := h_subscribers h + 1\<rparr>, Inr i))"

text \<open>A consumer receives from its channel.\<close>

definition receive :: "nat \<Rightarrow> hub \<Rightarrow> hub \<times> retained_event option" where
  "receive i h =
     (let s = h_subs h ! i in
      case s_queue s of
        [] \<Rightarrow> (h, None)
      | re # q \<Rightarrow> (h\<lparr>h_subs := (h_subs h)[i := s\<lparr>s_queue := q, s_received := s_received s @ [re]\<rparr>]\<rparr>,
                   Some re))"

definition remove_subscriber :: "nat \<Rightarrow> hub \<Rightarrow> hub" where
  "remove_subscriber i h =
     (let s = h_subs h ! i; a = s_entry s; e = h_entries h ! a;
          ok = (i \<in> set (e_subs e));
          e1 = (if ok then e\<lparr>e_subs := removeAll i (e_subs e)\<rparr> else e);
          sp = (if ok \<and> \<not> e_terminal e then close_channel s else (s, False));
          s1 = fst sp;
          h1 = h\<lparr>h_entries := (h_entries h)[a := e1], h_subs := (h_subs h)[i := s1],
                 h_panic := (h_panic h \<or> snd sp)\<rparr>
      in
      if \<not> s_counted s1 then h1
      else h1\<lparr>h_subs := (h_subs h1)[i := s1\<lparr>s_counted := False\<rparr>],
              h_entries := (h_entries h1)[a :=
                schedule_subscriber_loss (e1\<lparr>e_sub_count := e_sub_count e1 - 1\<rparr>)],
              h_subscribers := h_subscribers h1 - 1\<rparr>)"

definition close_subscription :: "nat \<Rightarrow> hub \<Rightarrow> hub" where
  "close_subscription i h =
     (if s_once (h_subs h ! i) then h
      else remove_subscriber i (h\<lparr>h_subs := (h_subs h)[i := (h_subs h ! i)\<lparr>s_once := True\<rparr>]\<rparr>))"

end
