(* ===== verification/Op_Hub_Cells.thy ===== *)
theory Op_Hub_Cells
  imports Op_Hub
begin

text \<open>
  The invariant of one operation and its channels, and its preservation by the helpers that run
  under the hub's mutex: dispatching, retaining an event, marking an operation terminal and
  terminating it for capacity.
\<close>

subsection \<open>Loops over channels, one channel at a time\<close>

lemma close_all_spec:
  assumes "distinct is" and "\<forall>i \<in> set is. i < length subs"
  shows "length (fst (close_all is subs)) = length subs \<and>
     (\<forall>j. fst (close_all is subs) ! j =
        (if j \<in> set is then (subs ! j)\<lparr>s_closed := True\<rparr> else subs ! j)) \<and>
     (snd (close_all is subs) \<longleftrightarrow> (\<exists>i \<in> set is. s_closed (subs ! i)))"
  using assms
proof (induction "is" arbitrary: subs)
  case Nil
  then show ?case by simp
next
  case (Cons i js)
  let ?subs = "subs[i := (subs ! i)\<lparr>s_closed := True\<rparr>]"
  have "\<forall>j \<in> set js. j < length ?subs" using Cons.prems by simp
  moreover have "distinct js" using Cons.prems by simp
  ultimately have IH: "length (fst (close_all js ?subs)) = length ?subs \<and>
     (\<forall>j. fst (close_all js ?subs) ! j =
        (if j \<in> set js then (?subs ! j)\<lparr>s_closed := True\<rparr> else ?subs ! j)) \<and>
     (snd (close_all js ?subs) \<longleftrightarrow> (\<exists>i \<in> set js. s_closed (?subs ! i)))"
    using Cons.IH by blast
  with Cons.prems show ?case
    by (auto simp: close_channel_def split_beta nth_list_update_cases)
qed

definition keeps :: "retained_event \<Rightarrow> subscription \<Rightarrow> bool" where
  "keeps re s \<longleftrightarrow> fst (snd (offer re s))"

lemma offer_all_spec:
  assumes "distinct is" and "\<forall>i \<in> set is. i < length subs"
  shows "fst (offer_all re is subs) = filter (\<lambda>i. keeps re (subs ! i)) is \<and>
     length (fst (snd (offer_all re is subs))) = length subs \<and>
     (\<forall>j. fst (snd (offer_all re is subs)) ! j =
        (if j \<in> set is then fst (offer re (subs ! j)) else subs ! j)) \<and>
     (snd (snd (offer_all re is subs)) \<longleftrightarrow> (\<exists>i \<in> set is. snd (snd (offer re (subs ! i)))))"
  using assms
proof (induction "is" arbitrary: subs)
  case Nil
  then show ?case by simp
next
  case (Cons i js)
  let ?subs = "subs[i := fst (offer re (subs ! i))]"
  have "\<forall>j \<in> set js. j < length ?subs" using Cons.prems by simp
  moreover have "distinct js" using Cons.prems by simp
  ultimately have IH: "fst (offer_all re js ?subs) = filter (\<lambda>i. keeps re (?subs ! i)) js \<and>
     length (fst (snd (offer_all re js ?subs))) = length ?subs \<and>
     (\<forall>j. fst (snd (offer_all re js ?subs)) ! j =
        (if j \<in> set js then fst (offer re (?subs ! j)) else ?subs ! j)) \<and>
     (snd (snd (offer_all re js ?subs)) \<longleftrightarrow> (\<exists>i \<in> set js. snd (snd (offer re (?subs ! i)))))"
    using Cons.IH by blast
  have same: "?subs ! j = subs ! j" if "j \<in> set js" for j
    using Cons.prems that by (auto simp: nth_list_update_cases)
  have "filter (\<lambda>i. keeps re (?subs ! i)) js = filter (\<lambda>i. keeps re (subs ! i)) js"
    using same by (auto cong: filter_cong)
  with IH Cons.prems same show ?case
    by (auto simp: split_beta keeps_def nth_list_update_cases)
qed

lemma offer_fields [simp]:
  "s_entry (fst (offer re s)) = s_entry s" "s_cap (fst (offer re s)) = s_cap s"
  "s_counted (fst (offer re s)) = s_counted s" "s_once (fst (offer re s)) = s_once s"
  "s_after (fst (offer re s)) = s_after s" "s_received (fst (offer re s)) = s_received s"
  by (auto simp: offer_def close_channel_def Let_def)

lemma offer_open:
  assumes "\<not> s_closed s" and "length (s_queue s) \<le> s_cap s"
  shows "\<not> snd (snd (offer re s))"
    and "keeps re s \<Longrightarrow> s_queue (fst (offer re s)) = s_queue s @ [re] \<and>
           \<not> s_closed (fst (offer re s)) \<and> length (s_queue s) < s_cap s"
    and "\<not> keeps re s \<Longrightarrow> s_queue (fst (offer re s)) = s_queue s \<and> s_closed (fst (offer re s))"
  using assms by (auto simp: keeps_def offer_def close_channel_def Let_def split: if_splits)

subsection \<open>The invariant of an operation\<close>

definition log_bytes :: "retained_event list \<Rightarrow> int" where
  "log_bytes es = int (sum_list (map (\<lambda>re. length (re_encoded re)) es))"

lemma log_bytes_simps [simp]:
  "log_bytes [] = 0" "log_bytes (es @ [re]) = log_bytes es + int (length (re_encoded re))"
  by (simp_all add: log_bytes_def)

text \<open>The retained log: consecutive, within its limits, and complete at most at its end.\<close>

definition log_ok :: "hub_options \<Rightarrow> op_entry \<Rightarrow> bool" where
  "log_ok o1 e \<longleftrightarrow>
     v_operation (e_validator e) = e_id e \<and>
     v_sequence (e_validator e) = length (e_events e) \<and>
     map re_sequence (e_events e) = [1 ..< Suc (length (e_events e))] \<and>
     v_terminal (e_validator e) = (e_events e \<noteq> [] \<and> re_kind (last (e_events e)) = Complete) \<and>
     (\<forall>re \<in> set (butlast (e_events e)). re_kind re \<noteq> Complete) \<and>
     e_bytes e = log_bytes (e_events e) \<and> e_bytes e \<le> o_max_bytes o1 \<and>
     int (length (e_events e)) \<le> o_max_events o1 \<and>
     (\<not> v_terminal (e_validator e) \<longrightarrow>
        int (length (e_events e)) \<le> o_max_events o1 - 1 \<and> e_bytes e \<le> nonterminal_byte_limit o1)"

definition entry_ok :: "op_entry \<Rightarrow> bool" where
  "entry_ok e \<longleftrightarrow>
     distinct (e_subs e) \<and>
     (e_terminal e \<longrightarrow> e_prompt e = None \<and> e_cancelled e \<and> e_loss_timer e = None) \<and>
     (\<not> e_terminal e \<longrightarrow> e_worker e) \<and>
     (\<not> e_terminal e \<and> e_subs e = [] \<longrightarrow> e_loss_timer e \<noteq> None \<or> e_cancelled e) \<and>
     (\<forall>t. e_loss_timer e = Some t \<longrightarrow> e_loss_token e = t)"

definition settled :: "op_entry \<Rightarrow> bool" where
  "settled e \<longleftrightarrow> (v_terminal (e_validator e) \<longrightarrow> e_terminal e)"

text \<open>What a consumer should see of the log, and what reached it or waits in its channel.\<close>

definition wanted :: "op_entry \<Rightarrow> subscription \<Rightarrow> retained_event list" where
  "wanted e s = filter (\<lambda>re. re_sequence re > s_after s) (e_events e)"

definition delivered :: "subscription \<Rightarrow> retained_event list" where
  "delivered s = s_received s @ s_queue s"

definition chan_ok :: "op_entry \<Rightarrow> nat \<Rightarrow> subscription \<Rightarrow> bool" where
  "chan_ok e i s \<longleftrightarrow>
     length (s_queue s) \<le> s_cap s \<and> s_counted s = (\<not> s_once s) \<and>
     s_after s \<le> length (e_events e) \<and>
     (i \<in> set (e_subs e) \<longrightarrow> s_counted s \<and> s_closed s = e_terminal e \<and> delivered s = wanted e s) \<and>
     (i \<notin> set (e_subs e) \<longrightarrow> s_closed s) \<and>
     prefix (delivered s) (wanted e s)"

definition cell_ok :: "hub_options \<Rightarrow> nat \<Rightarrow> op_entry \<Rightarrow> subscription list \<Rightarrow> bool" where
  "cell_ok o1 a e subs \<longleftrightarrow>
     log_ok o1 e \<and> entry_ok e \<and>
     (\<forall>i \<in> set (e_subs e). i < length subs \<and> s_entry (subs ! i) = a) \<and>
     (\<forall>i < length subs. s_entry (subs ! i) = a \<longrightarrow> chan_ok e i (subs ! i)) \<and>
     e_sub_count e = count_where (\<lambda>s. s_counted s \<and> s_entry s = a) subs"

text \<open>What no helper changes: everything outside the operation, and its identity and counters.\<close>

definition frame ::
    "nat \<Rightarrow> op_entry \<Rightarrow> subscription list \<Rightarrow> op_entry \<Rightarrow> subscription list \<Rightarrow> bool" where
  "frame a e subs e' subs' \<longleftrightarrow>
     length subs' = length subs \<and>
     (\<forall>i < length subs. s_entry (subs' ! i) = s_entry (subs ! i) \<and>
        s_counted (subs' ! i) = s_counted (subs ! i) \<and> s_once (subs' ! i) = s_once (subs ! i) \<and>
        s_after (subs' ! i) = s_after (subs ! i) \<and>
        (s_entry (subs ! i) \<noteq> a \<longrightarrow> subs' ! i = subs ! i)) \<and>
     e_id e' = e_id e \<and> e_digest e' = e_digest e \<and> e_worker e' = e_worker e \<and>
     e_release e' = e_release e \<and> e_sub_count e' = e_sub_count e \<and>
     (e_prompt e' = e_prompt e \<or> e_prompt e' = None) \<and>
     prefix (e_events e) (e_events e') \<and>
     (e_terminal e \<longrightarrow> e_terminal e' \<and> e_events e' = e_events e)"

lemma frame_refl [simp]: "frame a e subs e subs"
  by (simp add: frame_def)

lemma frame_trans: "frame a e s e' s' \<Longrightarrow> frame a e' s' e'' s'' \<Longrightarrow> frame a e s e'' s''"
  by (auto simp: frame_def intro: prefix_order.trans)

lemma count_where_map:
  assumes "map P xs = map P ys"
  shows "count_where P xs = count_where P ys"
proof -
  have "count_where P zs = count_where id (map P zs)" for zs by (induction zs) simp_all
  with assms show ?thesis by metis
qed

lemma count_where_nth:
  assumes "length ys = length xs" and "\<And>i. i < length xs \<Longrightarrow> P (ys ! i) = P (xs ! i)"
  shows "count_where P ys = count_where P xs"
  using assms by (intro count_where_map nth_equalityI) simp_all

lemma frame_nth:
  assumes "frame a e subs e' subs'" and "i < length subs"
  shows "s_entry (subs' ! i) = s_entry (subs ! i)" and "s_counted (subs' ! i) = s_counted (subs ! i)"
    and "s_once (subs' ! i) = s_once (subs ! i)" and "s_after (subs' ! i) = s_after (subs ! i)"
    and "s_entry (subs ! i) \<noteq> a \<Longrightarrow> subs' ! i = subs ! i"
  using assms unfolding frame_def by blast+

lemma frame_counts:
  assumes "frame a e subs e' subs'"
  shows "count_where (\<lambda>s. s_counted s \<and> s_entry s = b) subs' =
           count_where (\<lambda>s. s_counted s \<and> s_entry s = b) subs"
    and "count_where s_counted subs' = count_where s_counted subs"
proof -
  have "length subs' = length subs" using assms by (simp add: frame_def)
  then show "count_where (\<lambda>s. s_counted s \<and> s_entry s = b) subs' =
      count_where (\<lambda>s. s_counted s \<and> s_entry s = b) subs"
    and "count_where s_counted subs' = count_where s_counted subs"
    by (auto intro!: count_where_nth simp: frame_nth [OF assms])
qed

lemma schedule_fields [simp]:
  "e_id (schedule_subscriber_loss e) = e_id e" "e_digest (schedule_subscriber_loss e) = e_digest e"
  "e_cancelled (schedule_subscriber_loss e) = e_cancelled e"
  "e_validator (schedule_subscriber_loss e) = e_validator e"
  "e_events (schedule_subscriber_loss e) = e_events e"
  "e_bytes (schedule_subscriber_loss e) = e_bytes e"
  "e_terminal (schedule_subscriber_loss e) = e_terminal e"
  "e_completed_at (schedule_subscriber_loss e) = e_completed_at e"
  "e_prompt (schedule_subscriber_loss e) = e_prompt e" "e_subs (schedule_subscriber_loss e) = e_subs e"
  "e_sub_count (schedule_subscriber_loss e) = e_sub_count e"
  "e_release (schedule_subscriber_loss e) = e_release e"
  "e_worker (schedule_subscriber_loss e) = e_worker e"
  by (auto simp: schedule_subscriber_loss_def)

lemma schedule_timer:
  "\<not> e_terminal e \<Longrightarrow> e_subs e = [] \<Longrightarrow> e_loss_timer (schedule_subscriber_loss e) \<noteq> None"
  "e_terminal e \<Longrightarrow> e_loss_timer (schedule_subscriber_loss e) = e_loss_timer e"
  "(\<And>t. e_loss_timer e = Some t \<Longrightarrow> e_loss_token e = t) \<Longrightarrow>
     e_loss_timer (schedule_subscriber_loss e) = Some u \<Longrightarrow> e_loss_token (schedule_subscriber_loss e) = u"
  by (auto simp: schedule_subscriber_loss_def)

lemma log_ok_schedule [simp]: "log_ok o1 (schedule_subscriber_loss e) = log_ok o1 e"
  by (simp add: log_ok_def)

subsection \<open>Marking an operation terminal\<close>

lemma mark_terminal_ok:
  assumes ok: "cell_ok o1 a e subs" and live: "\<not> e_terminal e"
    and r: "mark_terminal now (e, subs, panic) = (e', subs', panic')"
  shows "cell_ok o1 a e' subs'" and "frame a e subs e' subs'" and "panic' = panic"
    and "e_terminal e'" and "e_events e' = e_events e" and "e_completed_at e' = now"
proof -
  obtain cs p where cs: "close_all (e_subs e) subs = (cs, p)" by fastforce
  have "distinct (e_subs e)" and "\<forall>i \<in> set (e_subs e). i < length subs"
    using ok by (auto simp: cell_ok_def entry_ok_def)
  from close_all_spec [OF this] cs
  have len: "length cs = length subs"
    and nth: "\<And>j. cs ! j = (if j \<in> set (e_subs e) then (subs ! j)\<lparr>s_closed := True\<rparr> else subs ! j)"
    and p: "p \<longleftrightarrow> (\<exists>i \<in> set (e_subs e). s_closed (subs ! i))"
    by simp_all
  have subs': "subs' = cs" and e': "e' = e\<lparr>e_terminal := True, e_completed_at := now,
      e_prompt := None, e_cancelled := True, e_loss_timer := None\<rparr>" and panic': "panic' = (panic \<or> p)"
    using r live by (auto simp: mark_terminal_def cs)
  have "\<not> s_closed (subs ! i)" if "i \<in> set (e_subs e)" for i
    using ok live that by (auto simp: cell_ok_def chan_ok_def)
  with p panic' show "panic' = panic" by auto
  show fr: "frame a e subs e' subs'"
    using ok by (auto simp: frame_def subs' e' len nth cell_ok_def)
  have "chan_ok e' i (subs' ! i)" if "i < length subs'" and "s_entry (subs' ! i) = a" for i
  proof -
    have "chan_ok e i (subs ! i)"
      using ok that by (auto simp: cell_ok_def subs' len nth split: if_splits)
    then show ?thesis by (auto simp: chan_ok_def subs' nth e' wanted_def delivered_def)
  qed
  then show "cell_ok o1 a e' subs'"
    using ok frame_counts(1) [OF fr, of a]
    by (auto simp: cell_ok_def subs' e' len nth log_ok_def entry_ok_def)
  show "e_terminal e'" "e_events e' = e_events e" "e_completed_at e' = now" by (simp_all add: e')
qed

lemma mark_terminal_id: "e_terminal e \<Longrightarrow> mark_terminal now (e, subs, p) = (e, subs, p)"
  by (simp add: mark_terminal_def)

subsection \<open>Retaining an event\<close>

lemma log_ok_retain:
  assumes log: "log_ok o1 e" and acc: "accept (e_validator e) ev = Inr v"
    and seq: "re_sequence re = ev_sequence ev" and kind: "re_kind re = ev_kind ev"
    and fits: "e_bytes e + int (length (re_encoded re)) \<le>
        (if ev_kind ev = Complete then o_max_bytes o1 else nonterminal_byte_limit o1)"
    and room: "int (length (e_events e)) <
        (if ev_kind ev = Complete then o_max_events o1 else o_max_events o1 - 1)"
    and lim: "nonterminal_byte_limit o1 \<le> o_max_bytes o1"
  shows "log_ok o1 (e\<lparr>e_validator := v, e_events := e_events e @ [re],
      e_bytes := e_bytes e + int (length (re_encoded re))\<rparr>)"
proof -
  note a = accept_Inr [OF acc]
  have nc: "\<forall>x \<in> set (e_events e). re_kind x \<noteq> Complete"
  proof (cases "e_events e = []")
    case True
    then show ?thesis by simp
  next
    case False
    then have "set (e_events e) = insert (last (e_events e)) (set (butlast (e_events e)))"
      by (metis append_butlast_last_id list.simps(15) rotate1.simps(2) set_rotate1)
    with log a(1) False show ?thesis by (auto simp: log_ok_def)
  qed
  show ?thesis
    unfolding log_ok_def using log nc lim fits room
    by (auto simp: log_ok_def a(3,5) seq kind butlast_append split: if_splits)
qed

lemma retain_ok:
  assumes ok: "cell_ok o1 a e subs" and live: "\<not> e_terminal e"
    and log': "log_ok o1 (e\<lparr>e_validator := v, e_events := e_events e @ [re],
        e_bytes := e_bytes e + int (length (re_encoded re))\<rparr>)"
    and r: "retain re v (e, subs, panic) = (e', subs', panic')"
  shows "cell_ok o1 a e' subs'" and "frame a e subs e' subs'" and "panic' = panic"
    and "\<not> e_terminal e'" and "e_events e' = e_events e @ [re]" and "e_validator e' = v"
proof -
  let ?e1 = "e\<lparr>e_validator := v, e_events := e_events e @ [re],
      e_bytes := e_bytes e + int (length (re_encoded re))\<rparr>"
  obtain kept cs p where cs: "offer_all re (e_subs e) subs = (kept, cs, p)" by (metis prod_cases3)
  have d: "distinct (e_subs e)" and range: "\<forall>i \<in> set (e_subs e). i < length subs"
    using ok by (auto simp: cell_ok_def entry_ok_def)
  from offer_all_spec [OF d range, of re] cs
  have kept: "kept = filter (\<lambda>i. keeps re (subs ! i)) (e_subs e)" and len: "length cs = length subs"
    and nth: "\<And>j. cs ! j = (if j \<in> set (e_subs e) then fst (offer re (subs ! j)) else subs ! j)"
    and p: "p \<longleftrightarrow> (\<exists>i \<in> set (e_subs e). snd (snd (offer re (subs ! i))))"
    by simp_all
  have e': "e' = schedule_subscriber_loss (?e1\<lparr>e_subs := kept\<rparr>)" and subs': "subs' = cs"
    and panic': "panic' = (panic \<or> p)"
    using r by (auto simp: retain_def dispatch_def cs)
  have sub_open: "\<not> s_closed (subs ! i) \<and> length (s_queue (subs ! i)) \<le> s_cap (subs ! i)"
    if "i \<in> set (e_subs e)" for i
    using ok live that by (auto simp: cell_ok_def chan_ok_def)
  show "panic' = panic" using p panic' offer_open(1) sub_open by blast
  show fr: "frame a e subs e' subs'"
    using ok live by (auto simp: frame_def subs' e' len nth cell_ok_def)
  show "\<not> e_terminal e'" "e_events e' = e_events e @ [re]" "e_validator e' = v"
    using live by (simp_all add: e')
  have "re_sequence re = Suc (length (e_events e))"
  proof -
    have "map re_sequence (e_events e @ [re]) = [1 ..< Suc (length (e_events e @ [re]))]"
      using log' by (simp add: log_ok_def)
    then have "last (map re_sequence (e_events e @ [re])) =
        last [1 ..< Suc (length (e_events e @ [re]))]" by simp
    then show ?thesis by simp
  qed
  then have new: "s_after (subs ! i) < re_sequence re"
    if "i < length subs" and "s_entry (subs ! i) = a" for i
    using ok that by (force simp: cell_ok_def chan_ok_def)
  have "chan_ok e' i (subs' ! i)" if "i < length subs'" and "s_entry (subs' ! i) = a" for i
  proof -
    have i: "i < length subs" "s_entry (subs ! i) = a"
      using that by (auto simp: subs' len nth split: if_splits)
    have old: "chan_ok e i (subs ! i)" using ok i by (auto simp: cell_ok_def)
    have w: "wanted e' (subs' ! i) = wanted e (subs ! i) @ [re]"
      using new [OF i] by (simp add: wanted_def e' subs' nth)
    show ?thesis
    proof (cases "i \<in> set (e_subs e)")
      case False
      with old w show ?thesis
        by (auto simp: chan_ok_def subs' nth e' kept delivered_def)
    next
      case True
      note o = offer_open [of "subs ! i" re]
      have full: "delivered (subs ! i) = wanted e (subs ! i)"
        using old True by (simp add: chan_ok_def)
      show ?thesis
      proof (cases "keeps re (subs ! i)")
        case keep: True
        then have "delivered (subs' ! i) = wanted e' (subs' ! i)"
          using o(2) sub_open [OF True] True full w by (simp add: subs' nth delivered_def)
        with keep True old o(2) sub_open [OF True] live show ?thesis
          by (auto simp: chan_ok_def subs' nth e' kept)
      next
        case drop: False
        then have "delivered (subs' ! i) = wanted e (subs ! i)"
          using o(3) sub_open [OF True] True full by (simp add: subs' nth delivered_def)
        with drop True old o(3) sub_open [OF True] w show ?thesis
          by (auto simp: chan_ok_def subs' nth e' kept)
      qed
    qed
  qed
  moreover have "log_ok o1 e'" using log' by (auto simp: e' log_ok_def)
  moreover have "entry_ok e'"
    using ok live schedule_timer(1,3) [of "?e1\<lparr>e_subs := kept\<rparr>"]
    by (auto simp: entry_ok_def cell_ok_def e' kept)
  moreover have "\<forall>i \<in> set (e_subs e'). i < length subs' \<and> s_entry (subs' ! i) = a"
    using ok by (auto simp: cell_ok_def e' kept subs' len nth)
  ultimately show "cell_ok o1 a e' subs'"
    using ok frame_counts(1) [OF fr, of a] by (auto simp: cell_ok_def e')
qed

subsection \<open>Termination for capacity\<close>

lemma nonterminal_le_max: "0 < o_max_bytes o1 \<Longrightarrow> nonterminal_byte_limit o1 \<le> o_max_bytes o1"
  by (auto simp: nonterminal_byte_limit_def completion_reserve_def)

lemma validate_capacity_event: "validate_event_shape (capacity_event e) = None"
  by (simp add: validate_event_shape_def capacity_event_def blank_event_def max_message_bytes_def)

lemma accept_capacity_event:
  assumes "log_ok o1 e" and "\<not> v_terminal (e_validator e)"
  shows "accept (e_validator e) (capacity_event e) =
     Inr ((e_validator e)\<lparr>v_sequence := Suc (length (e_events e)), v_terminal := True\<rparr>)"
proof -
  have "ev_operation (capacity_event e) = e_id e"
    "ev_sequence (capacity_event e) = Suc (length (e_events e))"
    "ev_kind (capacity_event e) = Complete"
    by (simp_all add: capacity_event_def blank_event_def)
  with assms show ?thesis by (simp add: accept_def log_ok_def validate_capacity_event)
qed

text \<open>The log after a termination for capacity: the capacity event is added when it fits.\<close>

definition closed_log :: "hub_options \<Rightarrow> op_entry \<Rightarrow> op_entry \<Rightarrow> bool" where
  "closed_log o1 e e' \<longleftrightarrow>
     (case encode_retained (o_format_time o1) (capacity_event e) (o_max_bytes o1 - e_bytes e) of
        Inl _ \<Rightarrow> e_events e' = e_events e
      | Inr re \<Rightarrow> e_events e' = e_events e @ [re] \<and> re_kind re = Complete)"

lemma terminate_capacity_ok:
  assumes ok: "cell_ok o1 a e subs" and live: "\<not> e_terminal e" and set: "settled e"
    and pos: "0 < o_max_bytes o1"
    and r: "terminate_capacity o1 now (e, subs, panic) = (e', subs', panic')"
  shows "cell_ok o1 a e' subs'" and "frame a e subs e' subs'" and "panic' = panic"
    and "e_terminal e'"
    and "closed_log o1 e e'"
proof -
  let ?ev = "capacity_event e"
  have log: "log_ok o1 e" using ok by (simp add: cell_ok_def)
  have open_log: "\<not> v_terminal (e_validator e)" using live set by (auto simp: settled_def)
  then have room: "int (length (e_events e)) < o_max_events o1" using log by (simp add: log_ok_def)
  let ?v = "(e_validator e)\<lparr>v_sequence := Suc (length (e_events e)), v_terminal := True\<rparr>"
  have acc: "accept (e_validator e) ?ev = Inr ?v"
    by (rule accept_capacity_event [OF log open_log])
  define c1 where "c1 = (case encode_retained (o_format_time o1) ?ev (o_max_bytes o1 - e_bytes e) of
      Inl _ \<Rightarrow> (e, subs, panic) | Inr re \<Rightarrow> retain re ?v (e, subs, panic))"
  have r1: "mark_terminal now c1 = (e', subs', panic')"
  proof -
    have "terminate_capacity o1 now (e, subs, panic) = mark_terminal now c1"
      using live room acc
      by (simp add: terminate_capacity_def c1_def Let_def split: sum.split)
    with r show ?thesis by simp
  qed
  obtain e1 subs1 p1 where c1: "c1 = (e1, subs1, p1)" by (metis prod_cases3)
  have key: "cell_ok o1 a e1 subs1 \<and> frame a e subs e1 subs1 \<and> p1 = panic \<and> \<not> e_terminal e1 \<and>
     (case encode_retained (o_format_time o1) ?ev (o_max_bytes o1 - e_bytes e) of
            Inl _ \<Rightarrow> e_events e1 = e_events e
          | Inr re \<Rightarrow> e_events e1 = e_events e @ [re] \<and> re_kind re = Complete)"
  proof (cases "encode_retained (o_format_time o1) ?ev (o_max_bytes o1 - e_bytes e)")
    case (Inl x)
    with c1 ok live show ?thesis by (auto simp: c1_def)
  next
    case (Inr re)
    have enc: "re_sequence re = ev_sequence ?ev" "re_kind re = ev_kind ?ev"
      "int (length (re_encoded re)) \<le> o_max_bytes o1 - e_bytes e"
      using encode_retained_Inr [OF Inr] by auto
    have complete: "ev_kind ?ev = Complete" by (simp add: capacity_event_def blank_event_def)
    have log': "log_ok o1 (e\<lparr>e_validator := ?v, e_events := e_events e @ [re],
        e_bytes := e_bytes e + int (length (re_encoded re))\<rparr>)"
      by (rule log_ok_retain [OF log acc enc(1,2)])
         (use enc(3) room complete nonterminal_le_max [OF pos] in auto)
    have ret: "retain re ?v (e, subs, panic) = (e1, subs1, p1)"
      using c1 by (simp add: c1_def Inr)
    from retain_ok [OF ok live log' ret] show ?thesis
      by (simp add: Inr enc(2) complete)
  qed
  note m = mark_terminal_ok [of o1 a e1 subs1 now p1 e' subs' panic']
  have mt: "mark_terminal now (e1, subs1, p1) = (e', subs', panic')" using r1 c1 by simp
  show "cell_ok o1 a e' subs'" "panic' = panic" "e_terminal e'" using m mt key by blast+
  show "frame a e subs e' subs'" using m(2) mt key frame_trans by blast
  show "closed_log o1 e e'"
    using m(5) mt key by (auto simp: closed_log_def split: sum.splits)
qed

text \<open>
  After \<open>appendLocked\<close> on a live, settled operation: the invariant holds; on success the event is
  the last of the log (terminal only for a completion); otherwise the log is closed and the
  operation terminal (capacity), or nothing changed (an invalid event).
\<close>

lemma append_cell_ok:
  assumes ok: "cell_ok o1 a e subs" and live: "\<not> e_terminal e" and set: "settled e"
    and pos: "0 < o_max_bytes o1"
    and r: "append_cell o1 now event (e, subs, panic) = ((e', subs', panic'), err, terminated)"
  shows "cell_ok o1 a e' subs' \<and> frame a e subs e' subs' \<and> panic' = panic \<and>
     (terminated \<longrightarrow> err \<noteq> None \<and> e_terminal e' \<and> closed_log o1 e e') \<and>
     (\<not> terminated \<and> err \<noteq> None \<longrightarrow> e' = e \<and> subs' = subs) \<and>
     (err = None \<longrightarrow> \<not> terminated \<and> \<not> e_terminal e' \<and>
        v_terminal (e_validator e') = (ev_kind event = Complete) \<and>
        (\<exists>re. e_events e' = e_events e @ [re] \<and> re_kind re = ev_kind event))"
proof -
  let ?ev = "event\<lparr>ev_operation := e_id e, ev_sequence := length (e_events e) + 1\<rparr>"
  let ?limit = "if ev_kind event = Complete then o_max_bytes o1 else nonterminal_byte_limit o1"
  have log: "log_ok o1 e" using ok by (simp add: cell_ok_def)
  note tc = terminate_capacity_ok [OF ok live set pos, of now panic]
  consider (full) x where "terminate_capacity o1 now (e, subs, panic) = (e', subs', panic')"
      "err = Some x" "terminated"
    | (bad) x where "(e', subs', panic') = (e, subs, panic)" "err = Some x" "\<not> terminated"
    | (good) re v where "encode_retained (o_format_time o1) ?ev (?limit - e_bytes e) = Inr re"
        "accept (e_validator e) ?ev = Inr v" "retain re v (e, subs, panic) = (e', subs', panic')"
        "err = None" "\<not> terminated"
        "int (length (e_events e)) <
           (if ev_kind event = Complete then o_max_events o1 else o_max_events o1 - 1)"
    using r by (auto simp: append_cell_def Let_def
        split: if_splits sum.splits encode_error.splits)
  then show ?thesis
  proof cases
    case full
    with tc show ?thesis by auto
  next
    case bad
    with ok show ?thesis by auto
  next
    case (good re v)
    have enc: "re_sequence re = ev_sequence ?ev" "re_kind re = ev_kind ?ev"
      "int (length (re_encoded re)) \<le> ?limit - e_bytes e"
      using encode_retained_Inr [OF good(1)] by auto
    have log': "log_ok o1 (e\<lparr>e_validator := v, e_events := e_events e @ [re],
        e_bytes := e_bytes e + int (length (re_encoded re))\<rparr>)"
      by (rule log_ok_retain [OF log good(2) enc(1,2)])
         (use enc(3) good(6) nonterminal_le_max [OF pos] in auto)
    from retain_ok [OF ok live log' good(3)] accept_Inr(5) [OF good(2)] good enc
    show ?thesis by auto
  qed
qed

end
