(* ===== verification/Op_Hub_Inv.thy ===== *)
theory Op_Hub_Inv
  imports Op_Hub_Cells
begin

text \<open>
  The invariant of the whole hub, kept by every method, and the hub's reachable states. The
  properties of the hub are read off it.
\<close>

subsection \<open>Pruning removes only finished operations\<close>

definition prunes :: "op_entry list \<Rightarrow> (string \<times> nat) list \<Rightarrow> (string \<times> nat) list \<Rightarrow> bool" where
  "prunes es ops ops' \<longleftrightarrow>
     (\<exists>Q. ops' = filter Q ops \<and>
        (\<forall>p \<in> set ops. \<not> Q p \<longrightarrow> e_terminal (es ! snd p) \<and> \<not> e_worker (es ! snd p)))"

lemma prunes_refl [simp]: "prunes es ops ops"
  unfolding prunes_def by (rule exI [of _ "\<lambda>_. True"]) simp

lemma prunes_trans: "prunes es a b \<Longrightarrow> prunes es b c \<Longrightarrow> prunes es a c"
  unfolding prunes_def
  by (elim exE conjE, rule_tac x = "\<lambda>x. Qa x \<and> Q x" in exI) (auto simp: conj_commute)

definition ops_ok :: "op_entry list \<Rightarrow> (string \<times> nat) list \<Rightarrow> bool" where
  "ops_ok es ops \<longleftrightarrow> distinct (map fst ops) \<and>
     (\<forall>(k, a) \<in> set ops. a < length es \<and> e_id (es ! a) = k)"

definition removable :: "op_entry list \<Rightarrow> string \<times> nat \<Rightarrow> bool" where
  "removable es p \<longleftrightarrow> e_terminal (es ! snd p) \<and> \<not> e_worker (es ! snd p)"

lemma oldest_completed_Some:
  "oldest_completed es ops best = Some a \<Longrightarrow>
     best = Some a \<or> (\<exists>k. (k, a) \<in> set ops \<and> removable es (k, a))"
  by (induction es ops best rule: oldest_completed.induct)
     (auto simp: removable_def split: if_splits)

lemma oldest_completed_None:
  "oldest_completed es ops best = None \<longleftrightarrow> best = None \<and> (\<forall>p \<in> set ops. \<not> removable es p)"
  by (induction es ops best rule: oldest_completed.induct)
     (auto simp: removable_def split: option.splits)

lemma oldest_completed_least:
  "oldest_completed es ops best = Some a \<Longrightarrow>
     (\<forall>p \<in> set ops. removable es p \<longrightarrow> e_completed_at (es ! a) \<le> e_completed_at (es ! snd p)) \<and>
     (\<forall>b. best = Some b \<longrightarrow> e_completed_at (es ! a) \<le> e_completed_at (es ! b))"
proof (induction es ops best arbitrary: a rule: oldest_completed.induct)
  case (1 es best)
  then show ?case by simp
next
  case (2 es k b ops best)
  then show ?case
    by (auto simp: removable_def split: if_splits option.splits)
qed

lemma ops_ok_delete: "ops_ok es ops \<Longrightarrow> ops_ok es (filter Q ops)"
  by (auto simp: ops_ok_def distinct_fst_filter)

lemma prune_loop_prunes: "ops_ok es ops \<Longrightarrow> prunes es ops (prune_loop n limit es ops)"
proof (induction n limit es ops rule: prune_loop.induct)
  case (1 limit es ops)
  then show ?case by simp
next
  case (2 n limit es ops)
  show ?case
  proof (cases "oldest_completed es ops None")
    case None
    then show ?thesis by simp
  next
    case (Some a)
    show ?thesis
    proof (cases "completed_count es ops \<le> limit")
      case True
      with Some show ?thesis by simp
    next
      case False
      from oldest_completed_Some [OF Some] obtain k where
        k: "(k, a) \<in> set ops" "removable es (k, a)" by auto
      then have id: "e_id (es ! a) = k" using "2.prems" by (auto simp: ops_ok_def)
      have "prunes es ops (delete_key k ops)"
        unfolding prunes_def delete_key_def
      proof (rule exI [of _ "\<lambda>p. fst p \<noteq> k"], intro conjI ballI impI)
        fix p assume "p \<in> set ops" and "\<not> fst p \<noteq> k"
        with k(1) "2.prems" have "p = (k, a)"
          by (metis eq_key_imp_eq_value ops_ok_def prod.collapse)
        with k(2) show "e_terminal (es ! snd p)" "\<not> e_worker (es ! snd p)"
          by (simp_all add: removable_def)
      qed simp
      moreover have "prunes es (delete_key k ops) (prune_loop n limit es (delete_key k ops))"
        using "2.IH" [OF Some False] "2.prems" id by (simp add: delete_key_def ops_ok_delete)
      ultimately show ?thesis using Some False id prunes_trans by fastforce
    qed
  qed
qed

text \<open>The loop ends where the source's does: within the limit, or with nothing left to remove.\<close>

lemma prune_loop_done:
  "ops_ok es ops \<Longrightarrow> length ops \<le> n \<Longrightarrow>
     completed_count es (prune_loop n limit es ops) \<le> limit \<or>
     (\<forall>p \<in> set (prune_loop n limit es ops). \<not> removable es p)"
proof (induction n limit es ops rule: prune_loop.induct)
  case (1 limit es ops)
  then show ?case by simp
next
  case (2 n limit es ops)
  show ?case
  proof (cases "oldest_completed es ops None")
    case None
    have "\<forall>p\<in>set ops. \<not> removable es p"
      using None oldest_completed_None [of es ops None] by simp
    with None show ?thesis by simp
  next
    case (Some a)
    show ?thesis
    proof (cases "completed_count es ops \<le> limit")
      case True
      with Some show ?thesis by simp
    next
      case False
      from oldest_completed_Some [OF Some] obtain k where k: "(k, a) \<in> set ops" by auto
      then have id: "e_id (es ! a) = k" using "2.prems" by (auto simp: ops_ok_def)
      have "length (delete_key k ops) < length ops"
        unfolding delete_key_def by (rule length_filter_less [OF k]) simp
      with 2 Some False id show ?thesis by (simp add: delete_key_def ops_ok_delete)
    qed
  qed
qed

lemma prunes_ops_ok: "prunes es ops ops' \<Longrightarrow> ops_ok es ops \<Longrightarrow> ops_ok es ops'"
  by (auto simp: prunes_def ops_ok_delete)

lemma prunes_lookup:
  assumes "prunes es ops ops'" and "ops_ok es ops" and "map_of ops k = Some a"
    and "\<not> e_terminal (es ! a) \<or> e_worker (es ! a)"
  shows "map_of ops' k = Some a"
proof -
  have "(k, a) \<in> set ops" using assms(3) by (rule map_of_SomeD)
  with assms(1,4) have "(k, a) \<in> set ops'" by (auto simp: prunes_def)
  with prunes_ops_ok [OF assms(1,2)] show ?thesis by (simp add: ops_ok_def)
qed

lemma prunes_lookup_back:
  assumes "prunes es ops ops'" and "ops_ok es ops" and "map_of ops' k = Some a"
  shows "map_of ops k = Some a"
proof -
  have "(k, a) \<in> set ops'" using assms(3) by (rule map_of_SomeD)
  with assms(1) have "(k, a) \<in> set ops" by (auto simp: prunes_def)
  with assms(2) show ?thesis by (simp add: ops_ok_def)
qed

subsection \<open>The invariant\<close>

definition options_ok :: "hub_options \<Rightarrow> bool" where
  "options_ok o1 \<longleftrightarrow> 2 \<le> o_max_events o1 \<and> 0 < o_max_bytes o1 \<and> 0 < o_max_active o1 \<and>
     0 < o_max_completed o1 \<and> 0 < o_queue o1 \<and> 0 < o_max_subs_per_op o1 \<and> 0 < o_max_subs o1"

definition prompts_ok :: "hub \<Rightarrow> bool" where
  "prompts_ok h \<longleftrightarrow>
     (\<forall>a < length (h_entries h). \<forall>p. e_prompt (h_entries h ! a) = Some p \<longrightarrow> p < length (h_prompts h)) \<and>
     (\<forall>p < length (h_prompts h). length (p_responses (h_prompts h ! p)) \<le> 1 \<and>
        (\<not> p_responded (h_prompts h ! p) \<longrightarrow> p_responses (h_prompts h ! p) = []))"

definition hub_inv :: "hub \<Rightarrow> bool" where
  "hub_inv h \<longleftrightarrow>
     options_ok (h_options h) \<and> \<not> h_panic h \<and> ops_ok (h_entries h) (h_ops h) \<and>
     (\<forall>a < length (h_entries h). e_worker (h_entries h ! a) \<longrightarrow>
        map_of (h_ops h) (e_id (h_entries h ! a)) = Some a) \<and>
     h_active h = count_where e_worker (h_entries h) \<and> h_active h \<le> o_max_active (h_options h) \<and>
     h_subscribers h = count_where s_counted (h_subs h) \<and>
     h_subscribers h \<le> o_max_subs (h_options h) \<and>
     (\<forall>a < length (h_entries h). e_sub_count (h_entries h ! a) \<le> o_max_subs_per_op (h_options h)) \<and>
     (\<forall>i < length (h_subs h). s_entry (h_subs h ! i) < length (h_entries h)) \<and>
     (\<forall>a < length (h_entries h). cell_ok (h_options h) a (h_entries h ! a) (h_subs h) \<and>
        settled (h_entries h ! a)) \<and>
     prompts_ok h"

lemma hub_invD:
  assumes "hub_inv h"
  shows "options_ok (h_options h)" and "\<not> h_panic h" and "ops_ok (h_entries h) (h_ops h)"
    and "\<And>a. a < length (h_entries h) \<Longrightarrow> cell_ok (h_options h) a (h_entries h ! a) (h_subs h)"
    and "\<And>a. a < length (h_entries h) \<Longrightarrow> settled (h_entries h ! a)"
    and "prompts_ok h"
    and "h_active h = count_where e_worker (h_entries h)"
    and "\<And>a. a < length (h_entries h) \<Longrightarrow> e_worker (h_entries h ! a) \<Longrightarrow>
        map_of (h_ops h) (e_id (h_entries h ! a)) = Some a"
  using assms by (auto simp: hub_inv_def)

lemma cell_ok_log: "cell_ok o1 a e subs \<Longrightarrow> log_ok o1 e"
  by (simp add: cell_ok_def)

lemma cell_ok_entry: "cell_ok o1 a e subs \<Longrightarrow> entry_ok e"
  by (simp add: cell_ok_def)

lemma map_of_ops_less: "ops_ok es ops \<Longrightarrow> map_of ops k = Some a \<Longrightarrow> a < length es \<and> e_id (es ! a) = k"
  by (auto simp: ops_ok_def dest!: map_of_SomeD)

text \<open>Channels of other operations do not see a change of one cell.\<close>

lemma cell_ok_other:
  assumes ok: "cell_ok o1 b e subs" and fr: "frame a ea subs ea' subs'" and ne: "b \<noteq> a"
  shows "cell_ok o1 b e subs'"
proof -
  note n = frame_nth [OF fr]
  have len: "length subs' = length subs" using fr by (simp add: frame_def)
  have "\<forall>i < length subs. s_entry (subs ! i) = b \<longrightarrow> chan_ok e i (subs' ! i)"
    using ok ne n(5) by (auto simp: cell_ok_def)
  with ok len show ?thesis
    unfolding cell_ok_def using frame_counts(1) [OF fr, of b] n(1) by auto
qed

lemma put_cell_inv:
  assumes inv: "hub_inv h" and a: "a < length (h_entries h)"
    and ok: "cell_ok (h_options h) a e' subs'" and set: "settled e'"
    and fr: "frame a (h_entries h ! a) (h_subs h) e' subs'"
  shows "hub_inv (put_cell a (e', subs', False) h)"
proof -
  let ?h = "put_cell a (e', subs', False) h"
  have len: "length subs' = length (h_subs h)" using fr by (simp add: frame_def)
  have same: "e_id e' = e_id (h_entries h ! a)" "e_worker e' = e_worker (h_entries h ! a)"
    "e_sub_count e' = e_sub_count (h_entries h ! a)"
    "e_prompt e' = e_prompt (h_entries h ! a) \<or> e_prompt e' = None"
    using fr by (auto simp: frame_def)
  have nth: "h_entries ?h ! b = (if b = a then e' else h_entries h ! b)"
    and lenE: "length (h_entries ?h) = length (h_entries h)" for b
    using a by (auto simp: put_cell_def nth_list_update_cases)
  have rest: "h_subs ?h = subs'" "h_options ?h = h_options h" "h_ops ?h = h_ops h"
    "h_active ?h = h_active h" "h_subscribers ?h = h_subscribers h" "h_panic ?h = False"
    "h_prompts ?h = h_prompts h"
    by (simp_all add: put_cell_def)
  have "ops_ok (h_entries ?h) (h_ops ?h)"
    using hub_invD(3) [OF inv] unfolding ops_ok_def rest lenE nth
    by (auto simp: same split: if_splits)
  moreover have "count_where e_worker (h_entries ?h) = count_where e_worker (h_entries h)"
    unfolding put_cell_def using same by (simp add: count_where_update_same)
  moreover have "\<forall>b < length (h_entries ?h). cell_ok (h_options h) b (h_entries ?h ! b) subs'
      \<and> settled (h_entries ?h ! b)"
    using inv ok set cell_ok_other [OF _ fr] unfolding nth lenE hub_inv_def by auto
  moreover have "prompts_ok ?h"
    using hub_invD(6) [OF inv] same(4) a unfolding prompts_ok_def nth lenE rest by auto
  moreover have "\<forall>i < length subs'. s_entry (subs' ! i) < length (h_entries h)"
    using inv frame_nth(1) [OF fr] len unfolding hub_inv_def by auto
  ultimately show ?thesis
    using inv same frame_counts(2) [OF fr] unfolding hub_inv_def rest lenE nth
    by (auto split: if_splits)
qed

lemma hub_inv_prunes:
  assumes inv: "hub_inv h" and pr: "prunes (h_entries h) (h_ops h) ops'"
  shows "hub_inv (h\<lparr>h_ops := ops'\<rparr>)"
proof -
  have "ops_ok (h_entries h) ops'" using prunes_ops_ok [OF pr] inv by (simp add: hub_inv_def)
  moreover have "map_of ops' (e_id (h_entries h ! a)) = Some a"
    if "a < length (h_entries h)" and "e_worker (h_entries h ! a)" for a
    using prunes_lookup [OF pr hub_invD(3) [OF inv] hub_invD(8) [OF inv that]] that by blast
  ultimately show ?thesis using inv by (simp add: hub_inv_def prompts_ok_def)
qed

lemma hub_inv_prune_completed: "hub_inv h \<Longrightarrow> hub_inv (prune_completed h)"
  unfolding prune_completed_def
  by (rule hub_inv_prunes) (simp_all add: prune_loop_prunes hub_invD(3))

lemma prunes_expired:
  "prunes es ops (filter (\<lambda>(k, a). \<not> expired o1 now (es ! a)) ops)"
  unfolding prunes_def
  by (rule exI [of _ "\<lambda>(k, a). \<not> expired o1 now (es ! a)"]) (auto simp: expired_def)

lemma prune_prunes:
  assumes "ops_ok (h_entries h) (h_ops h)"
  shows "prunes (h_entries h) (h_ops h) (h_ops (prune now h))"
proof -
  let ?ops = "filter (\<lambda>(k, a). \<not> expired (h_options h) now (h_entries h ! a)) (h_ops h)"
  have "prunes (h_entries h) (h_ops h) ?ops" by (rule prunes_expired)
  moreover have "prunes (h_entries h) ?ops (h_ops (prune now h))"
    using assms by (simp add: prune_def prune_completed_def prune_loop_prunes ops_ok_delete)
  ultimately show ?thesis by (rule prunes_trans)
qed

lemma prune_fields [simp]:
  "h_entries (prune now h) = h_entries h" "h_subs (prune now h) = h_subs h"
  "h_options (prune now h) = h_options h" "h_prompts (prune now h) = h_prompts h"
  "h_active (prune now h) = h_active h" "h_subscribers (prune now h) = h_subscribers h"
  "h_draining (prune now h) = h_draining h" "h_drain_deadline (prune now h) = h_drain_deadline h"
  "h_gate (prune now h) = h_gate h" "h_panic (prune now h) = h_panic h"
  "h_entries (prune_completed h) = h_entries h" "h_subs (prune_completed h) = h_subs h"
  "h_options (prune_completed h) = h_options h" "h_prompts (prune_completed h) = h_prompts h"
  "h_active (prune_completed h) = h_active h"
  "h_subscribers (prune_completed h) = h_subscribers h"
  "h_draining (prune_completed h) = h_draining h" "h_gate (prune_completed h) = h_gate h"
  "h_panic (prune_completed h) = h_panic h"
  by (simp_all add: prune_def prune_completed_def)

lemma hub_inv_prune: "hub_inv h \<Longrightarrow> hub_inv (prune now h)"
proof -
  assume inv: "hub_inv h"
  have "prune now h = h\<lparr>h_ops := h_ops (prune now h)\<rparr>" by (simp add: prune_def prune_completed_def)
  then show "hub_inv (prune now h)"
    using hub_inv_prunes [OF inv prune_prunes [OF hub_invD(3) [OF inv], of now]] by metis
qed

end
