(* ===== verification/Op_Hub_Steps.thy ===== *)
theory Op_Hub_Steps
  imports Op_Hub_Inv
begin

text \<open>
  Every method of the hub keeps the invariant, and what each does to the workers and to the
  reservations they hold.
\<close>

subsection \<open>Updates of one part\<close>

lemma hub_inv_gate [simp]: "hub_inv (h\<lparr>h_gate := g\<rparr>) = hub_inv h"
  by (simp add: hub_inv_def prompts_ok_def)

lemma hub_inv_drain [simp]:
  "hub_inv (h\<lparr>h_draining := d\<rparr>) = hub_inv h" "hub_inv (h\<lparr>h_drain_deadline := t\<rparr>) = hub_inv h"
  by (simp_all add: hub_inv_def prompts_ok_def)

lemma hub_inv_run_release [simp]: "hub_inv (run_release r h) = hub_inv h"
  by (cases r) (simp_all add: run_release_def)

lemma entry_update_inv:
  assumes inv: "hub_inv h" and a: "a < length (h_entries h)"
    and ok: "cell_ok (h_options h) a e' (h_subs h)" and set: "settled e'"
    and fr: "frame a (h_entries h ! a) (h_subs h) e' (h_subs h)"
  shows "hub_inv (h\<lparr>h_entries := (h_entries h)[a := e']\<rparr>)"
proof -
  have "put_cell a (e', h_subs h, False) h = h\<lparr>h_entries := (h_entries h)[a := e']\<rparr>"
    using hub_invD(2) [OF inv] by (simp add: put_cell_def)
  with put_cell_inv [OF inv a ok set fr] show ?thesis by simp
qed

lemma prompts_update_inv:
  assumes inv: "hub_inv h" and len: "length ps = length (h_prompts h)"
    and ok: "\<forall>p < length ps. length (p_responses (ps ! p)) \<le> 1 \<and>
        (\<not> p_responded (ps ! p) \<longrightarrow> p_responses (ps ! p) = [])"
  shows "hub_inv (h\<lparr>h_prompts := ps\<rparr>)"
  using assms by (auto simp: hub_inv_def prompts_ok_def)

subsection \<open>The cell of an operation\<close>

lemma put_get_cell [simp]: "put_cell a (get_cell a h) h = h"
  by (cases "a < length (h_entries h)") (simp_all add: put_cell_def get_cell_def list_update_beyond)

lemma put_put_cell [simp]: "put_cell a c (put_cell a d h) = put_cell a c h"
  by (cases c; cases d) (simp add: put_cell_def)

lemma get_put_cell [simp]:
  "a < length (h_entries h) \<Longrightarrow> get_cell a (put_cell a c h) = c"
  by (cases c) (simp add: put_cell_def get_cell_def)

lemma put_cell_fields [simp]:
  "h_options (put_cell a c h) = h_options h" "h_ops (put_cell a c h) = h_ops h"
  "h_gate (put_cell a c h) = h_gate h" "h_prompts (put_cell a c h) = h_prompts h"
  "h_draining (put_cell a c h) = h_draining h" "h_active (put_cell a c h) = h_active h"
  "length (h_entries (put_cell a c h)) = length (h_entries h)"
  "h_entries (put_cell a c h) = (h_entries h)[a := fst c]"
  by (cases c, simp add: put_cell_def)+

lemma get_cell_inv:
  assumes "hub_inv h"
  shows "get_cell a h = (h_entries h ! a, h_subs h, False)"
  using hub_invD(2) [OF assms] by (simp add: get_cell_def)

text \<open>What no method does to an operation that exists: change its identity, its worker or the
  reservation it holds (only its worker's last step does), take an event out of its log, make it
  live again, or add to its log once it is terminal.\<close>

definition evolves :: "op_entry \<Rightarrow> op_entry \<Rightarrow> bool" where
  "evolves e e' \<longleftrightarrow> e_id e' = e_id e \<and> e_digest e' = e_digest e \<and> prefix (e_events e) (e_events e') \<and>
     (e_terminal e \<longrightarrow> e_terminal e' \<and> e_events e' = e_events e)"

definition same_workers :: "hub \<Rightarrow> hub \<Rightarrow> bool" where
  "same_workers h h' \<longleftrightarrow>
     length (h_entries h') = length (h_entries h) \<and> h_gate h' = h_gate h \<and>
     h_options h' = h_options h \<and>
     (\<forall>a. e_worker (h_entries h' ! a) = e_worker (h_entries h ! a) \<and>
          e_release (h_entries h' ! a) = e_release (h_entries h ! a) \<and>
          evolves (h_entries h ! a) (h_entries h' ! a))"

lemma evolves_refl [simp]: "evolves e e"
  by (simp add: evolves_def)

lemma evolves_trans: "evolves e1 e2 \<Longrightarrow> evolves e2 e3 \<Longrightarrow> evolves e1 e3"
  by (auto simp: evolves_def)

lemma evolves_update:
  "e_id e' = e_id e \<Longrightarrow> e_digest e' = e_digest e \<Longrightarrow> e_events e' = e_events e \<Longrightarrow>
     e_terminal e' = e_terminal e \<Longrightarrow> evolves e e'"
  by (simp add: evolves_def)

lemma same_workers_refl [simp]: "same_workers h h"
  by (simp add: same_workers_def)

lemma same_workers_trans: "same_workers h1 h2 \<Longrightarrow> same_workers h2 h3 \<Longrightarrow> same_workers h1 h3"
  by (auto simp: same_workers_def intro: evolves_trans)

lemma same_workers_eq:
  "h_entries h' = h_entries h \<Longrightarrow> h_gate h' = h_gate h \<Longrightarrow> h_options h' = h_options h \<Longrightarrow>
     same_workers h h'"
  by (simp add: same_workers_def)

lemma same_workers_put:
  "frame a (h_entries h ! a) s (fst c) s' \<Longrightarrow> same_workers h (put_cell a c h)"
  by (auto simp: same_workers_def nth_list_update_cases frame_def evolves_def)

lemma same_workers_update:
  "e_worker e = e_worker (h_entries h ! a) \<Longrightarrow> e_release e = e_release (h_entries h ! a) \<Longrightarrow>
     e_id e = e_id (h_entries h ! a) \<Longrightarrow> e_digest e = e_digest (h_entries h ! a) \<Longrightarrow>
     e_events e = e_events (h_entries h ! a) \<Longrightarrow> e_terminal e = e_terminal (h_entries h ! a) \<Longrightarrow>
     same_workers h (h\<lparr>h_entries := (h_entries h)[a := e]\<rparr>)"
  by (auto simp: same_workers_def nth_list_update_cases evolves_def)

lemma same_workers_prune [simp]:
  "same_workers h (prune_completed h') = same_workers h h'"
  "same_workers h (prune now h') = same_workers h h'"
  by (simp_all add: same_workers_def)

subsection \<open>Appending and terminating\<close>

lemma mark_terminal_locked_inv:
  assumes inv: "hub_inv h" and a: "a < length (h_entries h)"
  shows "hub_inv (mark_terminal_locked a now h) \<and> same_workers h (mark_terminal_locked a now h) \<and>
     e_terminal (h_entries (mark_terminal_locked a now h) ! a) \<and>
     e_events (h_entries (mark_terminal_locked a now h) ! a) = e_events (h_entries h ! a)"
proof (cases "e_terminal (h_entries h ! a)")
  case True
  with inv show ?thesis by (simp add: mark_terminal_locked_def)
next
  case False
  obtain e s p where m: "mark_terminal now (h_entries h ! a, h_subs h, False) = (e, s, p)"
    by (metis prod_cases3)
  note t = mark_terminal_ok [OF hub_invD(4) [OF inv a] False m]
  have "settled e" using t(4) by (simp add: settled_def)
  then have "hub_inv (put_cell a (e, s, p) h)" using put_cell_inv [OF inv a t(1) _ t(2)] t(3) by simp
  with False a t same_workers_put [of a h "h_subs h" "(e, s, p)" s] show ?thesis
    by (simp add: mark_terminal_locked_def get_cell_inv [OF inv] m hub_inv_prune_completed)
qed

lemma terminate_capacity_locked_inv:
  assumes inv: "hub_inv h" and a: "a < length (h_entries h)"
  shows "hub_inv (terminate_capacity_locked a now h) \<and>
     same_workers h (terminate_capacity_locked a now h) \<and>
     e_terminal (h_entries (terminate_capacity_locked a now h) ! a) \<and>
     (\<not> e_terminal (h_entries h ! a) \<longrightarrow> closed_log (h_options h) (h_entries h ! a)
        (h_entries (terminate_capacity_locked a now h) ! a))"
proof (cases "e_terminal (h_entries h ! a)")
  case True
  with inv show ?thesis by (simp add: terminate_capacity_locked_def)
next
  case False
  have pos: "0 < o_max_bytes (h_options h)" using hub_invD(1) [OF inv] by (simp add: options_ok_def)
  obtain e s p where m: "terminate_capacity (h_options h) now (h_entries h ! a, h_subs h, False) = (e, s, p)"
    by (metis prod_cases3)
  note t = terminate_capacity_ok [OF hub_invD(4) [OF inv a] False hub_invD(5) [OF inv a] pos m]
  have "settled e" using t(4) by (simp add: settled_def)
  then have "hub_inv (put_cell a (e, s, p) h)" using put_cell_inv [OF inv a t(1) _ t(2)] t(3) by simp
  with False a t same_workers_put [of a h "h_subs h" "(e, s, p)" s] show ?thesis
    by (simp add: terminate_capacity_locked_def get_cell_inv [OF inv] m hub_inv_prune_completed)
qed

text \<open>
  \<open>appendLocked\<close> on a live operation. A successful completion leaves its log closed and the
  operation live, so the invariant holds again only after it is marked terminal, as every caller
  does next.
\<close>

lemma append_locked_inv:
  assumes inv: "hub_inv h" and a: "a < length (h_entries h)" and live: "\<not> e_terminal (h_entries h ! a)"
    and r: "append_locked a now ev h = (h', err)"
  shows "same_workers h h'"
    and "err \<noteq> None \<or> ev_kind ev \<noteq> Complete \<Longrightarrow> hub_inv h'"
    and "err = None \<Longrightarrow> hub_inv (mark_terminal_locked a now h') \<and>
           same_workers h' (mark_terminal_locked a now h') \<and>
           e_terminal (h_entries (mark_terminal_locked a now h') ! a) \<and>
           e_events (h_entries (mark_terminal_locked a now h') ! a) = e_events (h_entries h' ! a) \<and>
           \<not> e_terminal (h_entries h' ! a) \<and>
           (\<exists>re. e_events (h_entries h' ! a) = e_events (h_entries h ! a) @ [re] \<and>
              re_kind re = ev_kind ev)"
    and "err \<noteq> None \<Longrightarrow> e_terminal (h_entries h' ! a) \<and>
           closed_log (h_options h) (h_entries h ! a) (h_entries h' ! a) \<or> h' = h"
    and "h_prompts h' = h_prompts h"
    and "e_prompt (h_entries h' ! a) = e_prompt (h_entries h ! a) \<or> e_prompt (h_entries h' ! a) = None"
proof -
  have pos: "0 < o_max_bytes (h_options h)" using hub_invD(1) [OF inv] by (simp add: options_ok_def)
  obtain e s p t where m: "append_cell (h_options h) now ev (h_entries h ! a, h_subs h, False) = ((e, s, p), err, t)"
    and h': "h' = (if t then prune_completed (put_cell a (e, s, p) h) else put_cell a (e, s, p) h)"
    using r by (auto simp: append_locked_def get_cell_inv [OF inv] Let_def split: prod.splits)
  note ok = append_cell_ok [OF hub_invD(4) [OF inv a] live hub_invD(5) [OF inv a] pos m]
  have cell: "cell_ok (h_options h) a e s" and fr: "frame a (h_entries h ! a) (h_subs h) e s"
    and p: "p = False" using ok by auto
  have sw: "same_workers h (put_cell a (e, s, p) h)"
    using same_workers_put [of a h "h_subs h" "(e, s, p)" s] fr by simp
  show "same_workers h h'" using sw by (simp add: h')
  have ent: "h_entries h' ! a = e" using a by (simp add: h')
  show "h_prompts h' = h_prompts h" by (simp add: h')
  show "e_prompt (h_entries h' ! a) = e_prompt (h_entries h ! a) \<or> e_prompt (h_entries h' ! a) = None"
    using fr by (simp add: ent frame_def)
  show "hub_inv h'" if "err \<noteq> None \<or> ev_kind ev \<noteq> Complete"
  proof -
    have "settled e"
      using ok that hub_invD(5) [OF inv a] by (cases t; cases err) (auto simp: settled_def)
    then have "hub_inv (put_cell a (e, s, p) h)" using put_cell_inv [OF inv a cell _ fr] p by simp
    then show ?thesis by (simp add: h' hub_inv_prune_completed)
  qed
  show "e_terminal (h_entries h' ! a) \<and>
      closed_log (h_options h) (h_entries h ! a) (h_entries h' ! a) \<or> h' = h" if "err \<noteq> None"
  proof (cases t)
    case True
    with ok ent show ?thesis by simp
  next
    case False
    with ok that have "(e, s, p) = get_cell a h" by (simp add: get_cell_inv [OF inv])
    with False show ?thesis by (simp add: h')
  qed
  assume none: "err = None"
  then have nt: "\<not> t" and live': "\<not> e_terminal e" using ok by auto
  obtain e2 s2 p2 where m2: "mark_terminal now (e, s, p) = (e2, s2, p2)" by (metis prod_cases3)
  note mt = mark_terminal_ok [OF cell live' m2]
  have "frame a (h_entries h ! a) (h_subs h) e2 s2" using frame_trans [OF fr mt(2)] .
  moreover have "settled e2" using mt(4) by (simp add: settled_def)
  ultimately have "hub_inv (put_cell a (e2, s2, p2) h)"
    using put_cell_inv [OF inv a mt(1)] mt(3) p by simp
  moreover have "mark_terminal_locked a now h' = prune_completed (put_cell a (e2, s2, p2) h)"
    using nt live' a by (simp add: mark_terminal_locked_def ent) (simp add: h' m2)
  moreover have "same_workers h' (put_cell a (e2, s2, p2) h)"
    using same_workers_put [of a h' s "(e2, s2, p2)" s2] mt(2) nt ent by (simp add: h')
  ultimately show "hub_inv (mark_terminal_locked a now h') \<and>
           same_workers h' (mark_terminal_locked a now h') \<and>
           e_terminal (h_entries (mark_terminal_locked a now h') ! a) \<and>
           e_events (h_entries (mark_terminal_locked a now h') ! a) = e_events (h_entries h' ! a) \<and>
           \<not> e_terminal (h_entries h' ! a) \<and>
           (\<exists>re. e_events (h_entries h' ! a) = e_events (h_entries h ! a) @ [re] \<and>
              re_kind re = ev_kind ev)"
    using ok none a mt(4,5) live' ent by (simp add: hub_inv_prune_completed)
qed

subsection \<open>The worker's methods\<close>

text \<open>How \<open>finish\<close> leaves the log: closed by a completion, unless even the capacity event does not
  fit in the bytes that are left.\<close>

definition ended_log :: "hub_options \<Rightarrow> op_entry \<Rightarrow> op_entry \<Rightarrow> bool" where
  "ended_log o1 e e' \<longleftrightarrow> closed_log o1 e e' \<or>
     (\<exists>re. e_events e' = e_events e @ [re] \<and> re_kind re = Complete)"

lemma finish_inv:
  assumes inv: "hub_inv h" and a: "a < length (h_entries h)"
  shows "hub_inv (finish a now result err h) \<and> same_workers h (finish a now result err h) \<and>
     e_terminal (h_entries (finish a now result err h) ! a) \<and>
     (\<not> e_terminal (h_entries h ! a) \<longrightarrow>
        ended_log (h_options h) (h_entries h ! a) (h_entries (finish a now result err h) ! a))"
proof (cases "e_terminal (h_entries h ! a)")
  case True
  with inv show ?thesis by (simp add: finish_def)
next
  case live: False
  define ev where "ev = (case err of
      None \<Rightarrow> (blank_event Complete)\<lparr>ev_result := (if err = None \<and> result = None then Some ''{}'' else result)\<rparr>
    | Some e \<Rightarrow> (blank_event Complete)\<lparr>ev_failure :=
        Some (operation_failure (o_format_time (h_options h)) (o_parses_time (h_options h)) e)\<rparr>)"
  define fev where "fev x = (blank_event Complete)\<lparr>ev_failure := Some (public_descriptor
      (o_format_time (h_options h)) (o_parses_time (h_options h))
      (Wrapped ''publish operation completion: '' x))\<rparr>" for x
  obtain h1 e1 where r1: "append_locked a now ev h = (h1, e1)" by fastforce
  note s1 = append_locked_inv [OF inv a live r1]
  note sw1 = s1(1)
  have kind1: "ev_kind ev = Complete" "ev_kind (fev x) = Complete" for x
    by (simp_all add: ev_def fev_def blank_event_def split: option.split)
  have fin: "finish a now result err h =
      (let h2 = (case e1 of None \<Rightarrow> h1
         | Some x \<Rightarrow> if e_terminal (h_entries h1 ! a) then h1
             else (case append_locked a now (fev x) h1 of (h', e2) \<Rightarrow>
                 if e2 \<noteq> None \<and> \<not> e_terminal (h_entries h' ! a)
                 then terminate_capacity_locked a now h' else h'))
       in if e_terminal (h_entries h2 ! a) then h2 else mark_terminal_locked a now h2)"
    unfolding finish_def Let_def ev_def [symmetric] fev_def
    by (simp only: live if_False r1 prod.case not_False_eq_True)
  show ?thesis
  proof (cases e1)
    case None
    with s1(3) sw1 kind1 show ?thesis
      by (auto simp: fin Let_def ended_log_def intro: same_workers_trans)
  next
    case (Some x)
    show ?thesis
    proof (cases "e_terminal (h_entries h1 ! a)")
      case True
      with Some s1(2,4) sw1 live show ?thesis by (auto simp: fin ended_log_def)
    next
      case False
      with Some s1(4) have h1: "h1 = h" by simp
      obtain h2 e2 where r2: "append_locked a now (fev x) h = (h2, e2)" by fastforce
      note s2 = append_locked_inv [OF inv a live r2]
      show ?thesis
      proof (cases "e2 = None")
        case True
        with s2(1,3) Some live r2 kind1 show ?thesis
          by (auto simp: fin h1 Let_def ended_log_def intro: same_workers_trans)
      next
        case bad: False
        have a2: "a < length (h_entries h2)" using s2(1) a by (simp add: same_workers_def)
        have inv2: "hub_inv h2" using s2(2) bad by simp
        show ?thesis
          using terminate_capacity_locked_inv [OF inv2 a2, of now] inv2 s2(1,4) bad Some live r2
          by (auto simp: fin h1 Let_def ended_log_def intro: same_workers_trans)
      qed
    qed
  qed
qed

lemma emit_inv:
  assumes inv: "hub_inv h" and a: "a < length (h_entries h)" and kind: "kind \<noteq> Complete"
  shows "hub_inv (fst (emit a now kind msg h)) \<and> same_workers h (fst (emit a now kind msg h))"
proof (cases "e_terminal (h_entries h ! a)")
  case True
  with inv show ?thesis by (simp add: emit_def)
next
  case False
  obtain h' e where r: "append_locked a now ((blank_event kind)\<lparr>ev_message := msg\<rparr>) h = (h', e)"
    by fastforce
  from append_locked_inv(1,2) [OF inv a False r] kind False r show ?thesis
    by (simp add: emit_def blank_event_def)
qed

lemma chan_ok_entry:
  "e_events e' = e_events e \<Longrightarrow> e_subs e' = e_subs e \<Longrightarrow> e_terminal e' = e_terminal e \<Longrightarrow>
     chan_ok e' i s = chan_ok e i s"
  by (simp add: chan_ok_def wanted_def)

text \<open>Changes of the fields no other part of the invariant reads.\<close>

lemma cell_ok_soft:
  assumes "cell_ok o1 a e subs"
  shows "\<not> e_terminal e \<or> p = None \<Longrightarrow> cell_ok o1 a (e\<lparr>e_prompt := p\<rparr>) subs"
    and "cell_ok o1 a (e\<lparr>e_cancelled := True\<rparr>) subs"
  using assms by (auto simp: cell_ok_def log_ok_def entry_ok_def chan_ok_def wanted_def)

lemma clear_prompt_inv:
  assumes inv: "hub_inv h" and a: "a < length (h_entries h)"
  shows "hub_inv (h\<lparr>h_entries := (h_entries h)[a := (h_entries h ! a)\<lparr>e_prompt := None\<rparr>]\<rparr>)"
  by (rule entry_update_inv [OF inv a])
     (use hub_invD(4,5) [OF inv a] in \<open>auto simp: cell_ok_soft settled_def frame_def\<close>)

lemma open_prompt_inv:
  assumes inv: "hub_inv h" and a: "a < length (h_entries h)"
  shows "hub_inv (fst (open_prompt a now ids prompt h)) \<and>
     same_workers h (fst (open_prompt a now ids prompt h))"
proof -
  consider (err) x where "open_prompt a now ids prompt h = (h, Inl x)"
    | (ok) i where "ids = Inr i" "i \<noteq> []" "\<not> e_terminal (h_entries h ! a)"
        "e_prompt (h_entries h ! a) = None"
  proof (cases "\<exists>i. ids = Inr i \<and> i \<noteq> [] \<and> \<not> e_terminal (h_entries h ! a) \<and>
      e_prompt (h_entries h ! a) = None")
    case True
    with that(2) show ?thesis by blast
  next
    case False
    then have "\<exists>x. open_prompt a now ids prompt h = (h, Inl x)"
      by (cases ids) (auto simp: open_prompt_def)
    with that(1) show ?thesis by blast
  qed
  then show ?thesis
  proof cases
    case (err x)
    with inv show ?thesis by simp
  next
    case (ok i)
    let ?p = "length (h_prompts h)"
    let ?e1 = "(h_entries h ! a)\<lparr>e_prompt := Some ?p\<rparr>"
    define h1 where "h1 = h\<lparr>h_prompts := h_prompts h @ [\<lparr>p_id = i, p_responses = [], p_responded = False\<rparr>],
        h_entries := (h_entries h)[a := ?e1]\<rparr>"
    have nth1: "h_entries h1 ! b = (if b = a then ?e1 else h_entries h ! b)" for b
      using a by (simp add: h1_def nth_list_update_cases)
    have inv1: "hub_inv h1"
      unfolding hub_inv_def
    proof (intro conjI)
      show "ops_ok (h_entries h1) (h_ops h1)"
        using hub_invD(3) [OF inv] unfolding ops_ok_def nth1 by (auto simp: h1_def)
      show "\<forall>b < length (h_entries h1). e_worker (h_entries h1 ! b) \<longrightarrow>
          map_of (h_ops h1) (e_id (h_entries h1 ! b)) = Some b"
        using hub_invD(8) [OF inv] unfolding nth1 by (auto simp: h1_def)
      show "h_active h1 = count_where e_worker (h_entries h1)"
        using hub_invD(7) [OF inv] by (simp add: h1_def count_where_update_same)
      show "prompts_ok h1"
        using hub_invD(6) [OF inv] unfolding prompts_ok_def nth1
        by (auto simp: h1_def nth_append less_Suc_eq)
      show "\<forall>b < length (h_entries h1). cell_ok (h_options h1) b (h_entries h1 ! b) (h_subs h1) \<and>
          settled (h_entries h1 ! b)"
        using hub_invD(4,5) [OF inv] ok(3) unfolding nth1
        by (auto simp: h1_def cell_ok_soft settled_def)
      show "\<forall>b < length (h_entries h1).
          e_sub_count (h_entries h1 ! b) \<le> o_max_subs_per_op (h_options h1)"
        using inv a unfolding nth1 by (auto simp: h1_def hub_inv_def)
    qed (use inv in \<open>auto simp: h1_def hub_inv_def\<close>)
    have a1: "a < length (h_entries h1)" using a by (simp add: h1_def)
    have live1: "\<not> e_terminal (h_entries h1 ! a)" using ok by (simp add: nth1)
    have sw: "same_workers h h1"
      unfolding same_workers_def nth1 by (auto simp: h1_def evolves_def)
    obtain h2 e2 where r: "append_locked a now
        ((blank_event Prompt)\<lparr>ev_prompt := Some (prompt\<lparr>pr_id := i\<rparr>)\<rparr>) h1 = (h2, e2)" by fastforce
    note s = append_locked_inv(1,2) [OF inv1 a1 live1 r]
    have inv2: "hub_inv h2" using s(2) by (simp add: blank_event_def)
    have a2: "a < length (h_entries h2)" using s(1) a1 by (simp add: same_workers_def)
    have op: "fst (open_prompt a now ids prompt h) = h2 \<or>
        fst (open_prompt a now ids prompt h) =
          h2\<lparr>h_entries := (h_entries h2)[a := (h_entries h2 ! a)\<lparr>e_prompt := None\<rparr>]\<rparr>"
      using ok r by (auto simp: open_prompt_def Let_def h1_def [symmetric] split: option.splits)
    have sw2: "same_workers h h2" using sw s(1) by (rule same_workers_trans)
    have "same_workers h2 (h2\<lparr>h_entries := (h_entries h2)[a := (h_entries h2 ! a)\<lparr>e_prompt := None\<rparr>]\<rparr>)"
      by (rule same_workers_update) simp_all
    with sw2 op inv2 clear_prompt_inv [OF inv2 a2] show ?thesis
      by (metis same_workers_trans)
  qed
qed

lemma close_prompt_inv:
  assumes inv: "hub_inv h" and a: "a < length (h_entries h)"
  shows "hub_inv (close_prompt a p h) \<and> same_workers h (close_prompt a p h)"
  using clear_prompt_inv [OF assms] inv by (simp add: close_prompt_def same_workers_update)

lemma take_response_inv:
  assumes inv: "hub_inv h"
  shows "hub_inv (fst (take_response p h)) \<and> same_workers h (fst (take_response p h))"
proof (cases "p_responses (h_prompts h ! p)")
  case Nil
  with inv show ?thesis by (simp add: take_response_def)
next
  case (Cons r rs)
  let ?ps = "(h_prompts h)[p := (h_prompts h ! p)\<lparr>p_responses := rs\<rparr>]"
  have "hub_inv (h\<lparr>h_prompts := ?ps\<rparr>)"
  proof (rule prompts_update_inv [OF inv])
    show "\<forall>q < length ?ps. length (p_responses (?ps ! q)) \<le> 1 \<and>
        (\<not> p_responded (?ps ! q) \<longrightarrow> p_responses (?ps ! q) = [])"
      using hub_invD(6) [OF inv] Cons by (fastforce simp: prompts_ok_def nth_list_update_cases)
  qed simp
  then show ?thesis by (simp add: take_response_def Cons same_workers_eq)
qed

subsection \<open>What clients call\<close>

text \<open>A response never blocks the hub: its channel is empty until the prompt is answered.\<close>

lemma respond_cases:
  obtains (plain) e where "respond op r h = Some (h, Some e)"
    | (send) a p where "map_of (h_ops h) op = Some a" "\<not> e_terminal (h_entries h ! a)"
        "e_prompt (h_entries h ! a) = Some p" "p_id (h_prompts h ! p) = rs_prompt r"
        "\<not> p_responded (h_prompts h ! p)"
        "respond op r h = (if length (p_responses (h_prompts h ! p)) \<ge> 1 then None
          else Some (h\<lparr>h_prompts := (h_prompts h)[p := (h_prompts h ! p)\<lparr>p_responded := True,
             p_responses := p_responses (h_prompts h ! p) @ [r]\<rparr>]\<rparr>, None))"
proof (cases "\<exists>a p. validate_response r = None \<and> map_of (h_ops h) op = Some a \<and>
      \<not> e_terminal (h_entries h ! a) \<and> e_prompt (h_entries h ! a) = Some p \<and>
      p_id (h_prompts h ! p) = rs_prompt r \<and> \<not> p_responded (h_prompts h ! p)")
  case True
  then obtain a p where "validate_response r = None" "map_of (h_ops h) op = Some a"
    "\<not> e_terminal (h_entries h ! a)" "e_prompt (h_entries h ! a) = Some p"
    "p_id (h_prompts h ! p) = rs_prompt r" "\<not> p_responded (h_prompts h ! p)" by blast
  then show ?thesis by (intro send) (simp_all add: respond_def Let_def)
next
  case False
  then have "\<exists>e. respond op r h = Some (h, Some e)"
    unfolding respond_def Let_def
    by (cases "validate_response r"; cases "map_of (h_ops h) op") (auto split: option.split)
  with plain show ?thesis by blast
qed

lemma respond_inv:
  assumes inv: "hub_inv h"
  shows "\<exists>h' e. respond op r h = Some (h', e) \<and> hub_inv h' \<and> same_workers h h' \<and>
     h_entries h' = h_entries h"
proof (cases rule: respond_cases [of op r h])
  case (plain e)
  with inv show ?thesis by simp
next
  case (send a p)
  have "a < length (h_entries h)" using map_of_ops_less [OF hub_invD(3) [OF inv] send(1)] by simp
  then have p: "p < length (h_prompts h)" using hub_invD(6) [OF inv] send(3)
    by (auto simp: prompts_ok_def)
  then have empty: "p_responses (h_prompts h ! p) = []" using hub_invD(6) [OF inv] send(5)
    by (auto simp: prompts_ok_def)
  have "hub_inv (h\<lparr>h_prompts := (h_prompts h)[p := (h_prompts h ! p)\<lparr>p_responded := True,
             p_responses := p_responses (h_prompts h ! p) @ [r]\<rparr>]\<rparr>)"
    by (rule prompts_update_inv [OF inv])
       (use hub_invD(6) [OF inv] empty in \<open>auto simp: prompts_ok_def nth_list_update_cases\<close>)
  with send(6) empty show ?thesis by (simp add: same_workers_eq)
qed

lemma cancel_inv:
  assumes inv: "hub_inv h"
  shows "hub_inv (fst (cancel op h)) \<and> same_workers h (fst (cancel op h))"
proof (cases "map_of (h_ops h) op")
  case None
  with inv show ?thesis by (simp add: cancel_def)
next
  case (Some a)
  have a: "a < length (h_entries h)" using map_of_ops_less [OF hub_invD(3) [OF inv] Some] by simp
  have "hub_inv (h\<lparr>h_entries := (h_entries h)[a := (h_entries h ! a)\<lparr>e_cancelled := True\<rparr>]\<rparr>)"
    by (rule entry_update_inv [OF inv a])
       (use hub_invD(4,5) [OF inv a] in \<open>auto simp: cell_ok_soft settled_def frame_def\<close>)
  with Some inv show ?thesis by (simp add: cancel_def same_workers_update)
qed

lemma cancel_for_drain_inv:
  assumes inv: "hub_inv h" and a: "a < length (h_entries h)"
  shows "hub_inv (cancel_for_drain a now h) \<and> same_workers h (cancel_for_drain a now h) \<and>
     e_terminal (h_entries (cancel_for_drain a now h) ! a)"
proof (cases "e_terminal (h_entries h ! a)")
  case True
  with inv show ?thesis by (simp add: cancel_for_drain_def)
next
  case False
  obtain h1 err where r: "append_locked a now ((blank_event Complete)\<lparr>ev_failure := Some drain_failure\<rparr>) h
      = (h1, err)" by fastforce
  note s = append_locked_inv [OF inv a False r]
  show ?thesis
  proof (cases err)
    case None
    with s(1,3) r False show ?thesis
      by (auto simp: cancel_for_drain_def intro: same_workers_trans)
  next
    case (Some x)
    have a1: "a < length (h_entries h1)" using s(1) a by (simp add: same_workers_def)
    from mark_terminal_locked_inv [OF s(2) a1, of now] s(1,2) Some r False show ?thesis
      by (auto simp: cancel_for_drain_def intro: same_workers_trans)
  qed
qed

lemma cancel_each_inv:
  "hub_inv h \<Longrightarrow> hub_inv (cancel_each ops now h) \<and> same_workers h (cancel_each ops now h)"
proof (induction ops now h rule: cancel_each.induct)
  case (1 now h)
  then show ?case by simp
next
  case (2 k a ops now h)
  show ?case
  proof (cases "map_of (h_ops h) k = Some a")
    case True
    have a: "a < length (h_entries h)" using map_of_ops_less [OF hub_invD(3) [OF "2.prems"] True] by simp
    note c = cancel_for_drain_inv [OF "2.prems" a, of now]
    with 2 True show ?thesis by (simp add: same_workers_trans [of h "cancel_for_drain a now h"])
  next
    case False
    with 2 show ?thesis by simp
  qed
qed

lemma begin_hub_drain_inv: "hub_inv h \<Longrightarrow> hub_inv (begin_hub_drain t h) \<and> same_workers h (begin_hub_drain t h)"
  by (simp add: begin_hub_drain_def same_workers_eq)

lemma loss_timer_inv:
  assumes inv: "hub_inv h" and a: "a < length (h_entries h)"
  shows "hub_inv (loss_timer_fires a token h) \<and> same_workers h (loss_timer_fires a token h)"
proof (cases "e_loss_token (h_entries h ! a) = token")
  case False
  with inv show ?thesis by (simp add: loss_timer_fires_def)
next
  case True
  let ?e = "h_entries h ! a"
  let ?e1 = "if map_of (h_ops h) (e_id ?e) = Some a \<and> \<not> e_terminal ?e \<and> e_subs ?e = []
                  then ?e\<lparr>e_cancelled := True\<rparr> else ?e"
  have worker: "\<not> e_terminal ?e \<Longrightarrow> map_of (h_ops h) (e_id ?e) = Some a"
    using hub_invD(4,8) [OF inv a] by (simp add: cell_ok_def entry_ok_def)
  have "hub_inv (h\<lparr>h_entries := (h_entries h)[a := ?e1\<lparr>e_loss_timer := None\<rparr>]\<rparr>)"
  proof (rule entry_update_inv [OF inv a])
    show "cell_ok (h_options h) a (?e1\<lparr>e_loss_timer := None\<rparr>) (h_subs h)"
      using hub_invD(4) [OF inv a] worker
      by (auto simp: cell_ok_def log_ok_def entry_ok_def chan_ok_def wanted_def)
    show "settled (?e1\<lparr>e_loss_timer := None\<rparr>)" using hub_invD(5) [OF inv a] by (auto simp: settled_def)
    show "frame a ?e (h_subs h) (?e1\<lparr>e_loss_timer := None\<rparr>) (h_subs h)" by (simp add: frame_def)
  qed
  with True show ?thesis by (simp add: loss_timer_fires_def Let_def same_workers_update)
qed

lemma receive_inv:
  assumes inv: "hub_inv h" and i: "i < length (h_subs h)"
  shows "hub_inv (fst (receive i h)) \<and> same_workers h (fst (receive i h))"
proof (cases "s_queue (h_subs h ! i)")
  case Nil
  with inv show ?thesis by (simp add: receive_def)
next
  case (Cons re q)
  let ?s = "h_subs h ! i" let ?a = "s_entry ?s" let ?e = "h_entries h ! ?a"
  let ?subs = "(h_subs h)[i := ?s\<lparr>s_queue := q, s_received := s_received ?s @ [re]\<rparr>]"
  have a: "?a < length (h_entries h)" using inv i by (auto simp: hub_inv_def)
  have fr: "frame ?a ?e (h_subs h) ?e ?subs" by (auto simp: frame_def nth_list_update_cases)
  have chan: "chan_ok ?e j (?subs ! j)" if "j < length ?subs" and "s_entry (?subs ! j) = ?a" for j
  proof -
    have "chan_ok ?e j (h_subs h ! j)"
      using hub_invD(4) [OF inv a] that by (auto simp: cell_ok_def nth_list_update_cases split: if_splits)
    then show ?thesis
      using Cons by (auto simp: nth_list_update_cases chan_ok_def delivered_def wanted_def)
  qed
  have "cell_ok (h_options h) ?a ?e ?subs"
    using hub_invD(4) [OF inv a] frame_counts(1) [OF fr, of ?a] chan
    unfolding cell_ok_def by (simp add: nth_list_update_cases)
  note put = put_cell_inv [OF inv a this hub_invD(5) [OF inv a] fr]
  have "put_cell ?a (?e, ?subs, False) h = h\<lparr>h_subs := ?subs\<rparr>"
    by (rule hub.equality) (use hub_invD(2) [OF inv] in \<open>simp_all add: put_cell_def\<close>)
  with put have "hub_inv (h\<lparr>h_subs := ?subs\<rparr>)" by simp
  then show ?thesis by (simp add: receive_def Cons same_workers_eq Let_def)
qed

subsection \<open>Subscriptions\<close>

lemma log_ok_last_sequence: "log_ok o1 e \<Longrightarrow> last_sequence e = length (e_events e)"
proof -
  assume log: "log_ok o1 e"
  show ?thesis
  proof (cases "e_events e = []")
    case True
    then show ?thesis by (simp add: last_sequence_def)
  next
    case False
    then have "re_sequence (last (e_events e)) = last (map re_sequence (e_events e))"
      by (simp add: last_map)
    also have "\<dots> = length (e_events e)"
      using log False by (cases "length (e_events e)") (simp_all add: log_ok_def)
    finally show ?thesis using False by (simp add: last_sequence_def)
  qed
qed

lemma log_ok_first_sequence: "log_ok o1 e \<Longrightarrow> e_events e \<noteq> [] \<Longrightarrow> re_sequence (hd (e_events e)) = 1"
proof -
  assume "log_ok o1 e" and ne: "e_events e \<noteq> []"
  then have "hd (map re_sequence (e_events e)) = hd [1 ..< Suc (length (e_events e))]"
    by (simp add: log_ok_def)
  with ne show ?thesis by (simp add: hd_map upt_rec del: upt_Suc)
qed

text \<open>The outcomes of \<open>Subscribe\<close> when every log starts at 1.\<close>

lemma subscribe_cases:
  assumes inv: "hub_inv h0"
  obtains (refused) e where "subscribe op after now h0 = (prune now h0, Inl e)"
      "\<not> is_code e OperationOutcomeUnknown"
    | (attached) a where "map_of (h_ops (prune now h0)) op = Some a" "a < length (h_entries h0)"
      "after \<le> length (e_events (h_entries h0 ! a))"
      "e_sub_count (h_entries h0 ! a) < o_max_subs_per_op (h_options h0)"
      "h_subscribers h0 < o_max_subs (h_options h0)"
      "subscribe op after now h0 =
         (let e = h_entries h0 ! a; h = prune now h0; i = length (h_subs h0);
              replay = filter (\<lambda>re. re_sequence re > after) (e_events e);
              s = \<lparr>s_entry = a, s_queue = replay,
                   s_cap = length replay + nat (o_queue (h_options h0)) + 1,
                   s_closed = e_terminal e, s_counted = True, s_once = False,
                   s_after = after, s_received = []\<rparr>
          in (h\<lparr>h_subs := h_subs h0 @ [s],
                h_entries := (h_entries h0)[a := e\<lparr>e_loss_timer := None, e_subs := e_subs e @ [i],
                                                  e_sub_count := e_sub_count e + 1\<rparr>],
                h_subscribers := h_subscribers h0 + 1\<rparr>, Inr i))"
proof (cases "map_of (h_ops (prune now h0)) op")
  case None
  then show ?thesis
    by (intro refused, simp add: subscribe_def Let_def) (simp add: new_error_def is_code_def)
next
  case (Some a)
  have pinv: "hub_inv (prune now h0)" by (rule hub_inv_prune [OF inv])
  have a: "a < length (h_entries h0)" using map_of_ops_less [OF hub_invD(3) [OF pinv] Some] by simp
  have log: "log_ok (h_options h0) (h_entries h0 ! a)"
    using hub_invD(4) [OF inv a] by (simp add: cell_ok_def)
  note seq = log_ok_last_sequence [OF log]
  have gap: "(e_events (h_entries h0 ! a) \<noteq> [] \<and>
      after + 1 < re_sequence (hd (e_events (h_entries h0 ! a)))) = False"
    using log_ok_first_sequence [OF log] by auto
  consider "after > length (e_events (h_entries h0 ! a))"
    | "after \<le> length (e_events (h_entries h0 ! a))"
      "e_sub_count (h_entries h0 ! a) \<ge> o_max_subs_per_op (h_options h0)
             \<or> h_subscribers h0 \<ge> o_max_subs (h_options h0)"
    | "after \<le> length (e_events (h_entries h0 ! a))"
      "e_sub_count (h_entries h0 ! a) < o_max_subs_per_op (h_options h0)"
      "h_subscribers h0 < o_max_subs (h_options h0)" by linarith
  then show ?thesis
  proof cases
    case 1
    with Some show ?thesis
      by (intro refused, simp add: subscribe_def Let_def seq)
         (simp add: invalid_request_def new_error_def is_code_def)
  next
    case 2
    have "subscribe op after now h0 = (prune now h0, Inl (capacity_error
        ''daemon operation subscriber capacity is exhausted''))"
      unfolding subscribe_def Let_def Some option.case prune_fields seq gap if_False
      using 2 by simp
    then show ?thesis
      by (rule refused) (simp add: capacity_error_def new_error_def is_code_def)
  next
    case 3
    have sub: "subscribe op after now h0 =
         (let e = h_entries h0 ! a; h = prune now h0; i = length (h_subs h0);
              replay = filter (\<lambda>re. re_sequence re > after) (e_events e);
              s = \<lparr>s_entry = a, s_queue = replay,
                   s_cap = length replay + nat (o_queue (h_options h0)) + 1,
                   s_closed = e_terminal e, s_counted = True, s_once = False,
                   s_after = after, s_received = []\<rparr>
          in (h\<lparr>h_subs := h_subs h0 @ [s],
                h_entries := (h_entries h0)[a := e\<lparr>e_loss_timer := None, e_subs := e_subs e @ [i],
                                                  e_sub_count := e_sub_count e + 1\<rparr>],
                h_subscribers := h_subscribers h0 + 1\<rparr>, Inr i))"
      unfolding subscribe_def Let_def Some option.case prune_fields seq gap if_False
      using 3 by simp
    show ?thesis by (rule attached [OF Some a 3 sub])
  qed
qed

lemma subscribe_inv:
  assumes inv: "hub_inv h0"
  shows "hub_inv (fst (subscribe op after now h0)) \<and> same_workers h0 (fst (subscribe op after now h0))"
  using inv
proof (cases rule: subscribe_cases [of h0 op after now])
  case (refused e)
  then show ?thesis by (simp add: hub_inv_prune inv)
next
  case (attached a)
  let ?h = "prune now h0" let ?e = "h_entries h0 ! a" let ?i = "length (h_subs h0)"
  define replay where "replay = filter (\<lambda>re. re_sequence re > after) (e_events ?e)"
  define s where "s = \<lparr>s_entry = a, s_queue = replay,
       s_cap = length replay + nat (o_queue (h_options h0)) + 1,
       s_closed = e_terminal ?e, s_counted = True, s_once = False, s_after = after, s_received = []\<rparr>"
  define e' where "e' = ?e\<lparr>e_loss_timer := None, e_subs := e_subs ?e @ [?i],
                           e_sub_count := e_sub_count ?e + 1\<rparr>"
  define h' where "h' = ?h\<lparr>h_subs := h_subs h0 @ [s], h_entries := (h_entries h0)[a := e'],
       h_subscribers := h_subscribers h0 + 1\<rparr>"
  have res: "fst (subscribe op after now h0) = h'"
    using attached(6) by (simp add: Let_def h'_def e'_def s_def replay_def)
  have pinv: "hub_inv ?h" by (rule hub_inv_prune [OF inv])
  have a: "a < length (h_entries h0)" by (rule attached(2))
  have nth: "h_entries h' ! b = (if b = a then e' else h_entries h0 ! b)" for b
    using a by (simp add: h'_def nth_list_update_cases)
  have same: "e_id e' = e_id ?e" "e_worker e' = e_worker ?e" "e_prompt e' = e_prompt ?e"
    "e_terminal e' = e_terminal ?e" "e_events e' = e_events ?e" "e_validator e' = e_validator ?e"
    "e_bytes e' = e_bytes ?e"
    by (simp_all add: e'_def)
  have ok: "cell_ok (h_options h0) b (h_entries h0 ! b) (h_subs h0)" if "b < length (h_entries h0)" for b
    by (rule hub_invD(4) [OF inv that])
  have fresh: "?i \<notin> set (e_subs (h_entries h0 ! b))" if "b < length (h_entries h0)" for b
    using ok [OF that] by (auto simp: cell_ok_def)
  have chan_a: "chan_ok e' j ((h_subs h0 @ [s]) ! j)"
    if "j < Suc ?i" and "s_entry ((h_subs h0 @ [s]) ! j) = a" for j
  proof (cases "j = ?i")
    case True
    have "delivered s = wanted e' s" by (simp add: s_def delivered_def wanted_def replay_def e'_def)
    with True attached(3) show ?thesis by (simp add: chan_ok_def s_def e'_def)
  next
    case False
    then have j: "j < ?i" using that(1) by simp
    then have "chan_ok ?e j (h_subs h0 ! j)" using ok [OF a] that(2)
      by (simp add: cell_ok_def nth_append)
    with j show ?thesis by (auto simp: nth_append chan_ok_def e'_def wanted_def)
  qed
  have "cell_ok (h_options h0) a e' (h_subs h0 @ [s])"
    unfolding cell_ok_def
  proof (intro conjI)
    show "log_ok (h_options h0) e'" using cell_ok_log [OF ok [OF a]] unfolding log_ok_def same .
    show "entry_ok e'" using ok [OF a] fresh [OF a] by (auto simp: cell_ok_def entry_ok_def e'_def)
    show "\<forall>i \<in> set (e_subs e'). i < length (h_subs h0 @ [s]) \<and> s_entry ((h_subs h0 @ [s]) ! i) = a"
      using ok [OF a] by (auto simp: cell_ok_def e'_def nth_append s_def)
    show "\<forall>i < length (h_subs h0 @ [s]). s_entry ((h_subs h0 @ [s]) ! i) = a \<longrightarrow>
        chan_ok e' i ((h_subs h0 @ [s]) ! i)" using chan_a by simp
    show "e_sub_count e' = count_where (\<lambda>s. s_counted s \<and> s_entry s = a) (h_subs h0 @ [s])"
      using ok [OF a] by (simp add: cell_ok_def e'_def s_def)
  qed
  moreover have "cell_ok (h_options h0) b (h_entries h0 ! b) (h_subs h0 @ [s])"
    if "b < length (h_entries h0)" and "b \<noteq> a" for b
    using ok [OF that(1)] that(2) fresh [OF that(1)]
    by (auto simp: cell_ok_def nth_append s_def less_Suc_eq)
  ultimately have cells: "\<forall>b < length (h_entries h'). cell_ok (h_options h') b (h_entries h' ! b) (h_subs h') \<and>
      settled (h_entries h' ! b)"
    using hub_invD(5) [OF inv] same unfolding nth by (auto simp: h'_def settled_def)
  have "hub_inv h'"
    unfolding hub_inv_def
  proof (intro conjI)
    show "ops_ok (h_entries h') (h_ops h')"
      using hub_invD(3) [OF pinv] same unfolding ops_ok_def nth by (auto simp: h'_def)
    show "\<forall>b < length (h_entries h'). e_worker (h_entries h' ! b) \<longrightarrow>
        map_of (h_ops h') (e_id (h_entries h' ! b)) = Some b"
      using hub_invD(8) [OF pinv] same unfolding nth by (auto simp: h'_def)
    show "h_active h' = count_where e_worker (h_entries h')"
      using hub_invD(7) [OF inv] same by (simp add: h'_def count_where_update_same)
    show "prompts_ok h'"
      using hub_invD(6) [OF pinv] same unfolding prompts_ok_def nth by (auto simp: h'_def)
    show "\<forall>b < length (h_entries h'). e_sub_count (h_entries h' ! b) \<le> o_max_subs_per_op (h_options h')"
      using inv attached(4) unfolding nth by (auto simp: h'_def hub_inv_def e'_def)
    show "\<forall>i < length (h_subs h'). s_entry (h_subs h' ! i) < length (h_entries h')"
      using inv a by (auto simp: h'_def hub_inv_def nth_append s_def less_Suc_eq)
    show "h_subscribers h' = count_where s_counted (h_subs h')"
      using inv by (simp add: h'_def hub_inv_def s_def)
  qed (use pinv cells attached(5) in \<open>auto simp: h'_def hub_inv_def\<close>)
  moreover have "same_workers h0 h'"
    using same unfolding same_workers_def nth by (auto simp: h'_def e'_def evolves_def)
  ultimately show ?thesis by (simp add: res)
qed

end
