(* ===== verification/Op_Hub_Run.thy ===== *)
theory Op_Hub_Run
  imports Op_Hub_Steps
begin

text \<open>
  The remaining methods of the hub (closing a subscription, starting an operation and letting its
  worker go), the step relation of hub, gate and workers, and the properties of reachable hubs.
\<close>

subsection \<open>Closing a subscription\<close>

lemma schedule_entry_ok:
  assumes "distinct (e_subs e)"
    and "e_terminal e \<longrightarrow> e_prompt e = None \<and> e_cancelled e \<and> e_loss_timer e = None"
    and "\<not> e_terminal e \<longrightarrow> e_worker e"
    and "\<forall>t. e_loss_timer e = Some t \<longrightarrow> e_loss_token e = t"
  shows "entry_ok (schedule_subscriber_loss e)"
  using assms schedule_timer by (auto simp: entry_ok_def)

lemma chan_ok_schedule [simp]: "chan_ok (schedule_subscriber_loss e) i s = chan_ok e i s"
  by (simp add: chan_ok_def wanted_def)

lemma close_subscription_inv:
  assumes inv: "hub_inv h" and i: "i < length (h_subs h)"
  shows "hub_inv (close_subscription i h) \<and> same_workers h (close_subscription i h)"
proof (cases "s_once (h_subs h ! i)")
  case True
  with inv show ?thesis by (simp add: close_subscription_def)
next
  case once: False
  let ?s = "h_subs h ! i" let ?a = "s_entry ?s" let ?e = "h_entries h ! ?a"
  have a: "?a < length (h_entries h)" using inv i by (auto simp: hub_inv_def)
  note cell = hub_invD(4) [OF inv a]
  have chan: "chan_ok ?e i ?s" using cell i by (auto simp: cell_ok_def)
  have counted: "s_counted ?s" using chan once by (simp add: chan_ok_def)
  define e' where "e' = schedule_subscriber_loss
      (?e\<lparr>e_subs := removeAll i (e_subs ?e), e_sub_count := e_sub_count ?e - 1\<rparr>)"
  define s' where "s' = ?s\<lparr>s_once := True, s_counted := False, s_closed := True\<rparr>"
  define h' where "h' = h\<lparr>h_entries := (h_entries h)[?a := e'], h_subs := (h_subs h)[i := s'],
      h_subscribers := h_subscribers h - 1\<rparr>"
  have closed: "i \<in> set (e_subs ?e) \<Longrightarrow> s_closed ?s = e_terminal ?e"
    "i \<notin> set (e_subs ?e) \<Longrightarrow> s_closed ?s" using chan by (auto simp: chan_ok_def)
  have res: "close_subscription i h = h'"
  proof (rule hub.equality)
    show "h_entries (close_subscription i h) = h_entries h'"
      using once counted i a
      by (simp add: close_subscription_def remove_subscriber_def Let_def h'_def e'_def
          close_channel_def removeAll_id)
    show "h_subs (close_subscription i h) = h_subs h'"
      using once counted i a closed
      by (auto simp: close_subscription_def remove_subscriber_def Let_def h'_def s'_def
          close_channel_def intro!: arg_cong [where f = "\<lambda>x. (h_subs h)[i := x]"]
          subscription.equality) (use closed in blast)
    show "h_panic (close_subscription i h) = h_panic h'"
      using once counted i a closed
      by (auto simp: close_subscription_def remove_subscriber_def Let_def h'_def close_channel_def)
  qed (use once counted i a in \<open>simp_all add: close_subscription_def remove_subscriber_def Let_def
      h'_def close_channel_def\<close>)
  have nth: "h_entries h' ! b = (if b = ?a then e' else h_entries h ! b)" for b
    using a by (simp add: h'_def nth_list_update_cases)
  have snth: "h_subs h' ! j = (if j = i then s' else h_subs h ! j)" for j
    using i by (simp add: h'_def nth_list_update_cases)
  have slen: "length (h_subs h') = length (h_subs h)" by (simp add: h'_def)
  have same: "e_id e' = e_id ?e" "e_worker e' = e_worker ?e" "e_prompt e' = e_prompt ?e"
    "e_terminal e' = e_terminal ?e" "e_events e' = e_events ?e" "e_validator e' = e_validator ?e"
    "e_bytes e' = e_bytes ?e" "e_sub_count e' = e_sub_count ?e - 1" "e_release e' = e_release ?e"
    "set (e_subs e') = set (e_subs ?e) - {i}"
    by (simp_all add: e'_def)
  have cell_a: "cell_ok (h_options h) ?a e' (h_subs h')"
    unfolding cell_ok_def
  proof (intro conjI)
    show "log_ok (h_options h) e'" using cell_ok_log [OF cell] unfolding log_ok_def same .
    show "entry_ok e'"
      unfolding e'_def by (rule schedule_entry_ok) (use cell_ok_entry [OF cell] in
          \<open>auto simp: entry_ok_def distinct_removeAll\<close>)
    show "\<forall>j \<in> set (e_subs e'). j < length (h_subs h') \<and> s_entry (h_subs h' ! j) = ?a"
      using cell by (auto simp: cell_ok_def same slen snth)
    show "\<forall>j < length (h_subs h'). s_entry (h_subs h' ! j) = ?a \<longrightarrow> chan_ok e' j (h_subs h' ! j)"
    proof (intro allI impI)
      fix j assume j: "j < length (h_subs h')" "s_entry (h_subs h' ! j) = ?a"
      show "chan_ok e' j (h_subs h' ! j)"
      proof (cases "j = i")
        case True
        with chan show ?thesis
          by (auto simp: snth chan_ok_def s'_def same wanted_def delivered_def)
      next
        case False
        with j have "chan_ok ?e j (h_subs h ! j)" using cell by (auto simp: cell_ok_def slen snth)
        with False show ?thesis by (auto simp: snth chan_ok_def same wanted_def)
      qed
    qed
    have "count_where (\<lambda>s. s_counted s \<and> s_entry s = ?a) (h_subs h') =
        count_where (\<lambda>s. s_counted s \<and> s_entry s = ?a) (h_subs h) - 1"
      using i counted by (simp add: h'_def count_where_update s'_def)
    with cell show "e_sub_count e' = count_where (\<lambda>s. s_counted s \<and> s_entry s = ?a) (h_subs h')"
      by (simp add: same cell_ok_def)
  qed
  have cell_b: "cell_ok (h_options h) b (h_entries h ! b) (h_subs h')"
    if b: "b < length (h_entries h)" "b \<noteq> ?a" for b
  proof -
    note cb = hub_invD(4) [OF inv b(1)]
    have "i \<notin> set (e_subs (h_entries h ! b))" using cb b(2) by (auto simp: cell_ok_def)
    moreover have "count_where (\<lambda>s. s_counted s \<and> s_entry s = b) (h_subs h') =
        count_where (\<lambda>s. s_counted s \<and> s_entry s = b) (h_subs h)"
      using b(2) by (simp add: h'_def count_where_update_same s'_def)
    ultimately show ?thesis using cb b(2) by (auto simp: cell_ok_def slen snth s'_def)
  qed
  have "hub_inv h'"
    unfolding hub_inv_def
  proof (intro conjI)
    show "ops_ok (h_entries h') (h_ops h')"
      using hub_invD(3) [OF inv] same unfolding ops_ok_def nth by (auto simp: h'_def)
    show "\<forall>b < length (h_entries h'). e_worker (h_entries h' ! b) \<longrightarrow>
        map_of (h_ops h') (e_id (h_entries h' ! b)) = Some b"
      using hub_invD(8) [OF inv] same unfolding nth by (auto simp: h'_def)
    show "h_active h' = count_where e_worker (h_entries h')"
      using hub_invD(7) [OF inv] same by (simp add: h'_def count_where_update_same)
    show "prompts_ok h'"
      using hub_invD(6) [OF inv] same unfolding prompts_ok_def nth by (auto simp: h'_def)
    show "\<forall>b < length (h_entries h'). e_sub_count (h_entries h' ! b) \<le> o_max_subs_per_op (h_options h')"
      using inv a unfolding nth by (auto simp: h'_def hub_inv_def same)
    show "h_subscribers h' = count_where s_counted (h_subs h')"
      using inv i counted by (simp add: h'_def hub_inv_def count_where_update s'_def)
    show "\<forall>i < length (h_subs h'). s_entry (h_subs h' ! i) < length (h_entries h')"
      using inv a unfolding snth slen by (auto simp: h'_def hub_inv_def s'_def)
    show "\<forall>b < length (h_entries h'). cell_ok (h_options h') b (h_entries h' ! b) (h_subs h') \<and>
        settled (h_entries h' ! b)"
      using cell_a cell_b hub_invD(5) [OF inv] same unfolding nth by (auto simp: h'_def settled_def)
  qed (use inv in \<open>auto simp: h'_def hub_inv_def\<close>)
  moreover have "same_workers h h'"
    using same unfolding same_workers_def nth by (auto simp: h'_def e'_def evolves_def)
  ultimately show ?thesis by (simp add: res)
qed

subsection \<open>Starting an operation\<close>

lemma hub_inv_new: "hub_inv (new_hub opts g)"
  by (auto simp: hub_inv_def new_hub_def options_ok_def normalize_options_def default_if_def Let_def
      ops_ok_def prompts_ok_def)

lemma reserve_hook_cases:
  assumes "reserve_hook now h = Inr (rel, h1)"
  obtains (none) "h_gate h = None" "rel = None" "h1 = h"
    | (some) g i g' where "h_gate h = Some g" "reserve ReservationWork now g = Inr (i, g')"
        "rel = Some i" "h1 = h\<lparr>h_gate := Some g'\<rparr>"
  using assms by (auto simp: reserve_hook_def split: option.splits sum.splits)

lemma reserve_hook_gate: "reserve_hook now h = Inr (rel, h1) \<Longrightarrow> h1 = h\<lparr>h_gate := h_gate h1\<rparr>"
  by (auto simp: reserve_hook_def split: option.splits sum.splits)

text \<open>A hub with one more operation whose log is empty and which nobody watches yet.\<close>

lemma add_entry_inv:
  assumes inv: "hub_inv h" and new: "map_of (h_ops h) i = None"
    and room: "h_active h < o_max_active (h_options h)" and v: "new_validator i 0 = Inr v"
  shows "hub_inv (h\<lparr>h_entries := h_entries h @ [schedule_subscriber_loss (new_entry i d v rel)],
     h_ops := h_ops h @ [(i, length (h_entries h))], h_active := h_active h + 1\<rparr>)"
proof -
  let ?a = "length (h_entries h)" let ?e = "schedule_subscriber_loss (new_entry i d v rel)"
  define h' where "h' = h\<lparr>h_entries := h_entries h @ [?e], h_ops := h_ops h @ [(i, ?a)],
      h_active := h_active h + 1\<rparr>"
  have e: "e_id ?e = i" "e_worker ?e" "e_sub_count ?e = 0" "e_subs ?e = []" "e_prompt ?e = None"
    "\<not> e_terminal ?e" "e_events ?e = []" "e_bytes ?e = 0" "e_validator ?e = v"
    by (simp_all add: new_entry_def)
  have v': "v_operation v = i" "v_sequence v = 0" "\<not> v_terminal v"
    using v by (auto simp: new_validator_def split: if_splits)
  have subs: "s_entry (h_subs h ! j) < ?a" if "j < length (h_subs h)" for j
    using inv that by (auto simp: hub_inv_def)
  have pos: "2 \<le> o_max_events (h_options h)" "0 < o_max_bytes (h_options h)"
    using hub_invD(1) [OF inv] by (simp_all add: options_ok_def)
  have limit: "0 \<le> nonterminal_byte_limit (h_options h)"
    using pos(2) by (auto simp: nonterminal_byte_limit_def completion_reserve_def)
  have "count_where (\<lambda>s. s_counted s \<and> s_entry s = ?a) (h_subs h) = count_where (\<lambda>s. False) (h_subs h)"
    by (rule count_where_cong) (use subs in \<open>force simp: in_set_conv_nth\<close>)
  then have none: "count_where (\<lambda>s. s_counted s \<and> s_entry s = ?a) (h_subs h) = 0"
    by (simp add: count_where_def)
  have "cell_ok (h_options h) ?a ?e (h_subs h)"
    unfolding cell_ok_def
  proof (intro conjI)
    show "log_ok (h_options h) ?e" unfolding log_ok_def e using v' pos limit by simp
    show "entry_ok ?e" by (rule schedule_entry_ok) (simp_all add: new_entry_def)
    show "\<forall>j < length (h_subs h). s_entry (h_subs h ! j) = ?a \<longrightarrow> chan_ok ?e j (h_subs h ! j)"
      using subs by fastforce
  qed (simp_all add: new_entry_def none)
  moreover have "settled ?e" using v' by (simp add: settled_def new_entry_def)
  ultimately have cells: "\<forall>b < length (h_entries h'). cell_ok (h_options h') b (h_entries h' ! b) (h_subs h') \<and>
      settled (h_entries h' ! b)"
    using hub_invD(4,5) [OF inv] by (auto simp: h'_def nth_append less_Suc_eq)
  have "i \<notin> fst ` set (h_ops h)" using new by (simp add: map_of_eq_None_iff)
  then have "ops_ok (h_entries h') (h_ops h')"
    using hub_invD(3) [OF inv] e(1) by (fastforce simp: ops_ok_def h'_def nth_append)
  moreover have "\<forall>b < length (h_entries h'). e_worker (h_entries h' ! b) \<longrightarrow>
        map_of (h_ops h') (e_id (h_entries h' ! b)) = Some b"
    using hub_invD(8) [OF inv] new e(1)
    by (auto simp: h'_def nth_append less_Suc_eq map_add_def)
  moreover have "h_active h' = count_where e_worker (h_entries h')"
    using hub_invD(7) [OF inv] e(2) by (simp add: h'_def)
  moreover have "prompts_ok h'"
    using hub_invD(6) [OF inv] e(5) by (auto simp: prompts_ok_def h'_def nth_append less_Suc_eq)
  moreover have "\<forall>b < length (h_entries h'). e_sub_count (h_entries h' ! b) \<le> o_max_subs_per_op (h_options h')"
    using inv e(3) by (auto simp: hub_inv_def h'_def nth_append less_Suc_eq options_ok_def)
  moreover have "\<forall>j < length (h_subs h'). s_entry (h_subs h' ! j) < length (h_entries h')"
    using subs by (auto simp: h'_def less_Suc_eq)
  ultimately have "hub_inv h'"
    using inv room cells unfolding hub_inv_def by (auto simp: h'_def)
  then show ?thesis by (simp add: h'_def)
qed

text \<open>The outcomes of \<open>Start\<close>: nothing but pruning happened, or a new operation joined the hub after
  its gate granted a reservation of work. (A reservation whose validator is refused is given back;
  a checked id is never refused.)\<close>

definition joined :: "operation_start \<Rightarrow> hub \<Rightarrow> hub \<Rightarrow> bool" where
  "joined st h h' \<longleftrightarrow>
     (\<exists>i v rel ops g. prunes (h_entries h) (h_ops h) ops \<and> map_of ops i = None \<and>
        \<not> h_draining h \<and> h_active h < o_max_active (h_options h) \<and>
        valid_operation_id i \<and> (st_id st \<noteq> [] \<longrightarrow> i = st_id st) \<and>
        new_validator i 0 = Inr v \<and>
        (\<exists>now. reserve_hook now h = Inr (rel, h\<lparr>h_gate := g\<rparr>)) \<and>
        h' = h\<lparr>h_entries := h_entries h @ [schedule_subscriber_loss (new_entry i (st_digest st) v rel)],
               h_ops := ops @ [(i, length (h_entries h))], h_active := h_active h + 1,
               h_gate := g\<rparr>)"

lemma valid_id_validator: "valid_operation_id i \<Longrightarrow> \<exists>v. new_validator i 0 = Inr v"
  by (simp add: valid_operation_id_def new_validator_def)

lemma reserve_hook_ops:
  "reserve_hook now (h\<lparr>h_ops := ops\<rparr>) =
     (case reserve_hook now h of Inl e \<Rightarrow> Inl e | Inr (rel, h1) \<Rightarrow> Inr (rel, h1\<lparr>h_ops := ops\<rparr>))"
  by (auto simp: reserve_hook_def split: option.splits sum.splits)

lemma prune_eq: "prune now h = h\<lparr>h_ops := h_ops (prune now h)\<rparr>"
  by (simp add: prune_def prune_completed_def)

lemma create_operation_cases:
  assumes valid: "valid_operation_id i" and inv: "hub_inv h"
    and pr: "prunes (h_entries h) (h_ops h) ops" and h1: "h1 = h\<lparr>h_ops := ops\<rparr>"
    and new: "map_of ops i = None" and live: "\<not> h_draining h" "h_active h < o_max_active (h_options h)"
    and id: "st_id st \<noteq> [] \<longrightarrow> i = st_id st"
  shows "(\<exists>e. create_operation i (st_digest st) now h1 = (h1, Inl e)) \<or>
     (\<exists>h'. create_operation i (st_digest st) now h1 = (h', Inr (length (h_entries h), True)) \<and>
        joined st h h')"
proof (cases "reserve_hook now h")
  case (Inl e)
  then have "reserve_hook now h1 = Inl e" by (simp add: h1 reserve_hook_ops)
  then show ?thesis by (simp add: create_operation_def)
next
  case (Inr r)
  obtain rel h2 where r: "r = (rel, h2)" by fastforce
  obtain v where v: "new_validator i 0 = Inr v" using valid_id_validator [OF valid] by blast
  obtain g where g: "h2 = h\<lparr>h_gate := g\<rparr>"
    using reserve_hook_gate [of now h rel h2] Inr r by blast
  have hook: "reserve_hook now h1 = Inr (rel, h2\<lparr>h_ops := ops\<rparr>)"
    using Inr r by (simp add: h1 reserve_hook_ops)
  have "joined st h (h\<lparr>h_entries := h_entries h @ [schedule_subscriber_loss (new_entry i (st_digest st) v rel)],
               h_ops := ops @ [(i, length (h_entries h))], h_active := h_active h + 1,
               h_gate := g\<rparr>)"
    unfolding joined_def using valid pr new live id v Inr r g by blast
  moreover have "create_operation i (st_digest st) now h1 =
      (h\<lparr>h_entries := h_entries h @ [schedule_subscriber_loss (new_entry i (st_digest st) v rel)],
               h_ops := ops @ [(i, length (h_entries h))], h_active := h_active h + 1,
               h_gate := g\<rparr>, Inr (length (h_entries h), True))"
    by (simp add: create_operation_def hook v g Let_def)
  ultimately show ?thesis by blast
qed

lemma start_attempts_cases:
  assumes "hub_inv h0" and "prunes (h_entries h0) (h_ops h0) ops" and "h = h0\<lparr>h_ops := ops\<rparr>"
  shows "(\<exists>ops'. prunes (h_entries h0) (h_ops h0) ops' \<and>
        fst (start_attempts n k st clock ids h) = h0\<lparr>h_ops := ops'\<rparr> \<and>
        (\<forall>a. snd (start_attempts n k st clock ids h) \<noteq> Inr (a, True)) \<and>
        (\<forall>a. snd (start_attempts n k st clock ids h) = Inr (a, False) \<longrightarrow>
           st_id st \<noteq> [] \<and> map_of ops' (st_id st) = Some a \<and>
           e_digest (h_entries h0 ! a) = st_digest st)) \<or>
     (snd (start_attempts n k st clock ids h) = Inr (length (h_entries h0), True) \<and>
        joined st h0 (fst (start_attempts n k st clock ids h)))"
  using assms(2,3)
proof (induction n arbitrary: k h ops)
  case 0
  then show ?case by auto
next
  case (Suc n)
  let ?gen = "st_id st = []"
  show ?case
  proof (cases "if ?gen then ids k else Inr (st_id st)")
    case (Inl e)
    with Suc.prems show ?thesis by auto
  next
    case (Inr i)
    show ?thesis
    proof (cases "?gen \<and> i = [] \<or> \<not> valid_operation_id i")
      case True
      then have "\<exists>e. start_attempts (Suc n) k st clock ids h = (h, Inl e)"
        unfolding start_attempts.simps Let_def Inr sum.case by auto
      with Suc.prems show ?thesis by auto
    next
      case False
      define h1 where "h1 = prune (clock k) h"
      define ops1 where "ops1 = h_ops h1"
      have inv: "hub_inv h" using hub_inv_prunes [OF assms(1) Suc.prems(1)] Suc.prems(2) by simp
      have pr1: "prunes (h_entries h0) (h_ops h0) ops1"
        using prunes_trans [OF Suc.prems(1)] prune_prunes [OF hub_invD(3) [OF inv], of "clock k"]
          Suc.prems(2) by (simp add: ops1_def h1_def)
      have h1: "h1 = h0\<lparr>h_ops := ops1\<rparr>"
        using prune_eq [of "clock k" h] Suc.prems(2) by (simp add: h1_def ops1_def)
      have step: "start_attempts (Suc n) k st clock ids h =
         (case map_of ops1 i of
            Some a \<Rightarrow>
              if ?gen then start_attempts n (Suc k) st clock ids h1
              else if e_digest (h_entries h0 ! a) \<noteq> st_digest st
              then (h1, Inl (new_error OperationIDConflict
                      ''operation ID belongs to a different request'' False [] None))
              else (h1, Inr (a, False))
          | None \<Rightarrow>
              if \<not> st_has_run st then (h1, Inl (invalid_request ''new operation has no worker''))
              else if h_draining h0
              then (h1, Inl (new_error DaemonDraining ''daemon is draining'' True
                      [(''drain_deadline'', G_Time (h_drain_deadline h0))] None))
              else if h_active h0 \<ge> o_max_active (h_options h0)
              then (h1, Inl (capacity_error ''daemon operation capacity is exhausted''))
              else create_operation i (st_digest st) (clock k) h1)"
      proof -
        have a: "(?gen \<and> i = []) = False" and b: "(\<not> valid_operation_id i) = False"
          using False by auto
        have e: "h_ops h1 = ops1" "h_entries h1 = h_entries h0" "h_draining h1 = h_draining h0"
          "h_drain_deadline h1 = h_drain_deadline h0" "h_active h1 = h_active h0"
          "h_options h1 = h_options h0" by (simp_all add: h1)
        show ?thesis
          unfolding start_attempts.simps Let_def Inr sum.case h1_def [symmetric] a b if_False e ..
      qed
      show ?thesis
      proof (cases "map_of ops1 i")
        case (Some a)
        have id: "\<not> ?gen \<Longrightarrow> i = st_id st" using Inr by simp
        show ?thesis
        proof (cases ?gen)
          case True
          with Suc.IH [OF pr1 h1, of "Suc k"] Some step show ?thesis by simp
        next
          case False
          with id Some step pr1 h1 show ?thesis by auto
        qed
      next
        case None
        show ?thesis
        proof (cases "st_has_run st \<and> \<not> h_draining h0 \<and> h_active h0 < o_max_active (h_options h0)")
          case True
          have id: "st_id st \<noteq> [] \<longrightarrow> i = st_id st" using Inr by auto
          have "valid_operation_id i" using False by simp
          from create_operation_cases [OF this assms(1) pr1 h1 None _ _ id, of "clock k"] True
          show ?thesis using None step pr1 h1 by auto
        next
          case no: False
          with None step have "fst (start_attempts (Suc n) k st clock ids h) = h1 \<and>
              (\<exists>e. snd (start_attempts (Suc n) k st clock ids h) = Inl e)" by auto
          with pr1 h1 show ?thesis by auto
        qed
      qed
    qed
  qed
qed

lemma joined_inv:
  assumes inv: "hub_inv h" and j: "joined st h h'"
  shows "hub_inv h'"
proof -
  obtain i v rel ops g where pr: "prunes (h_entries h) (h_ops h) ops" and new: "map_of ops i = None"
    and room: "h_active h < o_max_active (h_options h)" and v: "new_validator i 0 = Inr v"
    and h': "h' = h\<lparr>h_entries := h_entries h @ [schedule_subscriber_loss (new_entry i (st_digest st) v rel)],
               h_ops := ops @ [(i, length (h_entries h))], h_active := h_active h + 1,
               h_gate := g\<rparr>"
    using j unfolding joined_def by blast
  have "hub_inv ((h\<lparr>h_ops := ops\<rparr>)\<lparr>h_gate := g\<rparr>)" using hub_inv_prunes [OF inv pr] by simp
  note add = add_entry_inv [OF this, of i v "st_digest st" rel]
  let ?k = "(h\<lparr>h_ops := ops\<rparr>)\<lparr>h_gate := g\<rparr>"
  have "?k\<lparr>h_entries := h_entries ?k @ [schedule_subscriber_loss (new_entry i (st_digest st) v rel)],
      h_ops := h_ops ?k @ [(i, length (h_entries ?k))], h_active := h_active ?k + 1\<rparr> = h'"
    by (simp add: h')
  moreover have "hub_inv (?k\<lparr>h_entries := h_entries ?k @ [schedule_subscriber_loss (new_entry i (st_digest st) v rel)],
      h_ops := h_ops ?k @ [(i, length (h_entries ?k))], h_active := h_active ?k + 1\<rparr>)"
    by (rule add) (use new room v in simp_all)
  ultimately show ?thesis by (simp only:)
qed

lemma start_cases:
  assumes inv: "hub_inv h" and r: "start st clock ids h = (h', r)"
  obtains (pruned) ops where "prunes (h_entries h) (h_ops h) ops" "h' = h\<lparr>h_ops := ops\<rparr>"
      "\<forall>a. r \<noteq> Inr (a, True)"
      "\<forall>a. r = Inr (a, False) \<longrightarrow> st_id st \<noteq> [] \<and> map_of ops (st_id st) = Some a \<and>
           e_digest (h_entries h ! a) = st_digest st"
    | (new) "r = Inr (length (h_entries h), True)" "joined st h h'"
proof (cases "st_digest st = []")
  case True
  with r show ?thesis by (intro pruned [of "h_ops h"]) (auto simp: start_def)
next
  case False
  with r have "start_attempts 4 0 st clock ids h = (h', r)" by (simp add: start_def)
  with start_attempts_cases [OF inv prunes_refl, of h 4 0 st clock ids] pruned new show ?thesis by auto
qed

end
