(* ===== verification/Op_Hub_System.thy ===== *)
theory Op_Hub_System
  imports Op_Hub_Run
begin

text \<open>
  The daemon's operation system as a transition system: the hub, its gate and the goroutine of each
  worker. A step is one critical section of the hub's mutex (or of the gate's), so any interleaving
  of clients, workers, timers and the host is a sequence of steps. The properties of the hub hold in
  every reachable state.
\<close>

subsection \<open>Steps\<close>

text \<open>
  \<open>run\<close> is a goroutine of its own: the worker's function runs, then \<open>finish\<close>, then the two halves
  of \<open>releaseWorker\<close>.
\<close>

datatype worker_phase = W_Running | W_Finished | W_Released | W_Exited

type_synonym system = "hub \<times> worker_phase list"

text \<open>The reservations that workers still hold; other users of the gate do not release these.\<close>

definition holding :: "worker_phase \<Rightarrow> bool" where
  "holding p \<longleftrightarrow> p = W_Running \<or> p = W_Finished"

definition worker_tokens :: "system \<Rightarrow> 64 word set" where
  "worker_tokens s = {i. \<exists>a < length (snd s). holding (snd s ! a) \<and>
     e_release (h_entries (fst s) ! a) = Some i}"

inductive hub_step :: "system \<Rightarrow> system \<Rightarrow> bool" where
  Start_New: "start st clock ids h = (h', Inr (a, True)) \<Longrightarrow>
     hub_step (h, ws) (h', ws @ [W_Running])"
| Start_Other: "start st clock ids h = (h', r) \<Longrightarrow> \<forall>a. r \<noteq> Inr (a, True) \<Longrightarrow>
     hub_step (h, ws) (h', ws)"
| Finish: "a < length ws \<Longrightarrow> ws ! a = W_Running \<Longrightarrow>
     hub_step (h, ws) (finish a now result err h, ws[a := W_Finished])"
| Release_Hook: "a < length ws \<Longrightarrow> ws ! a = W_Finished \<Longrightarrow>
     hub_step (h, ws) (release_worker_hook a h, ws[a := W_Released])"
| Release_Done: "a < length ws \<Longrightarrow> ws ! a = W_Released \<Longrightarrow>
     hub_step (h, ws) (release_worker_done a now h, ws[a := W_Exited])"
| Emit: "a < length ws \<Longrightarrow> kind \<noteq> Complete \<Longrightarrow> hub_step (h, ws) (fst (emit a now kind msg h), ws)"
| Open_Prompt: "a < length ws \<Longrightarrow> hub_step (h, ws) (fst (open_prompt a now new_id prompt h), ws)"
| Take_Response: "hub_step (h, ws) (fst (take_response p h), ws)"
| Close_Prompt: "a < length ws \<Longrightarrow> hub_step (h, ws) (close_prompt a p h, ws)"
| Respond: "respond op r h = Some (h', e) \<Longrightarrow> hub_step (h, ws) (h', ws)"
| Cancel: "hub_step (h, ws) (fst (cancel op h), ws)"
| Hub_Drain: "hub_step (h, ws) (begin_hub_drain deadline h, ws)"
| Drain_Cancel: "hub_step (h, ws) (cancel_active_for_drain now h, ws)"
| Subscribe: "hub_step (h, ws) (fst (subscribe op after now h), ws)"
| Receive: "i < length (h_subs h) \<Longrightarrow> hub_step (h, ws) (fst (receive i h), ws)"
| Close_Sub: "i < length (h_subs h) \<Longrightarrow> hub_step (h, ws) (close_subscription i h, ws)"
| Loss_Timer: "a < length ws \<Longrightarrow> hub_step (h, ws) (loss_timer_fires a token h, ws)"
| Map_Order: "mset ops = mset (h_ops h) \<Longrightarrow> hub_step (h, ws) (h\<lparr>h_ops := ops\<rparr>, ws)"
| Gate_Use: "h_gate h = Some g \<Longrightarrow> \<forall>i. ge = Release i \<longrightarrow> i \<notin> worker_tokens (h, ws) \<Longrightarrow>
     hub_step (h, ws) (h\<lparr>h_gate := Some (gate_step ge g)\<rparr>, ws)"

inductive hub_reach :: "hub_options \<Rightarrow> gtime option \<Rightarrow> nat \<Rightarrow> system \<Rightarrow> bool" for opts gt where
  Init: "hub_reach opts gt 0 (new_hub opts (map_option new_gate gt), [])"
| Step: "hub_reach opts gt n s \<Longrightarrow> hub_step s s' \<Longrightarrow> hub_reach opts gt (Suc n) s'"

inductive_cases hub_stepE: "hub_step (h, ws) s'"
lemmas hub_step_cases = hub_stepE [consumes 1, case_names Start_New Start_Other Finish Release_Hook
  Release_Done Emit Open_Prompt Take_Response Close_Prompt Respond Cancel Hub_Drain Drain_Cancel
  Subscribe Receive Close_Sub Loss_Timer Map_Order Gate_Use]

inductive_simps hub_reach_zero: "hub_reach opts gt 0 s"

subsection \<open>The invariant of the system\<close>

definition gate_linked :: "nat \<Rightarrow> system \<Rightarrow> bool" where
  "gate_linked n s \<longleftrightarrow>
     (case h_gate (fst s) of
        None \<Rightarrow> True
      | Some g \<Rightarrow> gate_inv n g \<and>
          (\<forall>a < length (snd s). holding (snd s ! a) \<longrightarrow>
             (\<exists>i. e_release (h_entries (fst s) ! a) = Some i \<and>
                  g_reservations g i = Some ReservationWork)) \<and>
          (\<forall>a < length (snd s). \<forall>b < length (snd s). holding (snd s ! a) \<and> holding (snd s ! b) \<and>
             e_release (h_entries (fst s) ! a) = e_release (h_entries (fst s) ! b) \<longrightarrow> a = b))"

definition sys_inv :: "nat \<Rightarrow> system \<Rightarrow> bool" where
  "sys_inv n s \<longleftrightarrow>
     hub_inv (fst s) \<and> length (snd s) = length (h_entries (fst s)) \<and>
     (\<forall>a < length (snd s). e_worker (h_entries (fst s) ! a) = (snd s ! a \<noteq> W_Exited) \<and>
        (snd s ! a \<noteq> W_Running \<longrightarrow> e_terminal (h_entries (fst s) ! a))) \<and>
     gate_linked n s"

lemma sys_inv_init: "sys_inv 0 (new_hub opts (map_option new_gate gt), [])"
  by (cases gt) (simp_all add: sys_inv_def hub_inv_new gate_linked_def gate_inv_new,
      simp_all add: new_hub_def gate_inv_new)

text \<open>A method that leaves workers and gate alone keeps the invariant of the system.\<close>

lemma gate_linked_mono:
  "gate_linked n (h, ws) \<Longrightarrow> gate_linked (Suc n) (h, ws)"
  using gate_inv_mono [of n _ "Suc n"] by (auto simp: gate_linked_def split: option.splits)

lemma gate_linked_same:
  assumes "gate_linked n (h, ws)" and "same_workers h h'"
  shows "gate_linked n (h', ws)"
  using assms by (auto simp: gate_linked_def same_workers_def split: option.splits)

lemma sys_inv_same:
  assumes s: "sys_inv n (h, ws)" and inv: "hub_inv h'" and sw: "same_workers h h'"
  shows "sys_inv (Suc n) (h', ws)"
  using s inv sw gate_linked_mono [OF gate_linked_same [OF _ sw]]
  by (auto simp: sys_inv_def same_workers_def evolves_def)

lemma sys_inv_finish:
  assumes s: "sys_inv n (h, ws)" and a: "a < length ws" and run: "ws ! a = W_Running"
    and inv: "hub_inv h'" and sw: "same_workers h h'" and tm: "e_terminal (h_entries h' ! a)"
  shows "sys_inv (Suc n) (h', ws[a := W_Finished])"
proof -
  have s': "sys_inv (Suc n) (h', ws)" by (rule sys_inv_same [OF s inv sw])
  have h: "holding (ws[a := W_Finished] ! b) = holding (ws ! b)" for b
    using run by (auto simp: nth_list_update_cases holding_def)
  have "gate_linked (Suc n) (h', ws[a := W_Finished])"
    using s' by (simp add: sys_inv_def gate_linked_def h split: option.splits)
  with s' a run tm show ?thesis by (auto simp: sys_inv_def nth_list_update_cases)
qed

lemma gate_linked_release:
  assumes lk: "gate_linked n (h, ws)" and a: "a < length ws" and hold: "holding (ws ! a)"
  shows "gate_linked n (release_worker_hook a h, ws[a := W_Released])"
proof (cases "h_gate h")
  case None
  then show ?thesis
    by (cases "e_release (h_entries h ! a)")
       (simp_all add: gate_linked_def release_worker_hook_def run_release_def)
next
  case (Some g)
  then obtain i where i: "e_release (h_entries h ! a) = Some i"
    using lk a hold by (auto simp: gate_linked_def)
  let ?ws = "ws[a := W_Released]"
  have was: "holding (ws ! b) \<and> b \<noteq> a" if "holding (?ws ! b)" and "b < length ws" for b
    using that by (auto simp: nth_list_update_cases holding_def split: if_splits)
  have g: "gate_inv n g" and work: "\<And>b. b < length ws \<Longrightarrow> holding (ws ! b) \<Longrightarrow>
      \<exists>j. e_release (h_entries h ! b) = Some j \<and> g_reservations g j = Some ReservationWork"
    and inj: "\<And>b c. b < length ws \<Longrightarrow> c < length ws \<Longrightarrow> holding (ws ! b) \<Longrightarrow> holding (ws ! c) \<Longrightarrow>
      e_release (h_entries h ! b) = e_release (h_entries h ! c) \<Longrightarrow> b = c"
    using lk Some by (auto simp: gate_linked_def)
  have "\<exists>j. e_release (h_entries h ! b) = Some j \<and>
      g_reservations (release i g) j = Some ReservationWork"
    if "b < length ws" and "holding (?ws ! b)" for b
  proof -
    have b: "holding (ws ! b)" "b \<noteq> a" using was that by auto
    from work [OF that(1) b(1)] inj [OF that(1) a b(1) hold] b(2) i show ?thesis by fastforce
  qed
  moreover have "h_gate (release_worker_hook a h) = Some (release i g)"
    "h_entries (release_worker_hook a h) = h_entries h"
    using Some i by (simp_all add: release_worker_hook_def run_release_def)
  ultimately show ?thesis
    using inj was g by (auto simp: gate_linked_def gate_inv_release simp del: release_reservations)
qed

lemma run_release_fields [simp]:
  "h_entries (run_release r h) = h_entries h" "h_options (run_release r h) = h_options h"
  "h_ops (run_release r h) = h_ops h" "h_active (run_release r h) = h_active h"
  by (cases r; simp add: run_release_def)+

lemma sys_inv_release_hook:
  assumes s: "sys_inv n (h, ws)" and a: "a < length ws" and ph: "ws ! a = W_Finished"
  shows "sys_inv (Suc n) (release_worker_hook a h, ws[a := W_Released])"
proof -
  have "gate_linked (Suc n) (release_worker_hook a h, ws[a := W_Released])"
    by (rule gate_linked_release [OF gate_linked_mono a])
       (use s ph in \<open>auto simp: sys_inv_def holding_def\<close>)
  with s ph a show ?thesis
    by (auto simp: sys_inv_def release_worker_hook_def nth_list_update_cases)
qed

text \<open>The worker of a terminal operation exits.\<close>

lemma worker_exit_inv:
  assumes inv: "hub_inv h" and a: "a < length (h_entries h)" and tm: "e_terminal (h_entries h ! a)"
    and worker: "e_worker (h_entries h ! a)"
  shows "hub_inv (h\<lparr>h_entries := (h_entries h)[a := (h_entries h ! a)\<lparr>e_release := None, e_worker := False\<rparr>],
                  h_active := h_active h - 1\<rparr>)"
proof -
  define e' where "e' = (h_entries h ! a)\<lparr>e_release := None, e_worker := False\<rparr>"
  define h' where "h' = h\<lparr>h_entries := (h_entries h)[a := e'], h_active := h_active h - 1\<rparr>"
  have nth: "h_entries h' ! b = (if b = a then e' else h_entries h ! b)" for b
    using a by (simp add: h'_def nth_list_update_cases)
  have "cell_ok (h_options h) a e' (h_subs h)"
    using hub_invD(4) [OF inv a] tm
    by (auto simp: e'_def cell_ok_def log_ok_def entry_ok_def chan_ok_def wanted_def)
  then have "\<forall>b < length (h_entries h'). cell_ok (h_options h') b (h_entries h' ! b) (h_subs h') \<and>
        settled (h_entries h' ! b)"
    using hub_invD(4,5) [OF inv] tm unfolding nth by (auto simp: h'_def settled_def e'_def)
  moreover have "ops_ok (h_entries h') (h_ops h')"
    using hub_invD(3) [OF inv] unfolding ops_ok_def nth by (auto simp: h'_def e'_def)
  moreover have "\<forall>b < length (h_entries h'). e_worker (h_entries h' ! b) \<longrightarrow>
        map_of (h_ops h') (e_id (h_entries h' ! b)) = Some b"
    using hub_invD(8) [OF inv] unfolding nth by (auto simp: h'_def e'_def)
  moreover have "h_active h' = count_where e_worker (h_entries h')"
    using hub_invD(7) [OF inv] a worker by (simp add: h'_def count_where_update e'_def)
  moreover have "prompts_ok h'"
    using hub_invD(6) [OF inv] unfolding prompts_ok_def nth by (auto simp: h'_def e'_def)
  moreover have "\<forall>b < length (h_entries h'). e_sub_count (h_entries h' ! b) \<le> o_max_subs_per_op (h_options h')"
    using inv a unfolding nth by (auto simp: h'_def e'_def hub_inv_def)
  ultimately have "hub_inv h'" using inv unfolding hub_inv_def by (auto simp: h'_def)
  then show ?thesis by (simp add: h'_def e'_def)
qed

lemma sys_inv_release_done:
  assumes s: "sys_inv n (h, ws)" and a: "a < length ws" and ph: "ws ! a = W_Released"
  shows "sys_inv (Suc n) (release_worker_done a now h, ws[a := W_Exited])"
proof -
  let ?h = "h\<lparr>h_entries := (h_entries h)[a := (h_entries h ! a)\<lparr>e_release := None, e_worker := False\<rparr>],
                  h_active := h_active h - 1\<rparr>"
  have inv: "hub_inv h" and len: "length ws = length (h_entries h)"
    and ea: "e_terminal (h_entries h ! a)" "e_worker (h_entries h ! a)"
    using s a ph by (auto simp: sys_inv_def)
  have "hub_inv (release_worker_done a now h)"
    unfolding release_worker_done_def
    by (rule hub_inv_prune, rule worker_exit_inv [OF inv _ ea]) (use a len in simp)
  moreover have "h_entries (release_worker_done a now h) ! b = h_entries h ! b" if "b \<noteq> a" for b
    using that by (simp add: release_worker_done_def)
  moreover have "h_entries (release_worker_done a now h) ! a =
      (h_entries h ! a)\<lparr>e_release := None, e_worker := False\<rparr>"
    using a len by (simp add: release_worker_done_def)
  moreover have "length (h_entries (release_worker_done a now h)) = length (h_entries h)"
    "h_gate (release_worker_done a now h) = h_gate h" by (simp_all add: release_worker_done_def)
  moreover have "\<not> holding (ws ! a)" "\<not> holding W_Exited" using ph by (simp_all add: holding_def)
  ultimately show ?thesis
    using s a ph len gate_linked_mono [of n h ws] ea
    by (auto simp: sys_inv_def gate_linked_def nth_list_update_cases split: option.splits if_splits)
qed

lemma sys_inv_start_new:
  assumes s: "sys_inv n (h, ws)" and bound: "n < 2 ^ 64 - 1" and j: "joined st h h'"
  shows "sys_inv (Suc n) (h', ws @ [W_Running])"
proof -
  have inv: "hub_inv h" and len: "length ws = length (h_entries h)" and lk: "gate_linked n (h, ws)"
    using s by (auto simp: sys_inv_def)
  obtain i v rel ops g now where hook: "reserve_hook now h = Inr (rel, h\<lparr>h_gate := g\<rparr>)"
    and h': "h' = h\<lparr>h_entries := h_entries h @ [schedule_subscriber_loss (new_entry i (st_digest st) v rel)],
               h_ops := ops @ [(i, length (h_entries h))], h_active := h_active h + 1,
               h_gate := g\<rparr>"
    using j unfolding joined_def by blast
  have "gate_linked (Suc n) (h', ws @ [W_Running])"
    using hook
  proof (cases rule: reserve_hook_cases)
    case none
    then have "g = None" by (metis hub.select_convs(10) hub.update_convs(10) hub.surjective)
    then show ?thesis by (simp add: gate_linked_def h')
  next
    case (some g0 t g')
    have g: "g = Some g'" using some(4) by (metis hub.select_convs(10) hub.update_convs(10) hub.surjective)
    have inv0: "gate_inv n g0" and work: "\<And>b. b < length ws \<Longrightarrow> holding (ws ! b) \<Longrightarrow>
        \<exists>k. e_release (h_entries h ! b) = Some k \<and> g_reservations g0 k = Some ReservationWork"
      and inj: "\<And>b c. b < length ws \<Longrightarrow> c < length ws \<Longrightarrow> holding (ws ! b) \<Longrightarrow> holding (ws ! c) \<Longrightarrow>
        e_release (h_entries h ! b) = e_release (h_entries h ! c) \<Longrightarrow> b = c"
      using lk some(1) by (auto simp: gate_linked_def)
    note r = reserve_cases [OF some(2)]
    have fresh: "g_reservations g0 t = None" using reserve_fresh [OF inv0 bound] r(2) by simp
    have res: "g_reservations g' = (g_reservations g0)(t \<mapsto> ReservationWork)" using r(2,4) by simp
    have old: "\<exists>k. e_release (h_entries h ! b) = Some k \<and> k \<noteq> t \<and>
        g_reservations g' k = Some ReservationWork" if "b < length ws" and "holding (ws ! b)" for b
      using work [OF that] fresh res by fastforce
    have ent: "e_release (h_entries h' ! b) =
        (if b = length ws then Some t else e_release (h_entries h ! b))" if "b < Suc (length ws)" for b
      using that len some(3) by (auto simp: h' nth_append new_entry_def less_Suc_eq)
    have ph: "(ws @ [W_Running]) ! b = (if b = length ws then W_Running else ws ! b)"
      if "b < Suc (length ws)" for b using that by (auto simp: nth_append less_Suc_eq)
    have "b = c" if bc: "b < Suc (length ws)" "c < Suc (length ws)"
      "holding ((ws @ [W_Running]) ! b)" "holding ((ws @ [W_Running]) ! c)"
      "e_release (h_entries h' ! b) = e_release (h_entries h' ! c)" for b c
      using bc(3-5) inj [of b c] old [of b] old [of c] bc(1,2)
      unfolding ent [OF bc(1)] ent [OF bc(2)] ph [OF bc(1)] ph [OF bc(2)]
      by (auto split: if_splits)
    moreover have "\<exists>k. e_release (h_entries h' ! b) = Some k \<and>
        g_reservations g' k = Some ReservationWork"
      if b: "b < Suc (length ws)" "holding ((ws @ [W_Running]) ! b)" for b
      using b(2) old [of b] res b(1) unfolding ent [OF b(1)] ph [OF b(1)] by (auto split: if_splits)
    moreover have "h_gate h' = Some g'" by (simp add: h' g)
    ultimately show ?thesis
      using gate_inv_reserve [OF inv0 bound some(2)] unfolding gate_linked_def by simp
  qed
  moreover have "e_worker (h_entries h' ! b) = ((ws @ [W_Running]) ! b \<noteq> W_Exited) \<and>
        ((ws @ [W_Running]) ! b \<noteq> W_Running \<longrightarrow> e_terminal (h_entries h' ! b))"
    if "b < length (ws @ [W_Running])" for b
    using that s by (auto simp: h' sys_inv_def nth_append less_Suc_eq new_entry_def)
  ultimately show ?thesis
    using joined_inv [OF inv j] len by (auto simp: sys_inv_def h')
qed

lemma sys_inv_map_order:
  assumes s: "sys_inv n (h, ws)" and ops: "mset ops = mset (h_ops h)"
  shows "sys_inv (Suc n) (h\<lparr>h_ops := ops\<rparr>, ws)"
proof (rule sys_inv_same [OF s])
  have inv: "hub_inv h" using s by (simp add: sys_inv_def)
  have set: "set ops = set (h_ops h)" using ops by (metis set_mset_mset)
  have "mset (map fst ops) = mset (map fst (h_ops h))" using ops by simp
  then have d: "distinct (map fst ops) = distinct (map fst (h_ops h))"
    by (rule mset_eq_imp_distinct_iff)
  then have ok: "ops_ok (h_entries h) ops" using hub_invD(3) [OF inv] set by (simp add: ops_ok_def)
  have "map_of ops k = map_of (h_ops h) k" for k
  proof -
    have "map_of ops k = Some v \<longleftrightarrow> map_of (h_ops h) k = Some v" for v
      using ok hub_invD(3) [OF inv] set by (simp add: ops_ok_def map_of_distinct_iff)
    then show ?thesis by (metis not_Some_eq)
  qed
  with inv ok show "hub_inv (h\<lparr>h_ops := ops\<rparr>)" by (simp add: hub_inv_def prompts_ok_def)
qed (simp add: same_workers_eq)

lemma gate_step_keeps:
  assumes "gate_inv n g" and "n < 2 ^ 64 - 1" and "g_reservations g i = Some k"
    and "e \<noteq> Release i"
  shows "g_reservations (gate_step e g) i = Some k"
proof (cases e)
  case (Reserve kind now)
  show ?thesis
  proof (cases "reserve kind now g")
    case (Inl x)
    with Reserve assms show ?thesis by simp
  next
    case (Inr r)
    then show ?thesis
      using Reserve assms(3) reserve_fresh [OF assms(1,2)] reserve_cases(4) [of kind now g "fst r" "snd r"]
      by (cases r) auto
  qed
qed (use assms in \<open>auto simp: touch_def begin_drain_def notify_def Let_def\<close>)

lemma sys_inv_gate_use:
  assumes s: "sys_inv n (h, ws)" and bound: "n < 2 ^ 64 - 1" and g: "h_gate h = Some g"
    and own: "\<forall>i. ge = Release i \<longrightarrow> i \<notin> worker_tokens (h, ws)"
  shows "sys_inv (Suc n) (h\<lparr>h_gate := Some (gate_step ge g)\<rparr>, ws)"
proof -
  have gi: "gate_inv n g" using s g by (simp add: sys_inv_def gate_linked_def)
  have "\<exists>i. e_release (h_entries h ! a) = Some i \<and>
      g_reservations (gate_step ge g) i = Some ReservationWork"
    if a: "a < length ws" "holding (ws ! a)" for a
  proof -
    obtain i where i: "e_release (h_entries h ! a) = Some i"
      "g_reservations g i = Some ReservationWork"
      using s g a by (auto simp: sys_inv_def gate_linked_def)
    then have "i \<in> worker_tokens (h, ws)" using a by (auto simp: worker_tokens_def)
    with own have "ge \<noteq> Release i" by blast
    from gate_step_keeps [OF gi bound i(2) this] i(1) show ?thesis by blast
  qed
  with s g gate_inv_step [OF gi bound] show ?thesis
    by (simp add: sys_inv_def gate_linked_def)
qed

lemma sys_inv_step:
  assumes step: "hub_step s s'" and s: "sys_inv n s" and bound: "n < 2 ^ 64 - 1"
  shows "sys_inv (Suc n) s'"
proof -
  obtain h ws where hw: "s = (h, ws)" by (cases s)
  have s: "sys_inv n (h, ws)" using s hw by simp
  then have inv: "hub_inv h" and len: "length ws = length (h_entries h)" by (auto simp: sys_inv_def)
  from step [unfolded hw] show ?thesis
  proof (cases rule: hub_step_cases)
    case (Start_New st clock ids h' a)
    from inv Start_New(2) show ?thesis
      by (cases rule: start_cases) (use sys_inv_start_new [OF s bound] Start_New(1) in auto)
  next
    case (Start_Other st clock ids h' r)
    from inv Start_Other(2) show ?thesis
    proof (cases rule: start_cases)
      case (pruned ops)
      with sys_inv_same [OF s hub_inv_prunes [OF inv pruned(1)]] Start_Other(1)
      show ?thesis by (simp add: same_workers_eq)
    next
      case new
      with Start_Other(3) show ?thesis by simp
    qed
  next
    case (Finish a now result err)
    with finish_inv [OF inv, of a now result err] len sys_inv_finish [OF s] show ?thesis by auto
  next
    case (Release_Hook a)
    with sys_inv_release_hook [OF s] show ?thesis by simp
  next
    case (Release_Done a now)
    with sys_inv_release_done [OF s] show ?thesis by simp
  next
    case (Emit a kind now msg)
    with emit_inv [OF inv, of a kind] len sys_inv_same [OF s] show ?thesis by simp
  next
    case (Open_Prompt a now new_id prompt)
    with open_prompt_inv [OF inv, of a] len sys_inv_same [OF s] show ?thesis by simp
  next
    case (Take_Response p)
    with take_response_inv [OF inv] sys_inv_same [OF s] show ?thesis by simp
  next
    case (Close_Prompt a p)
    with close_prompt_inv [OF inv, of a] len sys_inv_same [OF s] show ?thesis by simp
  next
    case (Respond op r h' e)
    with respond_inv [OF inv, of op r] sys_inv_same [OF s] show ?thesis by auto
  next
    case (Cancel op)
    with cancel_inv [OF inv] sys_inv_same [OF s] show ?thesis by simp
  next
    case (Hub_Drain deadline)
    with begin_hub_drain_inv [OF inv] sys_inv_same [OF s] show ?thesis by simp
  next
    case (Drain_Cancel now)
    with cancel_each_inv [OF inv] sys_inv_same [OF s] show ?thesis
      by (simp add: cancel_active_for_drain_def)
  next
    case (Subscribe op after now)
    with subscribe_inv [OF inv] sys_inv_same [OF s] show ?thesis by simp
  next
    case (Receive i)
    with receive_inv [OF inv] sys_inv_same [OF s] show ?thesis by simp
  next
    case (Close_Sub i)
    with close_subscription_inv [OF inv] sys_inv_same [OF s] show ?thesis by simp
  next
    case (Loss_Timer a token)
    with loss_timer_inv [OF inv, of a] len sys_inv_same [OF s] show ?thesis by simp
  next
    case (Map_Order ops)
    with sys_inv_map_order [OF s] show ?thesis by simp
  next
    case (Gate_Use g ge)
    with sys_inv_gate_use [OF s bound] show ?thesis by simp
  qed
qed

lemma sys_inv_reach: "hub_reach opts gt n s \<Longrightarrow> n < 2 ^ 64 \<Longrightarrow> sys_inv n s"
proof (induction rule: hub_reach.induct)
  case Init
  then show ?case by (simp add: sys_inv_init)
next
  case (Step n s s')
  then show ?case by (intro sys_inv_step) auto
qed

end
