(* ===== verification/Op_Hub_Properties.thy ===== *)
theory Op_Hub_Properties
  imports Op_Hub_System
begin

text \<open>
  What the operation hub promises, in every reachable state of hub, gate and workers.
\<close>

subsection \<open>Small reachable systems, for the witnesses\<close>

definition demo_options :: hub_options where
  "demo_options = \<lparr>o_max_events = 0, o_max_bytes = 0, o_max_active = 0, o_max_completed = 0,
     o_retention = 0, o_grace = 0, o_queue = 0, o_max_subs_per_op = 0, o_max_subs = 0,
     o_format_time = (\<lambda>_. ''t''), o_parses_time = (\<lambda>_. True)\<rparr>"

definition demo_start :: operation_start where
  "demo_start = \<lparr>st_id = ''op'', st_digest = ''d'', st_has_run = True\<rparr>"

definition demo_hub :: hub where
  "demo_hub = fst (start demo_start (\<lambda>_. 7) (\<lambda>_. Inr ''x'') (new_hub demo_options (Some (new_gate 5))))"

lemma demo_start_result:
  "snd (start demo_start (\<lambda>_. 7) (\<lambda>_. Inr ''x'') (new_hub demo_options (Some (new_gate 5)))) = Inr (0, True)"
  by code_simp

lemma demo_reach: "hub_reach demo_options (Some 5) (Suc 0) (demo_hub, [W_Running])"
proof -
  have "start demo_start (\<lambda>_. 7) (\<lambda>_. Inr ''x'') (new_hub demo_options (Some (new_gate 5))) =
      (demo_hub, Inr (0, True))"
    by (rule prod_eqI) (simp_all add: demo_hub_def demo_start_result)
  from Step [OF Init Start_New [OF this[unfolded option.map(2)[symmetric]], of "[]"]]
  show ?thesis by simp
qed

lemma demo_hub_fields:
  "length (h_entries demo_hub) = 1" "map_of (h_ops demo_hub) ''op'' = Some 0"
  "e_terminal (h_entries demo_hub ! 0) = False" "e_subs (h_entries demo_hub ! 0) = []"
  by code_simp+

lemma reach_inv:
  assumes "hub_reach opts gt n (h, ws)" and "n < 2 ^ 64"
  shows "hub_inv h" and "length ws = length (h_entries h)"
    and "\<And>a. a < length ws \<Longrightarrow> cell_ok (h_options h) a (h_entries h ! a) (h_subs h)"
    and "\<And>a. a < length ws \<Longrightarrow> e_worker (h_entries h ! a) = (ws ! a \<noteq> W_Exited)"
    and "\<And>a. a < length ws \<Longrightarrow> ws ! a \<noteq> W_Running \<Longrightarrow> e_terminal (h_entries h ! a)"
    and "gate_linked n (h, ws)"
  using sys_inv_reach [OF assms] by (auto simp: sys_inv_def hub_invD(4))

subsection \<open>Limits\<close>

text \<open>
  C4. In every reachable state, whatever the interleaving: Go has not panicked on a channel closed
  twice or sent to after its close, \<open>active\<close> is the number of workers that have not exited and
  \<open>subscribers\<close> the number of subscriptions not yet closed by their consumer, and both, and every
  operation's share of the latter, stay within the configured limits.
\<close>

theorem hub_limits:
  assumes "hub_reach opts gt n (h, ws)" and "n < 2 ^ 64"
  shows "\<not> h_panic h \<and>
     h_active h = count_where (\<lambda>p. p \<noteq> W_Exited) ws \<and> h_active h \<le> o_max_active (h_options h) \<and>
     h_subscribers h = count_where (\<lambda>s. \<not> s_once s) (h_subs h) \<and>
     h_subscribers h \<le> o_max_subs (h_options h) \<and>
     (\<forall>a < length ws. e_sub_count (h_entries h ! a) \<le> o_max_subs_per_op (h_options h) \<and>
        e_sub_count (h_entries h ! a) = count_where (\<lambda>s. \<not> s_once s \<and> s_entry s = a) (h_subs h))"
proof -
  note r = reach_inv [OF assms]
  have once: "s_counted (h_subs h ! i) = (\<not> s_once (h_subs h ! i))" if "i < length (h_subs h)" for i
  proof -
    have a: "s_entry (h_subs h ! i) < length ws" using r(1,2) that by (auto simp: hub_inv_def)
    from r(3) [OF this] that show ?thesis by (auto simp: cell_ok_def chan_ok_def)
  qed
  have "map e_worker (h_entries h) = map (\<lambda>p. p \<noteq> W_Exited) ws"
    by (rule nth_equalityI) (use r(2,4) in simp_all)
  then have "length (filter e_worker (h_entries h)) = length (filter (\<lambda>p. p \<noteq> W_Exited) ws)"
    by (metis (no_types, lifting) filter_map length_map o_def filter_cong)
  then have act: "h_active h = count_where (\<lambda>p. p \<noteq> W_Exited) ws"
    using hub_invD(7) [OF r(1)] by (simp add: count_where_def)
  have sub: "count_where s_counted (h_subs h) = count_where (\<lambda>s. \<not> s_once s) (h_subs h)"
    and sub_a: "count_where (\<lambda>s. s_counted s \<and> s_entry s = a) (h_subs h) =
      count_where (\<lambda>s. \<not> s_once s \<and> s_entry s = a) (h_subs h)" for a
    by (rule count_where_cong, use once in \<open>auto simp: in_set_conv_nth\<close>)+
  show ?thesis
    using r(1,3) r(2) act sub sub_a by (auto simp: hub_inv_def cell_ok_def)
qed

theorem hub_limits_witness: "h_active demo_hub = count_where (\<lambda>p. p \<noteq> W_Exited) [W_Running]"
  using hub_limits [OF demo_reach] by simp

subsection \<open>Event logs\<close>

text \<open>
  C5. In every reachable state, the retained events of every operation are numbered 1, 2, 3, ...
  without a gap, only the last of them can be a completion, their number and their encoded bytes
  are within the limits (and the bytes are what \<open>eventBytes\<close> says), and while the operation is
  live none of them is a completion and both limits keep their reserve for one.
\<close>

theorem hub_logs:
  assumes "hub_reach opts gt n (h, ws)" and "n < 2 ^ 64" and "a < length ws"
  shows "map re_sequence (e_events (h_entries h ! a)) = [1 ..< Suc (length (e_events (h_entries h ! a)))]
     \<and> (\<forall>re \<in> set (butlast (e_events (h_entries h ! a))). re_kind re \<noteq> Complete)
     \<and> int (length (e_events (h_entries h ! a))) \<le> o_max_events (h_options h)
     \<and> e_bytes (h_entries h ! a) = log_bytes (e_events (h_entries h ! a))
     \<and> e_bytes (h_entries h ! a) \<le> o_max_bytes (h_options h)
     \<and> (\<not> e_terminal (h_entries h ! a) \<longrightarrow>
          (\<forall>re \<in> set (e_events (h_entries h ! a)). re_kind re \<noteq> Complete) \<and>
          int (length (e_events (h_entries h ! a))) \<le> o_max_events (h_options h) - 1 \<and>
          e_bytes (h_entries h ! a) \<le> nonterminal_byte_limit (h_options h))"
proof -
  let ?e = "h_entries h ! a"
  note r = reach_inv [OF assms(1,2)]
  have log: "log_ok (h_options h) ?e" using cell_ok_log [OF r(3) [OF assms(3)]] .
  have "settled ?e" using hub_invD(5) [OF r(1)] assms(3) r(2) by simp
  then have "\<not> e_terminal ?e \<Longrightarrow> \<not> v_terminal (e_validator ?e)" by (auto simp: settled_def)
  moreover have "\<not> v_terminal (e_validator ?e) \<Longrightarrow> \<forall>re \<in> set (e_events ?e). re_kind re \<noteq> Complete"
  proof (cases "e_events ?e" rule: rev_cases)
    case (snoc es re)
    then show "\<not> v_terminal (e_validator ?e) \<Longrightarrow> ?thesis" using log by (auto simp: log_ok_def)
  qed simp
  ultimately show ?thesis using log unfolding log_ok_def by blast
qed

theorem hub_logs_witness:
  "map re_sequence (e_events (h_entries demo_hub ! 0)) =
     [1 ..< Suc (length (e_events (h_entries demo_hub ! 0)))]"
  using hub_logs [OF demo_reach, of 0] by simp

lemma joined_evolves: "joined st h h' \<Longrightarrow> a < length (h_entries h) \<Longrightarrow>
    evolves (h_entries h ! a) (h_entries h' ! a)"
  unfolding joined_def by (elim exE conjE) (simp add: nth_append)

text \<open>
  C6. A step never rewrites history: every operation that exists keeps its id and request digest,
  its log is only appended to, and once it is terminal it stays terminal and its log never changes
  again.
\<close>

theorem hub_history:
  assumes "hub_reach opts gt n (h, ws)" and "n < 2 ^ 64" and "hub_step (h, ws) (h', ws')"
    and "a < length ws"
  shows "e_id (h_entries h' ! a) = e_id (h_entries h ! a)
     \<and> e_digest (h_entries h' ! a) = e_digest (h_entries h ! a)
     \<and> prefix (e_events (h_entries h ! a)) (e_events (h_entries h' ! a))
     \<and> (e_terminal (h_entries h ! a) \<longrightarrow> e_terminal (h_entries h' ! a) \<and>
          e_events (h_entries h' ! a) = e_events (h_entries h ! a))"
proof -
  note r = reach_inv [OF assms(1,2)]
  have a: "a < length (h_entries h)" using r(2) assms(4) by simp
  have sw: "evolves (h_entries h ! a) (h_entries k ! a)" if "same_workers h k" for k
    using that by (simp add: same_workers_def)
  have "evolves (h_entries h ! a) (h_entries h' ! a)"
    using assms(3)
  proof (cases rule: hub_step_cases)
    case (Start_New st clock ids b)
    from r(1) Start_New(2) show ?thesis
      by (cases rule: start_cases) (use Start_New(1) joined_evolves [OF _ a] in auto)
  next
    case (Start_Other st clock ids res)
    from r(1) Start_Other(2) show ?thesis
      by (cases rule: start_cases) (use Start_Other(1,3) in auto)
  next
    case (Release_Hook b)
    then show ?thesis by (simp add: release_worker_hook_def)
  next
    case (Release_Done b now)
    then show ?thesis by (simp add: release_worker_done_def nth_list_update_cases evolves_def)
  next
    case (Finish b now result err)
    with finish_inv [OF r(1), of b now result err] r(2) sw show ?thesis by simp
  next
    case (Emit b kind now msg)
    with emit_inv [OF r(1), of b kind now msg] r(2) sw show ?thesis by simp
  next
    case (Open_Prompt b now new_id prompt)
    with open_prompt_inv [OF r(1), of b now new_id prompt] r(2) sw show ?thesis by simp
  next
    case (Take_Response p)
    with take_response_inv [OF r(1), of p] sw show ?thesis by simp
  next
    case (Close_Prompt b p)
    with close_prompt_inv [OF r(1), of b p] r(2) sw show ?thesis by simp
  next
    case (Respond op rs e)
    with respond_inv [OF r(1), of op rs] sw show ?thesis by auto
  next
    case (Cancel op)
    with cancel_inv [OF r(1), of op] sw show ?thesis by simp
  next
    case (Hub_Drain deadline)
    with begin_hub_drain_inv [OF r(1)] sw show ?thesis by simp
  next
    case (Drain_Cancel now)
    with cancel_each_inv [OF r(1)] sw show ?thesis by (simp add: cancel_active_for_drain_def)
  next
    case (Subscribe op after now)
    with subscribe_inv [OF r(1)] sw show ?thesis by simp
  next
    case (Receive i)
    with receive_inv [OF r(1)] sw show ?thesis by simp
  next
    case (Close_Sub i)
    with close_subscription_inv [OF r(1)] sw show ?thesis by simp
  next
    case (Loss_Timer b token)
    with loss_timer_inv [OF r(1), of b token] r(2) sw show ?thesis by simp
  next
    case (Map_Order ops)
    then show ?thesis by simp
  next
    case (Gate_Use g ge)
    then show ?thesis by simp
  qed
  then show ?thesis by (simp add: evolves_def)
qed

theorem hub_history_witness:
  "prefix (e_events (h_entries demo_hub ! 0)) (e_events (h_entries (fst (cancel ''op'' demo_hub)) ! 0))"
proof -
  have "hub_step (demo_hub, [W_Running]) (fst (cancel ''op'' demo_hub), [W_Running])" by (rule Cancel)
  from hub_history [OF demo_reach _ this, of 0] show ?thesis by simp
qed

subsection \<open>Delivery\<close>

text \<open>
  C7. In every reachable state, what a consumer has received followed by what waits in its channel
  is a prefix of the operation's events after the cursor it subscribed with: no event is lost,
  repeated or reordered. While the operation keeps it registered it is all of those events and the
  channel is open exactly while the operation is live; a consumer that is not registered any more
  finds its channel closed.
\<close>

theorem hub_delivery:
  assumes "hub_reach opts gt n (h, ws)" and "n < 2 ^ 64" and "i < length (h_subs h)"
  shows "prefix (s_received (h_subs h ! i) @ s_queue (h_subs h ! i))
       (filter (\<lambda>re. re_sequence re > s_after (h_subs h ! i))
          (e_events (h_entries h ! s_entry (h_subs h ! i))))
     \<and> (i \<in> set (e_subs (h_entries h ! s_entry (h_subs h ! i))) \<longrightarrow>
          s_received (h_subs h ! i) @ s_queue (h_subs h ! i) =
            filter (\<lambda>re. re_sequence re > s_after (h_subs h ! i))
              (e_events (h_entries h ! s_entry (h_subs h ! i))) \<and>
          s_closed (h_subs h ! i) = e_terminal (h_entries h ! s_entry (h_subs h ! i)))
     \<and> (i \<notin> set (e_subs (h_entries h ! s_entry (h_subs h ! i))) \<longrightarrow> s_closed (h_subs h ! i))"
proof -
  note r = reach_inv [OF assms(1,2)]
  have a: "s_entry (h_subs h ! i) < length ws" using r(1,2) assms(3) by (auto simp: hub_inv_def)
  have "chan_ok (h_entries h ! s_entry (h_subs h ! i)) i (h_subs h ! i)"
    using r(3) [OF a] assms(3) by (auto simp: cell_ok_def)
  then show ?thesis by (simp add: chan_ok_def delivered_def wanted_def)
qed

definition demo_watched :: hub where
  "demo_watched = fst (subscribe ''op'' 0 8 (fst (emit 0 8 Progress ''hi'' demo_hub)))"

lemma demo_watched_reach: "hub_reach demo_options (Some 5) 3 (demo_watched, [W_Running])"
proof -
  have "hub_step (demo_hub, [W_Running]) (fst (emit 0 8 Progress ''hi'' demo_hub), [W_Running])"
    by (rule Emit) simp_all
  moreover have "hub_step (fst (emit 0 8 Progress ''hi'' demo_hub), [W_Running])
      (demo_watched, [W_Running])" unfolding demo_watched_def by (rule Subscribe)
  ultimately have "hub_reach demo_options (Some 5) (Suc (Suc (Suc 0))) (demo_watched, [W_Running])"
    using Step Step [OF demo_reach] by blast
  then show ?thesis by (simp add: eval_nat_numeral)
qed

theorem hub_delivery_witness:
  "length (h_subs demo_watched) = 1 \<and> length (s_queue (h_subs demo_watched ! 0)) = 1
   \<and> prefix (s_received (h_subs demo_watched ! 0) @ s_queue (h_subs demo_watched ! 0))
       (filter (\<lambda>re. re_sequence re > s_after (h_subs demo_watched ! 0))
          (e_events (h_entries demo_watched ! s_entry (h_subs demo_watched ! 0))))"
proof -
  have l: "length (h_subs demo_watched) = 1 \<and> length (s_queue (h_subs demo_watched ! 0)) = 1"
    by code_simp
  with hub_delivery [OF demo_watched_reach, of 0] show ?thesis by simp
qed

subsection \<open>Ending operations\<close>

text \<open>
  C8. An operation whose worker returns ends: after \<open>finish\<close>, whatever the result or the error,
  the operation is terminal, its context is cancelled, no prompt is open, every channel that was
  registered is closed, and its log ends with a completion unless not even the fixed capacity event
  fits in the bytes that are left, in which case its log is what it was. The hub around it is as
  consistent as before.
\<close>

theorem hub_finish_ends:
  assumes "hub_reach opts gt n (h, ws)" and "n < 2 ^ 64" and "a < length ws"
  shows "hub_inv (finish a now result err h)
     \<and> e_terminal (h_entries (finish a now result err h) ! a)
     \<and> e_cancelled (h_entries (finish a now result err h) ! a)
     \<and> e_prompt (h_entries (finish a now result err h) ! a) = None
     \<and> (\<forall>i \<in> set (e_subs (h_entries (finish a now result err h) ! a)).
          s_closed (h_subs (finish a now result err h) ! i))
     \<and> (\<not> e_terminal (h_entries h ! a) \<longrightarrow>
          (\<exists>re. e_events (h_entries (finish a now result err h) ! a) =
              e_events (h_entries h ! a) @ [re] \<and> re_kind re = Complete) \<or>
          (\<exists>x. encode_retained (o_format_time (h_options h)) (capacity_event (h_entries h ! a))
              (o_max_bytes (h_options h) - e_bytes (h_entries h ! a)) = Inl x) \<and>
          e_events (h_entries (finish a now result err h) ! a) = e_events (h_entries h ! a))"
proof -
  note r = reach_inv [OF assms(1,2)]
  let ?h = "finish a now result err h"
  have a: "a < length (h_entries h)" using assms(3) r(2) by simp
  note f = finish_inv [OF r(1) a, of now result err]
  then have a': "a < length (h_entries ?h)" using a by (simp add: same_workers_def)
  have inv: "hub_inv ?h" using f by simp
  note cell = hub_invD(4) [OF inv a']
  have "\<forall>i \<in> set (e_subs (h_entries ?h ! a)). s_closed (h_subs ?h ! i)"
    using cell f by (auto simp: cell_ok_def chan_ok_def)
  moreover have "e_prompt (h_entries ?h ! a) = None \<and> e_cancelled (h_entries ?h ! a)"
    using cell_ok_entry [OF cell] f by (simp add: entry_ok_def)
  ultimately show ?thesis
    using f by (auto simp: ended_log_def closed_log_def split: sum.splits)
qed

theorem hub_finish_ends_witness: "e_terminal (h_entries (finish 0 9 None None demo_hub) ! 0)"
  using hub_finish_ends [OF demo_reach, of 0] by simp

text \<open>
  C9. No operation is left running unwatched for ever: a live operation without a subscriber is
  already cancelled or has its loss timer armed, and the callback of that timer, when it gets to
  run while nobody has subscribed, cancels it; it never cancels an operation that has a subscriber.
\<close>

theorem hub_no_orphans:
  assumes "hub_reach opts gt n (h, ws)" and "n < 2 ^ 64" and "a < length ws"
  shows "(\<not> e_terminal (h_entries h ! a) \<and> e_subs (h_entries h ! a) = [] \<longrightarrow>
       e_cancelled (h_entries h ! a) \<or>
       (\<exists>t. e_loss_timer (h_entries h ! a) = Some t \<and>
          e_cancelled (h_entries (loss_timer_fires a t h) ! a)))
     \<and> (e_subs (h_entries h ! a) \<noteq> [] \<longrightarrow>
          e_cancelled (h_entries (loss_timer_fires a t h) ! a) = e_cancelled (h_entries h ! a))"
proof -
  let ?e = "h_entries h ! a"
  note r = reach_inv [OF assms(1,2)]
  have a: "a < length (h_entries h)" using assms(3) r(2) by simp
  have e: "entry_ok ?e" using cell_ok_entry [OF r(3) [OF assms(3)]] .
  have fires: "e_cancelled (h_entries (loss_timer_fires a t h) ! a)"
    if "e_loss_timer ?e = Some t" and "\<not> e_terminal ?e" and "e_subs ?e = []" for t
    using that e a hub_invD(8) [OF r(1) a] by (simp add: loss_timer_fires_def Let_def entry_ok_def)
  have "\<not> e_terminal ?e \<and> e_subs ?e = [] \<Longrightarrow> e_cancelled ?e \<or> (\<exists>t. e_loss_timer ?e = Some t)"
    using e by (auto simp: entry_ok_def)
  moreover have "e_subs ?e \<noteq> [] \<Longrightarrow>
      e_cancelled (h_entries (loss_timer_fires a t h) ! a) = e_cancelled ?e"
    using a by (simp add: loss_timer_fires_def Let_def)
  ultimately show ?thesis using fires by blast
qed

theorem hub_no_orphans_witness:
  "\<exists>t. e_loss_timer (h_entries demo_hub ! 0) = Some t \<and>
     e_cancelled (h_entries (loss_timer_fires 0 t demo_hub) ! 0)"
proof -
  have "\<not> e_cancelled (h_entries demo_hub ! 0)" by code_simp
  with hub_no_orphans [OF demo_reach, of 0] demo_hub_fields(3,4) show ?thesis by simp
qed

lemma cancel_each_terminal:
  assumes "hub_inv h" and "ops_ok (h_entries h) ops"
    and "\<forall>a < length (h_entries h). \<not> e_terminal (h_entries h ! a) \<longrightarrow> (e_id (h_entries h ! a), a) \<in> set ops"
  shows "\<forall>a < length (h_entries h). e_terminal (h_entries (cancel_each ops now h) ! a)"
  using assms
proof (induction ops now h rule: cancel_each.induct)
  case (1 now h)
  then show ?case by simp
next
  case (2 k a ops now h)
  have a: "a < length (h_entries h)" and id: "e_id (h_entries h ! a) = k"
    using "2.prems"(2) by (auto simp: ops_ok_def)
  define h1 where "h1 = (if map_of (h_ops h) k = Some a then cancel_for_drain a now h else h)"
  have h1: "hub_inv h1" "same_workers h h1"
    using cancel_for_drain_inv [OF "2.prems"(1) a, of now] "2.prems"(1) by (auto simp: h1_def)
  have len: "length (h_entries h1) = length (h_entries h)" using h1(2) by (simp add: same_workers_def)
  have ids: "e_id (h_entries h1 ! b) = e_id (h_entries h ! b)" for b
    using h1(2) by (simp add: same_workers_def evolves_def)
  have mono: "e_terminal (h_entries h ! b) \<Longrightarrow> e_terminal (h_entries h1 ! b)" for b
    using h1(2) by (simp add: same_workers_def evolves_def)
  have ta: "e_terminal (h_entries h1 ! a)"
  proof (cases "map_of (h_ops h) k = Some a")
    case True
    then show ?thesis using cancel_for_drain_inv [OF "2.prems"(1) a, of now] by (simp add: h1_def)
  next
    case False
    have "e_terminal (h_entries h ! a)"
    proof (rule ccontr)
      assume "\<not> e_terminal (h_entries h ! a)"
      then have "e_worker (h_entries h ! a)"
        using cell_ok_entry [OF hub_invD(4) [OF "2.prems"(1) a]] by (simp add: entry_ok_def)
      from hub_invD(8) [OF "2.prems"(1) a this] False id show False by simp
    qed
    then show ?thesis by (rule mono)
  qed
  have "ops_ok (h_entries h1) ops" using "2.prems"(2) by (auto simp: ops_ok_def len ids)
  moreover have "\<forall>b < length (h_entries h1). \<not> e_terminal (h_entries h1 ! b) \<longrightarrow>
      (e_id (h_entries h1 ! b), b) \<in> set ops"
    using "2.prems"(3) mono ta by (auto simp: len ids)
  ultimately have "\<forall>b < length (h_entries h1). e_terminal (h_entries (cancel_each ops now h1) ! b)"
    using "2.IH" h1(1) by (simp add: h1_def)
  then show ?case unfolding cancel_each.simps h1_def [symmetric] len .
qed

text \<open>
  C10. \<open>CancelActiveForDrain\<close> ends everything: afterwards every operation the daemon ever started is
  terminal, so no registered consumer's channel stays open.
\<close>

theorem hub_drain_ends_all:
  assumes "hub_reach opts gt n (h, ws)" and "n < 2 ^ 64"
  shows "\<forall>a < length ws. e_terminal (h_entries (cancel_active_for_drain now h) ! a) \<and>
     (\<forall>i \<in> set (e_subs (h_entries (cancel_active_for_drain now h) ! a)).
        s_closed (h_subs (cancel_active_for_drain now h) ! i))"
proof (intro allI impI conjI ballI)
  fix a assume aw: "a < length ws"
  note r = reach_inv [OF assms]
  let ?h = "cancel_active_for_drain now h"
  have live: "\<forall>b < length (h_entries h). \<not> e_terminal (h_entries h ! b) \<longrightarrow>
      (e_id (h_entries h ! b), b) \<in> set (h_ops h)"
    using hub_invD(8) [OF r(1)] cell_ok_entry [OF hub_invD(4) [OF r(1)]]
    by (auto simp: entry_ok_def dest: map_of_SomeD)
  from cancel_each_terminal [OF r(1) hub_invD(3) [OF r(1)] live, of now] aw r(2)
  show t: "e_terminal (h_entries ?h ! a)" by (simp add: cancel_active_for_drain_def)
  have inv: "hub_inv ?h" and sw: "same_workers h ?h"
    using cancel_each_inv [OF r(1)] by (simp_all add: cancel_active_for_drain_def)
  have "cell_ok (h_options ?h) a (h_entries ?h ! a) (h_subs ?h)"
    by (rule hub_invD(4) [OF inv]) (use sw aw r(2) in \<open>simp add: same_workers_def\<close>)
  then show "s_closed (h_subs ?h ! i)" if "i \<in> set (e_subs (h_entries ?h ! a))" for i
    using t that by (auto simp: cell_ok_def chan_ok_def)
qed

theorem hub_drain_ends_all_witness:
  "e_terminal (h_entries (cancel_active_for_drain 9 demo_hub) ! 0)"
  using hub_drain_ends_all [OF demo_reach, of 9] by simp

subsection \<open>Workers and the gate\<close>

text \<open>
  C11. A draining gate never reports its drain released while an operation's worker still runs: each
  running worker holds a reservation of work of its own, so the gate's count of active work is at
  least the number of running workers, and when it is 0 no worker runs.
\<close>

theorem gate_waits_for_workers:
  assumes "hub_reach opts gt n (h, ws)" and "n < 2 ^ 64" and "h_gate h = Some g"
  shows "count_where (\<lambda>p. p = W_Running) ws \<le> g_active_work g
     \<and> (g_active_work g = 0 \<longrightarrow> (\<forall>a < length ws. ws ! a \<noteq> W_Running))
     \<and> (\<forall>a < length ws. ws ! a = W_Running \<longrightarrow>
          wait_for_drain g now [] \<noteq> Some DrainReleased)"
proof -
  let ?R = "{a. a < length ws \<and> ws ! a = W_Running}"
  let ?tok = "\<lambda>a. the (e_release (h_entries h ! a))"
  have lk: "gate_linked n (h, ws)" by (rule reach_inv(6) [OF assms(1,2)])
  have work: "\<exists>i. e_release (h_entries h ! a) = Some i \<and> g_reservations g i = Some ReservationWork"
    if "a \<in> ?R" for a using lk assms(3) that by (auto simp: gate_linked_def holding_def)
  have inj: "inj_on ?tok ?R"
  proof (rule inj_onI)
    fix a b assume ab: "a \<in> ?R" "b \<in> ?R" "?tok a = ?tok b"
    from work [OF ab(1)] work [OF ab(2)] ab(3)
    have "e_release (h_entries h ! a) = e_release (h_entries h ! b)" by auto
    with lk assms(3) ab(1,2) show "a = b" by (auto simp: gate_linked_def holding_def)
  qed
  have "?tok ` ?R \<subseteq> outstanding ReservationWork g" using work by (force simp: outstanding_def)
  then have "card ?R \<le> card (outstanding ReservationWork g)"
    by (rule card_inj_on_le [OF inj _ finite_outstanding])
  moreover have "g_active_work g = int (card (outstanding ReservationWork g))"
    using lk assms(3) by (simp add: gate_linked_def gate_inv_def gate_counts_def)
  moreover have "count_where (\<lambda>p. p = W_Running) ws = int (card ?R)"
    by (simp add: count_where_def length_filter_conv_card)
  ultimately have le: "count_where (\<lambda>p. p = W_Running) ws \<le> g_active_work g" by simp
  have none: "g_active_work g = 0 \<Longrightarrow> a < length ws \<Longrightarrow> ws ! a \<noteq> W_Running" for a
    using le count_where_pos [of a ws "\<lambda>p. p = W_Running"] by auto
  have "wait_for_drain g now [] \<noteq> Some DrainReleased" if "a < length ws" "ws ! a = W_Running" for a
    using none [OF _ that(1)] that(2) by (auto simp: wait_for_drain.simps [of g])
  with le none show ?thesis by blast
qed

theorem gate_waits_for_workers_witness:
  "wait_for_drain (the (h_gate demo_hub)) 0 [] \<noteq> Some DrainReleased"
proof -
  have "\<not> Option.is_none (h_gate demo_hub)" by code_simp
  then obtain g where "h_gate demo_hub = Some g" by (auto simp: Option.is_none_def)
  with gate_waits_for_workers [OF demo_reach _ this, of 0] show ?thesis by simp
qed

subsection \<open>Starting\<close>

lemma prunes_subset: "prunes es ops ops' \<Longrightarrow> set ops' \<subseteq> set ops"
  by (auto simp: prunes_def)

lemma prune_keeps_live:
  assumes "hub_inv h" and "map_of (h_ops h) k = Some a" and "e_worker (h_entries h ! a)"
  shows "map_of (h_ops (prune now h)) k = Some a"
  using prunes_lookup [OF prune_prunes [OF hub_invD(3) [OF assms(1)]] hub_invD(3) [OF assms(1)] assms(2)]
    assms(3) by blast

text \<open>
  C12. \<open>Start\<close> creates at most one operation, and only when it may: a new operation is the hub's
  next one, with the requested id if one was given, a valid id no retained operation has, while the
  hub is not draining and has room; every other outcome leaves all operations as they were. A call
  that answers with an operation that exists answers with the one of the given id whose request
  digest is the given one. And repeating the call that created an operation, with its id and digest,
  attaches to it again, whatever the clock says and however the map is ordered.
\<close>

theorem hub_start:
  assumes "hub_reach opts gt n (h, ws)" and "n < 2 ^ 64" and "start st clock ids h = (h', r)"
  shows "((\<forall>a. r \<noteq> Inr (a, True)) \<longrightarrow> h_entries h' = h_entries h \<and> h_active h' = h_active h)
     \<and> (\<forall>a. r = Inr (a, False) \<longrightarrow> e_id (h_entries h ! a) = st_id st \<and> st_id st \<noteq> [] \<and>
          e_digest (h_entries h ! a) = st_digest st)
     \<and> (\<forall>a. r = Inr (a, True) \<longrightarrow> a = length (h_entries h) \<and> \<not> h_draining h \<and>
          h_active h < o_max_active (h_options h) \<and> h_active h' = h_active h + 1 \<and>
          valid_operation_id (e_id (h_entries h' ! a)) \<and>
          (st_id st \<noteq> [] \<longrightarrow> e_id (h_entries h' ! a) = st_id st) \<and>
          e_digest (h_entries h' ! a) = st_digest st \<and>
          (st_id st \<noteq> [] \<longrightarrow> snd (start st clock' ids' h') = Inr (a, False)))"
proof -
  note ri = reach_inv [OF assms(1,2)]
  from ri(1) assms(3) show ?thesis
  proof (cases rule: start_cases)
    case (pruned ops)
    have ok: "ops_ok (h_entries h) ops" by (rule prunes_ops_ok [OF pruned(1) hub_invD(3) [OF ri(1)]])
    have "e_id (h_entries h ! a) = k" if "map_of ops k = Some a" for k a
      using map_of_ops_less [OF ok that] by simp
    with pruned show ?thesis by auto
  next
    case new
    obtain i v rel ops g where j: "prunes (h_entries h) (h_ops h) ops" "map_of ops i = None"
      "\<not> h_draining h" "h_active h < o_max_active (h_options h)" "valid_operation_id i"
      "st_id st \<noteq> [] \<longrightarrow> i = st_id st" "new_validator i 0 = Inr v"
      and h': "h' = h\<lparr>h_entries := h_entries h @ [schedule_subscriber_loss (new_entry i (st_digest st) v rel)],
               h_ops := ops @ [(i, length (h_entries h))], h_active := h_active h + 1, h_gate := g\<rparr>"
      using new(2) unfolding joined_def by blast
    have inv': "hub_inv h'" by (rule joined_inv [OF ri(1) new(2)])
    let ?a = "length (h_entries h)"
    have ent: "h_entries h' ! ?a = schedule_subscriber_loss (new_entry i (st_digest st) v rel)"
      by (simp add: h')
    have again: "snd (start st clock' ids' h') = Inr (?a, False)" if id: "st_id st \<noteq> []"
    proof -
      have "map_of (h_ops h') i = Some ?a" using j(2) by (simp add: h' map_add_def)
      then have m: "map_of (h_ops (prune (clock' 0) h')) i = Some ?a"
        by (rule prune_keeps_live [OF inv']) (simp add: ent new_entry_def)
      have d: "st_digest st \<noteq> []" using assms(3) new(1) by (auto simp: start_def split: if_splits)
      have four: "(4::nat) = Suc 3" by simp
      show ?thesis
        unfolding start_def four start_attempts.simps Let_def using d id j(5,6) m ent
        by (simp add: new_entry_def)
    qed
    show ?thesis using new(1) j again ent by (auto simp: h' new_entry_def)
  qed
qed

theorem hub_start_witness:
  "snd (start demo_start (\<lambda>_. 100) (\<lambda>_. Inl Context_Canceled) demo_hub) = Inr (0, False)"
proof -
  have eq: "start demo_start (\<lambda>_. 7) (\<lambda>_. Inr ''x'') (new_hub demo_options (map_option new_gate (Some 5))) =
      (demo_hub, Inr (0, True))"
    by (rule prod_eqI) (simp_all add: demo_hub_def demo_start_result)
  have z: "(0::nat) < 2 ^ 64" by simp
  have "st_id demo_start \<noteq> []" by (simp add: demo_start_def)
  with hub_start [where clock' = "\<lambda>_. 100" and ids' = "\<lambda>_. Inl Context_Canceled", OF Init z eq,
      THEN conjunct2, THEN conjunct2, THEN spec, THEN mp, OF refl]
  show ?thesis by blast
qed

text \<open>
  C13. Pruning forgets only what is over: after it every operation that is live or whose worker has
  not exited is found by its id as before, nothing that was not there is found, no retained
  operation has outlived the retention, and either the completed operations are within their limit
  or every one of them still has its worker.
\<close>

theorem hub_prune:
  assumes "hub_reach opts gt n (h, ws)" and "n < 2 ^ 64"
  shows "(\<forall>k a. map_of (h_ops h) k = Some a \<and>
          (\<not> e_terminal (h_entries h ! a) \<or> e_worker (h_entries h ! a)) \<longrightarrow>
          map_of (h_ops (prune now h)) k = Some a)
     \<and> (\<forall>k a. map_of (h_ops (prune now h)) k = Some a \<longrightarrow> map_of (h_ops h) k = Some a \<and>
          \<not> expired (h_options h) now (h_entries h ! a))
     \<and> (completed_count (h_entries h) (h_ops (prune now h)) \<le> o_max_completed (h_options h) \<or>
        (\<forall>(k, a) \<in> set (h_ops (prune now h)). e_terminal (h_entries h ! a) \<longrightarrow> e_worker (h_entries h ! a)))"
proof -
  note inv = reach_inv(1) [OF assms]
  note ok = hub_invD(3) [OF inv]
  note pr = prune_prunes [OF ok, of now]
  let ?ops = "filter (\<lambda>(k, a). \<not> expired (h_options h) now (h_entries h ! a)) (h_ops h)"
  have ok1: "ops_ok (h_entries h) ?ops" by (rule ops_ok_delete [OF ok])
  have eq: "h_ops (prune now h) = prune_loop (length ?ops) (o_max_completed (h_options h)) (h_entries h) ?ops"
    by (simp add: prune_def prune_completed_def)
  have sub: "set (h_ops (prune now h)) \<subseteq> set ?ops"
    unfolding eq by (rule prunes_subset [OF prune_loop_prunes [OF ok1]])
  have kept: "map_of (h_ops h) k = Some a \<and> \<not> expired (h_options h) now (h_entries h ! a)"
    if "map_of (h_ops (prune now h)) k = Some a" for k a
    using prunes_lookup_back [OF pr ok that] map_of_SomeD [OF that] sub by auto
  have "completed_count (h_entries h) (h_ops (prune now h)) \<le> o_max_completed (h_options h) \<or>
      (\<forall>p \<in> set (h_ops (prune now h)). \<not> removable (h_entries h) p)"
    using prune_loop_done [OF ok1 order_refl] unfolding eq .
  then have "completed_count (h_entries h) (h_ops (prune now h)) \<le> o_max_completed (h_options h) \<or>
        (\<forall>(k, a) \<in> set (h_ops (prune now h)). e_terminal (h_entries h ! a) \<longrightarrow> e_worker (h_entries h ! a))"
    by (auto simp: removable_def)
  with kept prunes_lookup [OF pr ok] show ?thesis by blast
qed

theorem hub_prune_witness: "map_of (h_ops (prune 100 demo_hub)) ''op'' = Some 0"
proof -
  have "Suc 0 < 2 ^ 64" and "\<not> e_terminal (h_entries demo_hub ! 0)" by (simp_all add: demo_hub_fields)
  with hub_prune [OF demo_reach, THEN conjunct1, of 100] demo_hub_fields(2) show ?thesis by blast
qed

subsection \<open>Prompts and subscriptions\<close>



text \<open>
  A client can always attach where it left off: for a retained operation and a cursor that is
  not beyond its log, \<open>Subscribe\<close> refuses only for the subscriber limits (never because events are
  no longer retained), and otherwise hands out a new channel that holds exactly the events after the
  cursor and has room for the configured queue beyond them; the channel is closed at once only for
  an operation that is over.
\<close>

theorem hub_subscribe_replays:
  assumes "hub_reach opts gt n (h, ws)" and "n < 2 ^ 64"
    and "map_of (h_ops (prune now h)) op = Some a" and "after \<le> length (e_events (h_entries h ! a))"
  shows "(if e_sub_count (h_entries h ! a) < o_max_subs_per_op (h_options h) \<and>
             h_subscribers h < o_max_subs (h_options h)
          then snd (subscribe op after now h) = Inr (length (h_subs h)) \<and>
            s_queue (h_subs (fst (subscribe op after now h)) ! length (h_subs h)) =
              drop after (e_events (h_entries h ! a)) \<and>
            s_cap (h_subs (fst (subscribe op after now h)) ! length (h_subs h)) >
              length (drop after (e_events (h_entries h ! a))) \<and>
            s_closed (h_subs (fst (subscribe op after now h)) ! length (h_subs h)) =
              e_terminal (h_entries h ! a)
          else \<exists>e. snd (subscribe op after now h) = Inl e \<and> is_code e OperationCapacityExhausted)"
proof -
  note inv = reach_inv(1) [OF assms(1,2)]
  have pinv: "hub_inv (prune now h)" by (rule hub_inv_prune [OF inv])
  have a: "a < length (h_entries h)" using map_of_ops_less [OF hub_invD(3) [OF pinv] assms(3)] by simp
  have log: "log_ok (h_options h) (h_entries h ! a)" using cell_ok_log [OF hub_invD(4) [OF inv a]] .
  let ?es = "e_events (h_entries h ! a)"
  have seqs: "map re_sequence ?es = [1 ..< Suc (length ?es)]" using log by (simp add: log_ok_def)
  have nth: "re_sequence (?es ! j) = Suc j" if "j < length ?es" for j
    using arg_cong [OF seqs, of "\<lambda>xs. xs ! j"] that by (simp del: upt_Suc)
  have replay: "filter (\<lambda>re. re_sequence re > after) ?es = drop after ?es"
  proof -
    have "filter (\<lambda>re. re_sequence re > after) (take after ?es) = []"
      using nth assms(4) by (auto simp: filter_empty_conv in_set_conv_nth)
    moreover have "filter (\<lambda>re. re_sequence re > after) (drop after ?es) = drop after ?es"
      using nth by (auto simp: filter_id_conv in_set_conv_nth)
    ultimately show ?thesis by (metis append_self_conv2 append_take_drop_id filter_append)
  qed
  have gap: "(?es \<noteq> [] \<and> after + 1 < re_sequence (hd ?es)) = False"
    using log_ok_first_sequence [OF log] by auto
  have cursor: "(after > length ?es) = False" using assms(4) by simp
  show ?thesis
    unfolding subscribe_def Let_def assms(3) option.case prune_fields log_ok_last_sequence [OF log]
      gap cursor if_False replay
    by (auto simp: capacity_error_def new_error_def is_code_def)
qed

theorem hub_subscribe_replays_witness:
  "snd (subscribe ''op'' 0 9 demo_watched) = Inr (length (h_subs demo_watched)) \<and>
   s_queue (h_subs (fst (subscribe ''op'' 0 9 demo_watched)) ! length (h_subs demo_watched)) =
     drop 0 (e_events (h_entries demo_watched ! 0))"
proof -
  have "map_of (h_ops (prune 9 demo_watched)) ''op'' = Some 0"
    "e_sub_count (h_entries demo_watched ! 0) < o_max_subs_per_op (h_options demo_watched)"
    "h_subscribers demo_watched < o_max_subs (h_options demo_watched)" by code_simp+
  with hub_subscribe_replays [OF demo_watched_reach _ this(1), of 0] show ?thesis by simp
qed

end
