(* ===== verification/Go_Paths.thy ===== *)
theory Go_Paths
  imports Go_Strings
begin

text \<open>
  Go's \<open>path/filepath\<close> on Unix: \<open>Clean\<close>, \<open>IsAbs\<close>, \<open>Join\<close>, \<open>Dir\<close>, \<open>Base\<close> and \<open>Rel\<close>. A path is a string; the
  functions work on its elements between separators.
\<close>

subsection \<open>Elements\<close>

fun elems :: "string \<Rightarrow> string list" where
  "elems [] = [[]]"
| "elems (c # s) =
     (if c = CHR ''/'' then [] # elems s
      else case elems s of [] \<Rightarrow> [[c]] | w # ws \<Rightarrow> (c # w) # ws)"

lemma elems_nonempty [simp]: "elems s \<noteq> []"
  by (induction s) (auto split: list.split)

lemma elems_append: "elems (s @ CHR ''/'' # t) = elems s @ elems t"
  by (induction s) (auto split: list.split)

lemma elems_single: "CHR ''/'' \<notin> set s \<Longrightarrow> elems s = [s]"
  by (induction s) auto

lemma elems_no_sep: "w \<in> set (elems s) \<Longrightarrow> CHR ''/'' \<notin> set w"
  by (induction s arbitrary: w) (auto split: list.splits if_splits)

lemma elems_join:
  "ws \<noteq> [] \<Longrightarrow> \<forall>w \<in> set ws. CHR ''/'' \<notin> set w \<Longrightarrow> elems (join ''/'' ws) = ws"
proof (induction ws)
  case (Cons w ws)
  then show ?case
    by (cases ws) (simp_all add: elems_single elems_append)
qed simp

subsection \<open>Cleaning\<close>

text \<open>One element against the stack of elements kept so far, the last one first.\<close>

definition clean_step :: "bool \<Rightarrow> string \<Rightarrow> string list \<Rightarrow> string list" where
  "clean_step rooted w st =
     (if w = [] \<or> w = ''.'' then st
      else if w = ''..'' then
        (case st of
           c # cs \<Rightarrow> if c = ''..'' then (if rooted then st else w # st) else cs
         | [] \<Rightarrow> if rooted then [] else [w])
      else w # st)"

definition clean_elems :: "bool \<Rightarrow> string list \<Rightarrow> string list" where
  "clean_elems rooted ws = rev (fold (clean_step rooted) ws [])"

definition is_abs :: "string \<Rightarrow> bool" where
  "is_abs p \<longleftrightarrow> p \<noteq> [] \<and> hd p = CHR ''/''"

definition build_path :: "bool \<Rightarrow> string list \<Rightarrow> string" where
  "build_path rooted ws =
     (if rooted then CHR ''/'' # join ''/'' ws else if ws = [] then ''.'' else join ''/'' ws)"

definition clean_path :: "string \<Rightarrow> string" where
  "clean_path p = build_path (is_abs p) (clean_elems (is_abs p) (elems p))"

text \<open>The elements of a cleaned path: proper names, after a climb only in a relative path.\<close>

definition proper :: "string \<Rightarrow> bool" where
  "proper w \<longleftrightarrow> w \<noteq> [] \<and> w \<noteq> ''.'' \<and> w \<noteq> ''..'' \<and> CHR ''/'' \<notin> set w"

definition stack_ok :: "bool \<Rightarrow> string list \<Rightarrow> bool" where
  "stack_ok rooted st \<longleftrightarrow>
     (\<exists>names n. st = names @ replicate n ''..'' \<and> list_all proper names \<and> (rooted \<longrightarrow> n = 0))"

lemma stack_okI:
  "st = names @ replicate n ''..'' \<Longrightarrow> list_all proper names \<Longrightarrow> (rooted \<Longrightarrow> n = 0) \<Longrightarrow> stack_ok rooted st"
  unfolding stack_ok_def by blast

lemma clean_step_ok:
  assumes "stack_ok rooted st" and "CHR ''/'' \<notin> set w"
  shows "stack_ok rooted (clean_step rooted w st)"
proof -
  obtain names n where st: "st = names @ replicate n ''..''" and p: "list_all proper names"
    and r: "rooted \<longrightarrow> n = 0" using assms(1) by (auto simp: stack_ok_def)
  consider "w = [] \<or> w = ''.''" | "w = ''..''" | "proper w"
    using assms(2) by (auto simp: proper_def)
  then show ?thesis
  proof cases
    case 1
    then show ?thesis using assms(1) by (simp add: clean_step_def)
  next
    case 2
    show ?thesis
    proof (cases names)
      case (Cons c cs)
      with p have "c \<noteq> ''..''" by (simp add: proper_def)
      then have "clean_step rooted w st = cs @ replicate n ''..''"
        using 2 Cons st by (simp add: clean_step_def)
      with p r Cons show ?thesis by (auto simp: stack_ok_def)
    next
      case Nil
      have "\<not> rooted \<Longrightarrow> clean_step rooted w st = [] @ replicate (Suc n) ''..''"
        using 2 Nil st by (cases n) (simp_all add: clean_step_def)
      moreover have "rooted \<Longrightarrow> clean_step rooted w st = [] @ replicate 0 ''..''"
        using 2 Nil st r by (simp add: clean_step_def)
      ultimately show ?thesis
        by (cases rooted) (auto intro: stack_okI [of _ "[]" "Suc n"] stack_okI [of _ "[]" 0])
    qed
  next
    case 3
    then have "clean_step rooted w st = (w # names) @ replicate n ''..''"
      using st by (auto simp: clean_step_def proper_def)
    with p r 3 show ?thesis by (auto intro: stack_okI [of _ "w # names" n])
  qed
qed

lemma clean_fold_ok:
  "\<forall>w \<in> set ws. CHR ''/'' \<notin> set w \<Longrightarrow> stack_ok rooted st \<Longrightarrow> stack_ok rooted (fold (clean_step rooted) ws st)"
  by (induction ws arbitrary: st) (simp_all add: clean_step_ok)

lemma clean_elems_ok:
  assumes "\<forall>w \<in> set ws. CHR ''/'' \<notin> set w"
  obtains names n where "clean_elems rooted ws = replicate n ''..'' @ names" and "list_all proper names"
    and "rooted \<longrightarrow> n = 0"
proof -
  have "stack_ok rooted []" by (rule stack_okI [of _ "[]" 0]) simp_all
  from clean_fold_ok [OF assms this] obtain names n where
    "fold (clean_step rooted) ws [] = names @ replicate n ''..''" "list_all proper names"
    "rooted \<longrightarrow> n = 0" by (auto simp: stack_ok_def)
  then show ?thesis by (intro that [of n "rev names"]) (simp_all add: clean_elems_def list_all_rev)
qed

lemma clean_names: "list_all proper ws \<Longrightarrow> fold (clean_step rooted) ws st = rev ws @ st"
proof (induction ws arbitrary: st)
  case (Cons w ws)
  then have "clean_step rooted w st = w # st" by (simp add: clean_step_def proper_def)
  with Cons show ?case by simp
qed simp

lemma clean_ups: "fold (clean_step False) (replicate n ''..'') (replicate m ''..'') = replicate (n + m) ''..''"
proof (induction n arbitrary: m)
  case (Suc n)
  have "clean_step False ''..'' (replicate m ''..'') = replicate (Suc m) ''..''"
    by (cases m) (simp_all add: clean_step_def)
  with Suc [of "Suc m"] show ?case by simp
qed simp

lemma clean_elems_fixed:
  assumes "list_all proper names" and "rooted \<longrightarrow> n = 0"
  shows "clean_elems rooted (replicate n ''..'' @ names) = replicate n ''..'' @ names"
proof (cases rooted)
  case True
  with assms show ?thesis by (simp add: clean_elems_def clean_names)
next
  case False
  with clean_ups [of n 0] assms(1) show ?thesis by (simp add: clean_elems_def clean_names)
qed

lemma clean_elems_blank: "clean_elems rooted ([] # ws) = clean_elems rooted ws"
  by (simp add: clean_elems_def clean_step_def)

lemma join_hd:
  assumes "ws \<noteq> []" and "CHR ''/'' \<notin> set (hd ws)" and "hd ws \<noteq> []"
  shows "join ''/'' ws \<noteq> [] \<and> hd (join ''/'' ws) \<noteq> CHR ''/''"
proof -
  obtain w ws' where ws: "ws = w # ws'" using assms(1) by (cases ws) auto
  obtain c cs where w: "w = c # cs" using assms(3) ws by (cases w) auto
  have "c \<noteq> CHR ''/''" using assms(2) ws w by auto
  then show ?thesis unfolding ws w by (cases ws') simp_all
qed

lemma elems_build:
  assumes "list_all proper names" and "rooted \<longrightarrow> n = 0"
  shows "is_abs (build_path rooted (replicate n ''..'' @ names)) = rooted"
    and "clean_elems rooted (elems (build_path rooted (replicate n ''..'' @ names))) =
           replicate n ''..'' @ names"
proof -
  let ?ws = "replicate n ''..'' @ names"
  have sep_ne: "CHR ''/'' \<notin> set w \<and> w \<noteq> []" if "w \<in> set ?ws" for w
  proof -
    have "w = ''..'' \<or> proper w"
      using that assms(1) unfolding set_append set_replicate_conv_if list_all_iff by (cases "n = 0") auto
    then show ?thesis by (rule disjE) (simp_all add: proper_def)
  qed
  then have sep: "\<forall>w \<in> set ?ws. CHR ''/'' \<notin> set w" and ne: "\<forall>w \<in> set ?ws. w \<noteq> []" by blast+
  have hd: "join ''/'' ?ws \<noteq> [] \<and> hd (join ''/'' ?ws) \<noteq> CHR ''/''" if "?ws \<noteq> []"
    by (rule join_hd) (use that sep ne hd_in_set [OF that] in blast)+
  show "is_abs (build_path rooted ?ws) = rooted"
  proof (cases rooted)
    case True
    then show ?thesis by (simp add: build_path_def is_abs_def)
  next
    case False
    with hd show ?thesis by (cases "?ws = []") (simp_all add: build_path_def is_abs_def del: append_is_Nil_conv)
  qed
  show "clean_elems rooted (elems (build_path rooted ?ws)) = ?ws"
  proof (cases "?ws = []")
    case True
    then show ?thesis
      by (simp add: build_path_def clean_elems_def clean_step_def)
  next
    case False
    have "clean_elems rooted (elems (build_path rooted ?ws)) = clean_elems rooted ?ws"
      using elems_join [OF False sep] False
      by (cases rooted) (simp_all add: build_path_def clean_elems_blank del: append_is_Nil_conv)
    with clean_elems_fixed [OF assms] show ?thesis by simp
  qed
qed

lemma clean_path_idem [simp]: "clean_path (clean_path p) = clean_path p"
proof -
  have "\<forall>w \<in> set (elems p). CHR ''/'' \<notin> set w" using elems_no_sep by blast
  then obtain names n where "clean_elems (is_abs p) (elems p) = replicate n ''..'' @ names"
    "list_all proper names" "is_abs p \<longrightarrow> n = 0" by (rule clean_elems_ok)
  then show ?thesis by (simp add: clean_path_def elems_build)
qed

lemma clean_path_abs [simp]: "is_abs (clean_path p) = is_abs p"
proof -
  have "\<forall>w \<in> set (elems p). CHR ''/'' \<notin> set w" using elems_no_sep by blast
  then obtain names n where "clean_elems (is_abs p) (elems p) = replicate n ''..'' @ names"
    "list_all proper names" "is_abs p \<longrightarrow> n = 0" by (rule clean_elems_ok)
  then show ?thesis by (simp add: clean_path_def elems_build)
qed

subsection \<open>Cleaning shortens\<close>

definition path_size :: "string list \<Rightarrow> nat" where
  "path_size ws = sum_list (map (\<lambda>w. Suc (length w)) ws)"

lemma join_length: "ws \<noteq> [] \<Longrightarrow> Suc (length (join ''/'' ws)) = path_size ws"
proof (induction ws)
  case (Cons w ws)
  then show ?case by (cases ws) (simp_all add: path_size_def)
qed simp

lemma elems_length: "Suc (length s) = path_size (elems s)"
proof (induction s)
  case (Cons c s)
  then show ?case by (cases "elems s") (auto simp: path_size_def)
qed (simp add: path_size_def)

lemma clean_step_size: "path_size (clean_step rooted w st) \<le> Suc (length w) + path_size st"
  by (auto simp: clean_step_def path_size_def split: list.split)

lemma clean_fold_size: "path_size (fold (clean_step rooted) ws st) \<le> path_size ws + path_size st"
proof (induction ws arbitrary: st)
  case (Cons w ws)
  have "path_size (fold (clean_step rooted) (w # ws) st) \<le> path_size ws + path_size (clean_step rooted w st)"
    using Cons [of "clean_step rooted w st"] by simp
  with clean_step_size [of rooted w st] show ?case by (simp add: path_size_def)
qed simp

lemma path_size_rev [simp]: "path_size (rev ws) = path_size ws"
  by (simp add: path_size_def rev_map [symmetric])

lemma path_size_clean: "path_size (clean_elems rooted ws) \<le> path_size ws"
proof -
  have "path_size (fold (clean_step rooted) ws []) \<le> path_size ws"
    using clean_fold_size [of rooted ws "[]"] by (simp add: path_size_def)
  then show ?thesis unfolding clean_elems_def path_size_rev .
qed

lemma clean_path_length: "clean_path p = ''.'' \<or> length (clean_path p) \<le> length p"
proof (cases "is_abs p")
  case True
  then obtain q where p: "p = CHR ''/'' # q" by (cases p) (auto simp: is_abs_def)
  let ?ws = "clean_elems True (elems q)"
  have "clean_path p = CHR ''/'' # join ''/'' ?ws"
    using True by (simp add: clean_path_def build_path_def p clean_elems_blank)
  moreover have "length (join ''/'' ?ws) \<le> length q"
    using join_length [of ?ws] path_size_clean [of True "elems q"] elems_length [of q]
    by (cases "?ws = []") auto
  ultimately show ?thesis by (simp add: p)
next
  case False
  let ?ws = "clean_elems False (elems p)"
  show ?thesis
    using False join_length [of ?ws] path_size_clean [of False "elems p"] elems_length [of p]
    by (cases "?ws = []") (auto simp: clean_path_def build_path_def)
qed

lemma clean_trailing_sep: "p \<noteq> [] \<Longrightarrow> clean_path (p @ ''/'') = clean_path p"
proof -
  assume ne: "p \<noteq> []"
  have "elems (p @ ''/'') = elems p @ [[]]" using elems_append [of p "[]"] by simp
  moreover have "is_abs (p @ ''/'') = is_abs p" using ne by (simp add: is_abs_def)
  ultimately show ?thesis by (simp add: clean_path_def clean_elems_def clean_step_def)
qed

subsection \<open>Parts\<close>

definition through_last_sep :: "string \<Rightarrow> string" where
  "through_last_sep p = rev (dropWhile (\<lambda>c. c \<noteq> CHR ''/'') (rev p))"

definition dir_path :: "string \<Rightarrow> string" where
  "dir_path p = clean_path (through_last_sep p)"

definition base_path :: "string \<Rightarrow> string" where
  "base_path p =
     (if p = [] then ''.''
      else
        let q = dropWhile (\<lambda>c. c = CHR ''/'') (rev p)
        in if q = [] then ''/'' else rev (takeWhile (\<lambda>c. c \<noteq> CHR ''/'') q))"

text \<open>\<open>Join\<close> of two elements.\<close>

definition join_path :: "string \<Rightarrow> string \<Rightarrow> string" where
  "join_path a b =
     (if a \<noteq> [] then clean_path (a @ ''/'' @ b)
      else if b \<noteq> [] then clean_path b else [])"

text \<open>\<open>Join\<close> of several elements: those from the first non-empty one on.\<close>

definition join_elems :: "string list \<Rightarrow> string" where
  "join_elems es = (case dropWhile (\<lambda>e. e = []) es of [] \<Rightarrow> [] | e # es' \<Rightarrow> clean_path (join ''/'' (e # es')))"

text \<open>\<open>Abs\<close>, given the working directory when it is known.\<close>

definition abs_path :: "string option \<Rightarrow> string \<Rightarrow> string option" where
  "abs_path wd p =
     (if is_abs p then Some (clean_path p)
      else case wd of None \<Rightarrow> None | Some d \<Rightarrow> Some (join_path d p))"

text \<open>Climbing with \<open>Dir\<close> ends: it stops changing, or gets shorter, or reaches \<open>.\<close>.\<close>

definition climb_measure :: "string \<Rightarrow> nat" where
  "climb_measure p = (if p = ''.'' then 0 else Suc (length p))"

lemma through_last_sep_prefix: "\<exists>q. p = through_last_sep p @ q"
proof -
  have "rev p = takeWhile (\<lambda>c. c \<noteq> CHR ''/'') (rev p) @ dropWhile (\<lambda>c. c \<noteq> CHR ''/'') (rev p)" by simp
  then have "p = through_last_sep p @ rev (takeWhile (\<lambda>c. c \<noteq> CHR ''/'') (rev p))"
    unfolding through_last_sep_def by (metis rev_append rev_rev_ident)
  then show ?thesis by blast
qed

lemma dir_path_climbs:
  assumes "dir_path p \<noteq> p"
  shows "climb_measure (dir_path p) < climb_measure p"
proof -
  obtain q where p: "p = through_last_sep p @ q" using through_last_sep_prefix by blast
  have dot: "dir_path ''.'' = ''.''" by code_simp
  consider "dir_path p = ''.''" | "dir_path p \<noteq> ''.''" "q \<noteq> []" | "dir_path p \<noteq> ''.''" "q = []" by blast
  then show ?thesis
  proof cases
    case 1
    with assms show ?thesis by (auto simp: climb_measure_def)
  next
    case 2
    then have "length (dir_path p) \<le> length (through_last_sep p)"
      using clean_path_length [of "through_last_sep p"] by (simp add: dir_path_def)
    moreover have "length (through_last_sep p) < length p" using p 2(2) by (metis length_append
          length_greater_0_conv less_add_same_cancel1)
    ultimately show ?thesis using 2(1) assms dot by (auto simp: climb_measure_def)
  next
    case 3
    then have t: "through_last_sep p = p" using p by simp
    then have cl: "dir_path p = clean_path p" by (simp add: dir_path_def)
    have empty: "clean_path [] = ''.''" by code_simp
    have ne: "p \<noteq> []" using 3(1) cl empty by metis
    then have "dropWhile (\<lambda>c. c \<noteq> CHR ''/'') (rev p) = rev p"
      using t unfolding through_last_sep_def by (metis rev_rev_ident)
    then have "hd (rev p) = CHR ''/''" using hd_dropWhile [of "\<lambda>c. c \<noteq> CHR ''/''" "rev p"] ne by simp
    then have "last p = CHR ''/''" by (simp add: hd_rev)
    then obtain r where r: "p = r @ ''/''" using ne by (metis append_butlast_last_id)
    have "r \<noteq> []"
    proof
      assume "r = []"
      moreover have "clean_path ''/'' = ''/''" by code_simp
      ultimately show False using assms cl r by simp
    qed
    then have "dir_path p = clean_path r" using clean_trailing_sep [of r] cl r by simp
    then have "length (dir_path p) \<le> length r" using clean_path_length [of r] 3(1) by simp
    with r 3(1) assms dot show ?thesis by (auto simp: climb_measure_def)
  qed
qed

subsection \<open>Relative paths\<close>

fun strip_common :: "string list \<Rightarrow> string list \<Rightarrow> string list \<times> string list" where
  "strip_common (b # bs) (t # ts) = (if b = t then strip_common bs ts else (b # bs, t # ts))"
| "strip_common bs ts = (bs, ts)"

definition names_of :: "string \<Rightarrow> string list" where
  "names_of p = clean_elems (is_abs p) (elems p)"

definition rel_path :: "string \<Rightarrow> string \<Rightarrow> string option" where
  "rel_path base targ =
     (if clean_path targ = clean_path base then Some ''.''
      else if is_abs base \<noteq> is_abs targ then None
      else case strip_common (names_of base) (names_of targ) of
        (bs, ts) \<Rightarrow>
          if ts \<noteq> [] \<and> bs \<noteq> [] \<and> hd bs = ''..'' then None
          else Some (join ''/'' (replicate (length bs) ''..'' @ ts)))"

lemma strip_common_prefix:
  "strip_common bs ts = (bs', ts') \<Longrightarrow> \<exists>c. bs = c @ bs' \<and> ts = c @ ts' \<and>
     (bs' = [] \<or> ts' = [] \<or> hd bs' \<noteq> hd ts')"
proof (induction bs ts arbitrary: bs' ts' rule: strip_common.induct)
  case (1 b bs t ts)
  show ?case
  proof (cases "b = t")
    case True
    with 1 obtain c where "bs = c @ bs' \<and> ts = c @ ts' \<and> (bs' = [] \<or> ts' = [] \<or> hd bs' \<noteq> hd ts')"
      by auto
    with True show ?thesis by (intro exI [of _ "b # c"]) simp
  next
    case False
    with 1 show ?thesis by auto
  qed
qed auto

end
