(* ===== verification/Path_Utils.thy ===== *)
theory Path_Utils
  imports Go_Paths
begin

text \<open>
  The helpers of \<open>internal/utils/utils.go\<close> and the path identity of the registry
  (\<open>PathKey\<close> in \<open>internal/registry/registry.go\<close>), on Unix. What they ask of the operating system is a
  record of functions: the working directory, the home directory, the environment's expansion and
  \<open>EvalSymlinks\<close> (\<open>None\<close> when it fails).
\<close>

record path_env =
  pe_wd :: "string option"
  pe_home :: "string option"
  pe_expand :: "string \<Rightarrow> string"
  pe_eval :: "string \<Rightarrow> string option"

subsection \<open>Slices\<close>

text \<open>The loop of \<open>Unique\<close>, with the elements seen so far and the result so far.\<close>

fun unique_loop :: "'a set \<Rightarrow> 'a list \<Rightarrow> 'a list \<Rightarrow> 'a list" where
  "unique_loop seen result [] = result"
| "unique_loop seen result (x # xs) =
     (if x \<in> seen then unique_loop seen result xs
      else unique_loop (insert x seen) (result @ [x]) xs)"

definition unique :: "'a list \<Rightarrow> 'a list" where
  "unique xs = unique_loop {} [] xs"

lemma unique_loop_spec:
  "set result = seen \<Longrightarrow> distinct result \<Longrightarrow>
     distinct (unique_loop seen result xs) \<and> set (unique_loop seen result xs) = seen \<union> set xs \<and>
     (\<exists>ys. unique_loop seen result xs = result @ ys \<and> subseq ys xs)"
proof (induction xs arbitrary: seen result)
  case (Cons x xs)
  show ?case
  proof (cases "x \<in> seen")
    case True
    from Cons.IH [OF Cons.prems] obtain ys where
      "unique_loop seen result xs = result @ ys" "subseq ys xs"
      "distinct (unique_loop seen result xs)" "set (unique_loop seen result xs) = seen \<union> set xs"
      by blast
    with True show ?thesis by auto
  next
    case False
    with Cons.prems Cons.IH [of "result @ [x]" "insert x seen"] obtain ys where
      "unique_loop (insert x seen) (result @ [x]) xs = (result @ [x]) @ ys" "subseq ys xs"
      "distinct (unique_loop (insert x seen) (result @ [x]) xs)"
      "set (unique_loop (insert x seen) (result @ [x]) xs) = insert x seen \<union> set xs" by auto
    with False show ?thesis by auto
  qed
qed auto

subsection \<open>Text for shells and file names\<close>

text \<open>\<open>strings.ReplaceAll\<close> of one byte.\<close>

definition replace_char :: "char \<Rightarrow> string \<Rightarrow> string \<Rightarrow> string" where
  "replace_char c r s = concat (map (\<lambda>x. if x = c then r else [x]) s)"

definition escape_for_shell :: "string \<Rightarrow> string" where
  "escape_for_shell s =
     replace_char (CHR 0x60) [CHR 0x5C, CHR 0x60]
       (replace_char (CHR ''$'') [CHR 0x5C, CHR ''$'']
         (replace_char (CHR 0x22) [CHR 0x5C, CHR 0x22]
           (replace_char (CHR 0x5C) [CHR 0x5C, CHR 0x5C] s)))"

definition sanitize_for_filesystem :: "string \<Rightarrow> string" where
  "sanitize_for_filesystem s =
     map (\<lambda>c. if c \<in> {CHR ''/'', CHR 0x5C, CHR '':'', CHR ''*'', CHR ''?'', CHR 0x22, CHR ''<'',
                       CHR ''>'', CHR ''|''} then CHR ''-'' else c) s"

text \<open>How a POSIX shell reads text between double quotes; \<open>None\<close> where it would end the quotes,
  expand something, or still wait for input.\<close>

definition shell_special :: "char \<Rightarrow> bool" where
  "shell_special c \<longleftrightarrow> c = CHR 0x5C \<or> c = CHR 0x22 \<or> c = CHR ''$'' \<or> c = CHR 0x60"

fun read_double_quoted :: "string \<Rightarrow> string option" where
  "read_double_quoted [] = Some []"
| "read_double_quoted (c # s) =
     (if c = CHR 0x5C then
        (case s of
           [] \<Rightarrow> None
         | d # t \<Rightarrow>
             if shell_special d then map_option (\<lambda>r. d # r) (read_double_quoted t)
             else if d = CHR 0x0A then read_double_quoted t
             else map_option (\<lambda>r. c # d # r) (read_double_quoted t))
      else if shell_special c then None
      else map_option (\<lambda>r. c # r) (read_double_quoted s))"

lemma replace_char_simps [simp]:
  "replace_char c r [] = []"
  "replace_char c r (s @ t) = replace_char c r s @ replace_char c r t"
  "replace_char c r (x # s) = (if x = c then r else [x]) @ replace_char c r s"
  by (simp_all add: replace_char_def)

lemma escape_for_shell_Cons:
  "escape_for_shell (c # s) = (if shell_special c then [CHR 0x5C, c] else [c]) @ escape_for_shell s"
  by (simp add: escape_for_shell_def shell_special_def)

text \<open>
  \<open>EscapeForShell\<close> is safe inside double quotes: a shell that reads the escaped text there reads
  back exactly the original, without ending the quotes and without expanding anything, whatever the
  text.
\<close>

theorem escape_for_shell_roundtrip: "read_double_quoted (escape_for_shell s) = Some s"
proof (induction s)
  case Nil
  then show ?case by (simp add: escape_for_shell_def)
next
  case (Cons c s)
  then show ?case by (auto simp: escape_for_shell_Cons shell_special_def)
qed

subsection \<open>Paths\<close>

definition expand_path :: "path_env \<Rightarrow> string \<Rightarrow> string + string" where
  "expand_path env p0 =
     (if p0 = [] then Inr []
      else
        let p = pe_expand env p0;
            expanded =
              (if p = ''~'' \<or> has_prefix p ''~/''
               then (case pe_home env of
                       None \<Rightarrow> Inl ''failed to get home directory''
                     | Some home \<Rightarrow> Inr (if p = ''~'' then home else join_path home (drop 2 p)))
               else Inr p)
        in case expanded of
          Inl e \<Rightarrow> Inl e
        | Inr q \<Rightarrow>
            if is_abs q then Inr q
            else (case abs_path (pe_wd env) q of
                    None \<Rightarrow> Inl ''failed to get absolute path''
                  | Some a \<Rightarrow> Inr a))"

definition canonical_path :: "path_env \<Rightarrow> string \<Rightarrow> string" where
  "canonical_path env p =
     (let a = (case abs_path (pe_wd env) p of Some q \<Rightarrow> q | None \<Rightarrow> p)
      in clean_path (case pe_eval env a of Some r \<Rightarrow> r | None \<Rightarrow> a))"

text \<open>\<open>platformPathKey\<close> keeps the path as it is on Unix.\<close>

definition utils_path_key :: "path_env \<Rightarrow> string \<Rightarrow> string" where
  "utils_path_key env p = canonical_path env p"

definition is_same_or_child :: "path_env \<Rightarrow> string \<Rightarrow> string \<Rightarrow> bool" where
  "is_same_or_child env path parent =
     (if path = [] \<or> parent = [] then False
      else case rel_path (canonical_path env parent) (canonical_path env path) of
        None \<Rightarrow> False
      | Some rel \<Rightarrow> rel = ''.'' \<or> (rel \<noteq> ''..'' \<and> \<not> has_prefix rel ''../''))"

definition tilde_path :: "path_env \<Rightarrow> string \<Rightarrow> string" where
  "tilde_path env p =
     (case pe_home env of
        None \<Rightarrow> p
      | Some home \<Rightarrow>
          let cp = clean_path p; ch = clean_path home in
          if has_prefix cp ch
          then if length cp = length ch then ''~''
               else if length cp > length ch \<and> cp ! length ch = CHR ''/''
               then CHR ''~'' # drop (length ch) cp
               else p
          else p)"

text \<open>The climb of the registry's \<open>PathKey\<close> to the nearest ancestor that resolves, with the elements
  it left behind.\<close>

function path_key_climb :: "path_env \<Rightarrow> string \<Rightarrow> string list \<Rightarrow> string \<Rightarrow> string" where
  "path_key_climb env current missing path =
     (case pe_eval env current of
        Some resolved \<Rightarrow> utils_path_key env (fold (\<lambda>m r. join_path r m) missing resolved)
      | None \<Rightarrow>
          if dir_path current = current then utils_path_key env path
          else path_key_climb env (dir_path current) (base_path current # missing) path)"
  by pat_completeness auto
termination
  by (relation "measure (\<lambda>(env, current, missing, path). climb_measure current)")
     (auto intro: dir_path_climbs)

declare path_key_climb.simps [simp del]

definition path_key :: "path_env \<Rightarrow> string \<Rightarrow> string" where
  "path_key env p =
     (if p = [] then []
      else
        let a = (case abs_path (pe_wd env) p of Some q \<Rightarrow> q | None \<Rightarrow> p)
        in path_key_climb env (clean_path a) [] a)"

subsection \<open>Containment\<close>

lemma abs_clean_names:
  assumes "is_abs p"
  shows "clean_path p = build_path True (names_of p)" and "list_all proper (names_of p)"
    and "names_of (clean_path p) = names_of p"
proof -
  have "\<forall>w \<in> set (elems p). CHR ''/'' \<notin> set w" using elems_no_sep by blast
  then obtain names n where e: "clean_elems True (elems p) = replicate n ''..'' @ names"
    "list_all proper names" "True \<longrightarrow> n = 0" by (rule clean_elems_ok)
  then show "list_all proper (names_of p)" using assms by (simp add: names_of_def)
  show "clean_path p = build_path True (names_of p)" using assms by (simp add: clean_path_def names_of_def)
  show "names_of (clean_path p) = names_of p"
    using assms e elems_build [of names True 0] by (simp add: names_of_def clean_path_def)
qed

text \<open>A relative path that starts by going up.\<close>

definition goes_up :: "string \<Rightarrow> bool" where
  "goes_up rel \<longleftrightarrow> rel = ''..'' \<or> has_prefix rel ''../''"

lemma goes_up_elems: "goes_up rel \<longleftrightarrow> hd (elems rel) = ''..''"
proof
  assume "goes_up rel"
  then consider "rel = ''..''" | t where "rel = ''..'' @ CHR ''/'' # t"
    by (auto simp: goes_up_def has_prefix_def prefix_def)
  then show "hd (elems rel) = ''..''"
    by cases (simp_all add: elems_append elems_single del: append_Cons)
next
  assume "hd (elems rel) = ''..''"
  moreover have "rel = join ''/'' (elems rel)"
  proof (induction rel)
    case (Cons c s)
    show ?case
    proof (cases "c = CHR ''/''")
      case True
      with Cons show ?thesis by (cases "elems s") auto
    next
      case False
      then show ?thesis using Cons by (cases "elems s"; cases "tl (elems s)") auto
    qed
  qed simp
  ultimately show "goes_up rel"
    by (cases "elems rel"; cases "tl (elems rel)") (auto simp: goes_up_def has_prefix_def)
qed

lemma rel_path_inside:
  assumes "is_abs base" and "is_abs targ"
  shows "(case rel_path base targ of None \<Rightarrow> False | Some rel \<Rightarrow> rel = ''.'' \<or> \<not> goes_up rel) \<longleftrightarrow>
     prefix (names_of base) (names_of targ)"
proof (cases "clean_path targ = clean_path base")
  case True
  then have "names_of targ = names_of base" using assms abs_clean_names(3) by metis
  with True show ?thesis by (simp add: rel_path_def)
next
  case False
  then have diff: "names_of targ \<noteq> names_of base" using assms abs_clean_names(1) by metis
  obtain bs ts where st: "strip_common (names_of base) (names_of targ) = (bs, ts)" by fastforce
  obtain c where c: "names_of base = c @ bs" "names_of targ = c @ ts"
    and d: "bs = [] \<or> ts = [] \<or> hd bs \<noteq> hd ts" using strip_common_prefix [OF st] by blast
  have prp: "list_all proper bs" "list_all proper ts"
    using abs_clean_names(2) [OF assms(1)] abs_clean_names(2) [OF assms(2)] c by simp_all
  have no_up: "\<not> (ts \<noteq> [] \<and> bs \<noteq> [] \<and> hd bs = ''..'')"
    using prp(1) by (cases bs) (auto simp: proper_def)
  have rel: "rel_path base targ = Some (join ''/'' (replicate (length bs) ''..'' @ ts))"
    using False assms st no_up by (auto simp: rel_path_def)
  have pre: "prefix (names_of base) (names_of targ) \<longleftrightarrow> bs = []"
    using c d by (cases bs; cases ts) (auto simp: prefix_def)
  let ?ws = "replicate (length bs) ''..'' @ ts"
  have ne: "?ws \<noteq> []" using diff c by auto
  have "CHR ''/'' \<notin> set w" if "w \<in> set ?ws" for w
  proof -
    have "w = ''..'' \<or> proper w"
      using that prp(2) unfolding set_append set_replicate_conv_if list_all_iff
      by (cases "length bs = 0") auto
    then show ?thesis by (rule disjE) (simp_all add: proper_def)
  qed
  then have el: "elems (join ''/'' ?ws) = ?ws" using ne by (intro elems_join) blast+
  have "join ''/'' ?ws \<noteq> ''.''"
  proof
    assume "join ''/'' ?ws = ''.''"
    then have ws: "?ws = [''.'']" using el by simp
    then show False
    proof (cases bs)
      case Nil
      with ws prp(2) show ?thesis by (simp add: proper_def)
    next
      case (Cons b bs')
      with ws show ?thesis by simp
    qed
  qed
  moreover have "goes_up (join ''/'' ?ws) \<longleftrightarrow> bs \<noteq> []"
  proof (cases bs)
    case Nil
    with ne prp(2) el show ?thesis by (cases ts) (auto simp: goes_up_elems proper_def)
  next
    case (Cons b bs')
    with el show ?thesis by (simp add: goes_up_elems)
  qed
  ultimately show ?thesis by (simp add: rel pre)
qed

text \<open>
  C22. \<open>IsSameOrChildPath\<close> is containment of paths, not of texts: when both canonical paths are
  absolute (the working directory is known or the paths are absolute, and \<open>EvalSymlinks\<close> answers
  with absolute paths, as documented), it holds exactly when the elements of the parent's canonical
  path are a prefix of the elements of the path's; so \<open>/a/bc\<close> is not inside \<open>/a/b\<close>, and a child
  named \<open>..x\<close> is inside.
\<close>

theorem is_same_or_child_prefix:
  assumes "path \<noteq> []" and "parent \<noteq> []"
    and "is_abs (canonical_path env path)" and "is_abs (canonical_path env parent)"
  shows "is_same_or_child env path parent \<longleftrightarrow>
     prefix (names_of (canonical_path env parent)) (names_of (canonical_path env path))"
proof -
  have "is_same_or_child env path parent \<longleftrightarrow>
     (case rel_path (canonical_path env parent) (canonical_path env path) of
        None \<Rightarrow> False | Some rel \<Rightarrow> rel = ''.'' \<or> \<not> goes_up rel)"
    using assms(1,2) by (simp add: is_same_or_child_def goes_up_def split: option.split)
  with rel_path_inside [OF assms(4,3)] show ?thesis by simp
qed

definition demo_env :: path_env where
  "demo_env = \<lparr>pe_wd = Some ''/w'', pe_home = Some ''/home/u'', pe_expand = (\<lambda>s. s),
     pe_eval = (\<lambda>p. if p = ''/link'' then Some ''/real'' else None)\<rparr>"

theorem is_same_or_child_prefix_witness:
  "is_same_or_child demo_env ''/a/b/..c'' ''/a/./b'' \<and> \<not> is_same_or_child demo_env ''/a/bc'' ''/a/b''"
proof -
  have "is_abs (canonical_path demo_env ''/a/b/..c'')" "is_abs (canonical_path demo_env ''/a/./b'')"
    "is_abs (canonical_path demo_env ''/a/bc'')" "is_abs (canonical_path demo_env ''/a/b'')"
    "prefix (names_of (canonical_path demo_env ''/a/./b'')) (names_of (canonical_path demo_env ''/a/b/..c''))"
    "\<not> prefix (names_of (canonical_path demo_env ''/a/b'')) (names_of (canonical_path demo_env ''/a/bc''))"
    by code_simp+
  then show ?thesis
    using is_same_or_child_prefix [of "''/a/b/..c''" "''/a/./b''" demo_env]
      is_same_or_child_prefix [of "''/a/bc''" "''/a/b''" demo_env] by simp
qed

end
