(* ===== verification/Registry.thy ===== *)
theory Registry
  imports Path_Utils "HOL-Library.AList" "HOL-Library.Multiset"
begin

text \<open>
  The registry of worktrees (\<open>internal/registry/registry.go\<close>): a JSON file shared by processes,
  mutated read-modify-write under a file lock, and each process' copy of it. The file is what its
  bytes decode to (\<open>encoding/json\<close> and \<open>time.Time\<close> keep a saved entry, up to the order of the map's
  iteration); a map from paths to entries is an association list with distinct keys whose order
  stands for the iteration order; \<open>PathKey\<close> is the argument \<open>pk\<close> (\<open>path_key\<close> of
  \<open>Path_Utils\<close> on Unix). Times are instants, so \<open>Equal\<close> is equality.
\<close>

subsection \<open>Entries, the file and the process' copy\<close>

record worktree_entry =
  we_repository :: string
  we_branch :: string
  we_path :: string
  we_hash :: string
  we_is_main :: bool
  we_registered_at :: gtime
  we_expires_at :: "gtime option"
  we_generation :: string
  we_creation_token :: string
  we_unreviewed :: bool

type_synonym entry_map = "(string \<times> worktree_entry) list"

text \<open>What reading the file finds: no file, an I/O error, no bytes, bytes that are not the JSON of a
  list, or a list whose elements may be \<open>null\<close>.\<close>

datatype registry_file =
    Absent
  | Unreadable string
  | Empty_File
  | Bad_Json string
  | Entries "worktree_entry option list"

datatype registry_error = Registry_Error string | Nil_Dereference

record registry =
  rg_file :: registry_file
  rg_entries :: entry_map

definition is_expired :: "gtime \<Rightarrow> worktree_entry \<Rightarrow> bool" where
  "is_expired now e = (case we_expires_at e of None \<Rightarrow> False | Some t \<Rightarrow> now > t)"

fun index_entries :: "worktree_entry list \<Rightarrow> entry_map \<Rightarrow> entry_map" where
  "index_entries [] m = m"
| "index_entries (e # es) m = index_entries es (AList.update (we_path e) e m)"

definition load_entries :: "registry_file \<Rightarrow> registry_error + entry_map" where
  "load_entries f =
     (case f of
        Absent \<Rightarrow> Inr []
      | Unreadable e \<Rightarrow> Inl (Registry_Error (''failed to read registry: '' @ e))
      | Empty_File \<Rightarrow> Inr []
      | Bad_Json e \<Rightarrow> Inl (Registry_Error (''failed to unmarshal registry: '' @ e))
      | Entries es \<Rightarrow>
          if None \<in> set es then Inl Nil_Dereference
          else Inr (index_entries (map the es) []))"

text \<open>The outcomes of the I/O steps of one mutation; the rename at the end of a save is atomic, so a
  save that fails leaves the file as it was.\<close>

record registry_io =
  io_mkdir :: "string option"
  io_lock :: "string option"
  io_save :: "string option"

definition save_entries :: "entry_map \<Rightarrow> registry_file" where
  "save_entries m = Entries (map (Some \<circ> snd) m)"

text \<open>A change: the map it leaves, what it told its caller, and its result (an error, or whether
  there is something to save).\<close>

type_synonym change = "entry_map \<Rightarrow> entry_map \<times> bool \<times> (string + bool)"

definition mutate_checked ::
    "registry_io \<Rightarrow> change \<Rightarrow> registry \<Rightarrow> registry \<times> bool \<times> registry_error option" where
  "mutate_checked io ch r =
     (case io_mkdir io of
        Some e \<Rightarrow> (r, False, Some (Registry_Error (''failed to create registry directory: '' @ e)))
      | None \<Rightarrow>
      case io_lock io of
        Some e \<Rightarrow> (r, False, Some (Registry_Error (''failed to lock registry: '' @ e)))
      | None \<Rightarrow>
      case load_entries (rg_file r) of
        Inl e \<Rightarrow> (r, False, Some e)
      | Inr m \<Rightarrow>
          (case ch m of
             (m', flag, Inl e) \<Rightarrow> (r\<lparr>rg_entries := m'\<rparr>, flag, Some (Registry_Error e))
           | (m', flag, Inr changed) \<Rightarrow>
               if changed then
                 (case io_save io of
                    Some e \<Rightarrow> (r, flag, Some (Registry_Error e))
                  | None \<Rightarrow> (\<lparr>rg_file = save_entries m', rg_entries = m'\<rparr>, flag, None))
               else (r\<lparr>rg_entries := m'\<rparr>, flag, None)))"

text \<open>\<open>mutate\<close>: a change that cannot fail; the flag is what it captures, and whether to save.\<close>

definition mutate ::
    "registry_io \<Rightarrow> (entry_map \<Rightarrow> entry_map \<times> bool \<times> bool) \<Rightarrow> registry
       \<Rightarrow> registry \<times> bool \<times> registry_error option" where
  "mutate io ch r = mutate_checked io (\<lambda>m. case ch m of (m', flag, changed) \<Rightarrow> (m', flag, Inr changed)) r"

subsection \<open>Matching\<close>

definition matches :: "(string \<Rightarrow> string) \<Rightarrow> string \<Rightarrow> string \<times> worktree_entry \<Rightarrow> bool" where
  "matches pk path p \<longleftrightarrow> fst p = path \<or> we_path (snd p) = path \<or> pk (we_path (snd p)) = pk path"

definition matching_keys :: "(string \<Rightarrow> string) \<Rightarrow> entry_map \<Rightarrow> string \<Rightarrow> string list" where
  "matching_keys pk m path = map fst (filter (matches pk path) m)"

definition delete_keys :: "string list \<Rightarrow> entry_map \<Rightarrow> entry_map" where
  "delete_keys ks m = filter (\<lambda>p. fst p \<notin> set ks) m"

definition entry_at :: "entry_map \<Rightarrow> string \<Rightarrow> worktree_entry" where
  "entry_at m k = the (map_of m k)"

definition entry_for_path :: "(string \<Rightarrow> string) \<Rightarrow> entry_map \<Rightarrow> string \<Rightarrow> worktree_entry option" where
  "entry_for_path pk m path =
     (case map_of m path of
        Some e \<Rightarrow> Some e
      | None \<Rightarrow> map_option snd (find (\<lambda>p. pk (we_path (snd p)) = pk path) m))"

definition with_registered_at :: "gtime \<Rightarrow> worktree_entry \<Rightarrow> worktree_entry" where
  "with_registered_at now e =
     (if time_is_zero (we_registered_at e) then e\<lparr>we_registered_at := now\<rparr> else e)"

subsection \<open>Operations\<close>

definition register ::
    "(string \<Rightarrow> string) \<Rightarrow> registry_io \<Rightarrow> gtime \<Rightarrow> worktree_entry \<Rightarrow> registry
       \<Rightarrow> registry \<times> bool \<times> registry_error option" where
  "register pk io now entry r =
     (let copied = with_registered_at now entry in
      mutate io (\<lambda>m. (AList.update (we_path copied) copied
                         (delete_keys (matching_keys pk m (we_path copied)) m), False, True)) r)"

definition put_opt :: "worktree_entry option \<Rightarrow> entry_map \<Rightarrow> entry_map" where
  "put_opt x m = (case x of None \<Rightarrow> m | Some e \<Rightarrow> AList.update (we_path e) e m)"

text \<open>Whether the entries stored for a path are exactly the expected state.\<close>

definition observed ::
    "(string \<Rightarrow> string) \<Rightarrow> entry_map \<Rightarrow> string \<Rightarrow> worktree_entry option \<Rightarrow> bool" where
  "observed pk m path expected =
     (let ks = matching_keys pk m path in
      case expected of
        None \<Rightarrow> ks = []
      | Some e \<Rightarrow> length ks = 1 \<and> entry_at m (hd ks) = e)"

definition compare_and_swap ::
    "(string \<Rightarrow> string) \<Rightarrow> registry_io \<Rightarrow> gtime \<Rightarrow> string \<Rightarrow> worktree_entry option
       \<Rightarrow> worktree_entry option \<Rightarrow> registry \<Rightarrow> registry \<times> bool \<times> registry_error option" where
  "compare_and_swap pk io now path expected replacement r =
     mutate io (\<lambda>m.
       if \<not> observed pk m path expected then (m, False, False)
       else (put_opt (map_option (with_registered_at now) replacement)
               (delete_keys (matching_keys pk m path) m), True, True)) r"

text \<open>The matching loop of \<open>CompareAndSwapAliases\<close>: each stored entry takes the first expected entry
  not taken yet that equals it, and one owned by a creation matches nothing.\<close>

fun take_match :: "worktree_entry \<Rightarrow> (worktree_entry \<times> bool) list \<Rightarrow> (worktree_entry \<times> bool) list option" where
  "take_match e [] = None"
| "take_match e ((w, taken) # ws) =
     (if \<not> taken \<and> e = w then Some ((w, True) # ws)
      else map_option (\<lambda>ws'. (w, taken) # ws') (take_match e ws))"

fun match_all :: "worktree_entry list \<Rightarrow> (worktree_entry \<times> bool) list \<Rightarrow> bool" where
  "match_all [] ws = True"
| "match_all (e # es) ws =
     (if we_creation_token e \<noteq> [] then False
      else case take_match e ws of None \<Rightarrow> False | Some ws' \<Rightarrow> match_all es ws')"

definition compare_and_swap_aliases ::
    "(string \<Rightarrow> string) \<Rightarrow> registry_io \<Rightarrow> worktree_entry option list \<Rightarrow> worktree_entry option
       \<Rightarrow> registry \<Rightarrow> (registry \<times> bool \<times> registry_error option) option" where
  "compare_and_swap_aliases pk io expected retained r =
     (if length expected < 2 then Some (r, False, None)
      else case hd expected of
        None \<Rightarrow> None
      | Some first \<Rightarrow>
          let group = we_path first in
          if \<exists>e \<in> set expected. e = None \<or> pk (we_path (the e)) \<noteq> pk group then Some (r, False, None)
          else if retained \<noteq> None \<and> retained \<notin> set expected then Some (r, False, None)
          else Some (mutate io (\<lambda>m.
            let ks = matching_keys pk m group in
            if length ks \<noteq> length expected
               \<or> \<not> match_all (map (entry_at m) ks) (map (\<lambda>e. (the e, False)) expected)
            then (m, False, False)
            else (put_opt retained (delete_keys ks m), True, True)) r))"

text \<open>\<open>RemoveIfMatchAfter\<close>: the outcome of the caller's removal, run under the lock, is an argument;
  \<open>removal_runs\<close> says whether it is called.\<close>

definition removal_runs ::
    "(string \<Rightarrow> string) \<Rightarrow> entry_map \<Rightarrow> string \<Rightarrow> worktree_entry option \<Rightarrow> bool" where
  "removal_runs pk m path expected = observed pk m path expected"

definition remove_if_match_after ::
    "(string \<Rightarrow> string) \<Rightarrow> registry_io \<Rightarrow> string \<Rightarrow> worktree_entry option \<Rightarrow> string option
       \<Rightarrow> registry \<Rightarrow> registry \<times> bool \<times> registry_error option" where
  "remove_if_match_after pk io path expected removal r =
     mutate_checked io (\<lambda>m.
       if \<not> removal_runs pk m path expected then (m, False, Inr False)
       else case removal of
         Some e \<Rightarrow> (m, False, Inl e)
       | None \<Rightarrow>
           if expected = None then (m, True, Inr False)
           else (AList.delete (hd (matching_keys pk m path)) m, True, Inr True)) r"

definition entry_matches ::
    "(string \<Rightarrow> string) \<Rightarrow> registry_io \<Rightarrow> string \<Rightarrow> worktree_entry option \<Rightarrow> registry
       \<Rightarrow> registry \<times> bool \<times> registry_error option" where
  "entry_matches pk io path expected r =
     mutate_checked io (\<lambda>m. (m, observed pk m path expected, Inr False)) r"

text \<open>The guard the three creation operations share: one entry, provisionally owned by the token.\<close>

definition owned_by :: "(string \<Rightarrow> string) \<Rightarrow> entry_map \<Rightarrow> string \<Rightarrow> string \<Rightarrow> bool" where
  "owned_by pk m path token =
     (let ks = matching_keys pk m path in
      length ks = 1 \<and> we_creation_token (entry_at m (hd ks)) = token)"

definition complete_creation ::
    "(string \<Rightarrow> string) \<Rightarrow> registry_io \<Rightarrow> string \<Rightarrow> string \<Rightarrow> string \<Rightarrow> registry
       \<Rightarrow> registry \<times> bool \<times> registry_error option" where
  "complete_creation pk io path token generation r =
     mutate io (\<lambda>m.
       if \<not> owned_by pk m path token then (m, False, False)
       else let k = hd (matching_keys pk m path) in
         (AList.update k ((entry_at m k)\<lparr>we_creation_token := [], we_generation := generation\<rparr>) m,
          True, True)) r"

definition reclaim_creation ::
    "(string \<Rightarrow> string) \<Rightarrow> registry_io \<Rightarrow> gtime \<Rightarrow> string \<Rightarrow> string \<Rightarrow> worktree_entry \<Rightarrow> registry
       \<Rightarrow> registry \<times> bool \<times> registry_error option" where
  "reclaim_creation pk io now path token replacement r =
     (let copied = with_registered_at now replacement in
      mutate io (\<lambda>m.
        if \<not> owned_by pk m path token then (m, False, False)
        else (AList.update (we_path copied) copied
                (AList.delete (hd (matching_keys pk m path)) m), True, True)) r)"

definition abort_creation ::
    "(string \<Rightarrow> string) \<Rightarrow> registry_io \<Rightarrow> string \<Rightarrow> string \<Rightarrow> worktree_entry option \<Rightarrow> registry
       \<Rightarrow> registry \<times> bool \<times> registry_error option" where
  "abort_creation pk io path token previous r =
     mutate io (\<lambda>m.
       if \<not> owned_by pk m path token then (m, False, False)
       else
         let k = hd (matching_keys pk m path); current = entry_at m k in
         (put_opt (map_option (\<lambda>p. p\<lparr>we_unreviewed := we_unreviewed p \<and> we_unreviewed current\<rparr>) previous)
            (AList.delete k m), True, True)) r"

definition set_expiration_if_generation ::
    "(string \<Rightarrow> string) \<Rightarrow> (string \<Rightarrow> string) \<Rightarrow> registry_io \<Rightarrow> gtime \<Rightarrow> string \<Rightarrow> string \<Rightarrow> string
       \<Rightarrow> string \<Rightarrow> gtime option \<Rightarrow> registry \<Rightarrow> registry \<times> bool \<times> registry_error option" where
  "set_expiration_if_generation pk canon io now path generation repository branch expires r =
     mutate io (\<lambda>m.
       let ks = matching_keys pk m path in
       if ks = [] then
         (AList.update path \<lparr>we_repository = canon repository, we_branch = branch, we_path = path,
            we_hash = [], we_is_main = False, we_registered_at = now, we_expires_at = expires,
            we_generation = generation, we_creation_token = [], we_unreviewed = False\<rparr> m, True, True)
       else if length ks \<noteq> 1 then (m, False, False)
       else
         let e = entry_at m (hd ks) in
         if we_creation_token e \<noteq> [] \<or> we_generation e \<noteq> generation then (m, False, False)
         else (AList.update (hd ks) (e\<lparr>we_repository := canon repository, we_branch := branch,
                 we_path := path, we_is_main := False, we_expires_at := expires\<rparr>) m, True, True)) r"

definition unregister ::
    "(string \<Rightarrow> string) \<Rightarrow> registry_io \<Rightarrow> string \<Rightarrow> registry
       \<Rightarrow> registry \<times> bool \<times> registry_error option" where
  "unregister pk io path r =
     mutate io (\<lambda>m. let ks = matching_keys pk m path in (delete_keys ks m, False, ks \<noteq> [])) r"

definition unregister_if_generation ::
    "(string \<Rightarrow> string) \<Rightarrow> registry_io \<Rightarrow> string \<Rightarrow> string \<Rightarrow> registry
       \<Rightarrow> registry \<times> bool \<times> registry_error option" where
  "unregister_if_generation pk io path generation r =
     mutate io (\<lambda>m.
       let ks = filter (\<lambda>k. we_creation_token (entry_at m k) = [] \<and> we_generation (entry_at m k) = generation)
                  (matching_keys pk m path)
       in (delete_keys ks m, ks \<noteq> [], ks \<noteq> [])) r"

definition acknowledge_remote_source ::
    "(string \<Rightarrow> string) \<Rightarrow> registry_io \<Rightarrow> string \<Rightarrow> registry
       \<Rightarrow> registry \<times> bool \<times> registry_error option" where
  "acknowledge_remote_source pk io path r =
     mutate io (\<lambda>m.
       let ks = filter (\<lambda>k. we_unreviewed (entry_at m k)) (matching_keys pk m path) in
       (map (\<lambda>(k, e). (k, if k \<in> set ks then e\<lparr>we_unreviewed := False\<rparr> else e)) m, False, ks \<noteq> [])) r"

text \<open>\<open>Cleanup\<close>; \<open>missing path\<close> says that \<open>os.Stat\<close> of its \<open>.git\<close> reports that it does not exist.\<close>

definition cleanup ::
    "(string \<Rightarrow> bool) \<Rightarrow> registry_io \<Rightarrow> registry \<Rightarrow> registry \<times> bool \<times> registry_error option" where
  "cleanup missing io r =
     mutate io (\<lambda>m. (filter (\<lambda>p. \<not> missing (join_path (fst p) ''.git'')) m, False,
                      \<exists>p \<in> set m. missing (join_path (fst p) ''.git''))) r"

text \<open>The readers look at the process' copy.\<close>

definition list_all_entries :: "registry \<Rightarrow> worktree_entry list" where
  "list_all_entries r = map snd (rg_entries r)"

definition list_by_repository :: "string \<Rightarrow> registry \<Rightarrow> worktree_entry list" where
  "list_by_repository repo r = filter (\<lambda>e. we_repository e = repo) (map snd (rg_entries r))"

definition list_expired :: "gtime \<Rightarrow> registry \<Rightarrow> worktree_entry list" where
  "list_expired now r = filter (is_expired now) (map snd (rg_entries r))"

definition get_entry :: "(string \<Rightarrow> string) \<Rightarrow> string \<Rightarrow> registry \<Rightarrow> worktree_entry option" where
  "get_entry pk path r = entry_for_path pk (rg_entries r) path"

definition is_unreviewed_remote_source :: "(string \<Rightarrow> string) \<Rightarrow> string \<Rightarrow> registry \<Rightarrow> bool" where
  "is_unreviewed_remote_source pk path r =
     (case entry_for_path pk (rg_entries r) path of None \<Rightarrow> False | Some e \<Rightarrow> we_unreviewed e)"

definition load_registry :: "registry \<Rightarrow> registry \<times> registry_error option" where
  "load_registry r =
     (case load_entries (rg_file r) of
        Inl e \<Rightarrow> (r, Some e)
      | Inr m \<Rightarrow> (r\<lparr>rg_entries := m\<rparr>, None))"

end
