(* ===== verification/Registry_Spec.thy ===== *)
theory Registry_Spec
  imports Registry
begin

text \<open>
  The registry as a partial map from paths to entries, and what its operations do to that map: a
  refinement of the file's list of entries by its abstraction \<open>stored\<close>, the contract of a
  compare-and-swap cell with the registry as its provider, and the properties of the operations.
\<close>

subsection \<open>The abstraction\<close>

text \<open>A map as loading leaves it: distinct keys, and every entry under its own path.\<close>

definition indexed :: "entry_map \<Rightarrow> bool" where
  "indexed m \<longleftrightarrow> distinct (map fst m) \<and> (\<forall>(k, e) \<in> set m. we_path e = k)"

definition stored :: "registry_file \<Rightarrow> string \<rightharpoonup> worktree_entry" where
  "stored f = (case load_entries f of Inl _ \<Rightarrow> Map.empty | Inr m \<Rightarrow> map_of m)"

definition readable :: "registry_file \<Rightarrow> bool" where
  "readable f \<longleftrightarrow> (\<exists>m. load_entries f = Inr m)"

lemma indexed_update [kwt_inv]: "indexed m \<Longrightarrow> we_path e = k \<Longrightarrow> indexed (AList.update k e m)"
proof -
  assume i: "indexed m" and k: "we_path e = k"
  have "set (AList.update k e m) \<subseteq> insert (k, e) (set m)" by (induction m) auto
  with i k show ?thesis by (auto simp: indexed_def distinct_update)
qed

lemma indexed_filter [kwt_inv]: "indexed m \<Longrightarrow> indexed (filter P m)"
  by (auto simp: indexed_def distinct_fst_filter)

lemma indexed_delete [kwt_inv]: "indexed m \<Longrightarrow> indexed (AList.delete k m)"
  by (simp add: AList.delete_eq indexed_filter)

lemma indexed_delete_keys [kwt_inv]: "indexed m \<Longrightarrow> indexed (delete_keys ks m)"
  by (simp add: delete_keys_def indexed_filter)

lemma indexed_put_opt [kwt_inv]: "indexed m \<Longrightarrow> indexed (put_opt x m)"
  by (cases x) (simp_all add: put_opt_def indexed_update)

lemma indexed_index: "indexed m \<Longrightarrow> indexed (index_entries es m)"
  by (induction es arbitrary: m) (simp_all add: indexed_update)

lemma load_indexed: "load_entries f = Inr m \<Longrightarrow> indexed m"
proof -
  have "indexed []" by (simp add: indexed_def)
  then show "load_entries f = Inr m \<Longrightarrow> indexed m"
    by (auto simp: load_entries_def indexed_index split: registry_file.splits if_splits)
qed

lemma indexed_path: "indexed m \<Longrightarrow> map_of m k = Some e \<Longrightarrow> we_path e = k"
  by (auto simp: indexed_def dest: map_of_SomeD)

text \<open>Entries with distinct paths are found again by their paths, in whatever order they were saved.\<close>

lemma index_lookup:
  "distinct (map we_path es) \<Longrightarrow>
     map_of (index_entries es m) p =
       (case find (\<lambda>e. we_path e = p) es of Some e \<Rightarrow> Some e | None \<Rightarrow> map_of m p)"
proof (induction es arbitrary: m)
  case (Cons e es)
  show ?case
  proof (cases "we_path e = p")
    case True
    with Cons.prems have "find (\<lambda>x. we_path x = p) es = None" by (auto simp: find_None_iff image_iff)
    with Cons True show ?thesis by (simp add: update_conv')
  next
    case False
    with Cons show ?thesis by (simp add: update_conv' split: option.split)
  qed
qed simp

lemma stored_saved:
  assumes "distinct (map we_path es)"
  shows "stored (Entries (map Some es)) p = Some e \<longleftrightarrow> e \<in> set es \<and> we_path e = p"
proof -
  have "stored (Entries (map Some es)) p = find (\<lambda>e. we_path e = p) es"
    using index_lookup [OF assms, of "[]" p]
    by (auto simp: stored_def load_entries_def comp_def split: option.split)
  also have "find (\<lambda>e. we_path e = p) es = Some e \<longleftrightarrow> e \<in> set es \<and> we_path e = p"
    using assms by (induction es) auto
  finally show ?thesis .
qed

lemma indexed_paths: "indexed m \<Longrightarrow> map we_path (map snd m) = map fst m"
  by (auto simp: indexed_def)

lemma indexed_map_of: "indexed m \<Longrightarrow> map_of m p = Some e \<longleftrightarrow> e \<in> set (map snd m) \<and> we_path e = p"
  by (force simp: indexed_def map_of_distinct_iff)

lemma readable_save [simp]: "readable (save_entries m)"
  by (auto simp: readable_def save_entries_def load_entries_def)

lemma stored_save:
  assumes "indexed m"
  shows "stored (save_entries m) = map_of m"
proof
  fix p
  have d: "distinct (map we_path (map snd m))"
    using assms unfolding indexed_paths [OF assms] by (simp add: indexed_def)
  have s: "save_entries m = Entries (map Some (map snd m))" by (simp add: save_entries_def)
  have "stored (save_entries m) p = Some e \<longleftrightarrow> map_of m p = Some e" for e
    unfolding s stored_saved [OF d] indexed_map_of [OF assms] ..
  then show "stored (save_entries m) p = map_of m p" by (metis not_Some_eq)
qed



subsection \<open>Matching keys of a loaded map\<close>

definition same_group :: "(string \<Rightarrow> string) \<Rightarrow> string \<Rightarrow> string \<Rightarrow> bool" where
  "same_group pk path k \<longleftrightarrow> pk k = pk path"

definition drop_group :: "(string \<Rightarrow> string) \<Rightarrow> string \<Rightarrow> (string \<rightharpoonup> worktree_entry) \<Rightarrow> (string \<rightharpoonup> worktree_entry)" where
  "drop_group pk path s = (\<lambda>k. if same_group pk path k then None else s k)"

lemma matching_keys_indexed:
  assumes "indexed m"
  shows "matching_keys pk m path = filter (same_group pk path) (map fst m)"
proof -
  have "matches pk path p = same_group pk path (fst p)" if "p \<in> set m" for p
    using assms that by (cases p) (auto simp: indexed_def matches_def same_group_def)
  then show ?thesis by (simp add: matching_keys_def filter_map comp_def cong: filter_cong)
qed

lemma set_matching_keys:
  "indexed m \<Longrightarrow> set (matching_keys pk m path) = {k \<in> dom (map_of m). same_group pk path k}"
  by (auto simp: matching_keys_indexed dom_map_of_conv_image_fst)

lemma distinct_matching_keys: "indexed m \<Longrightarrow> distinct (matching_keys pk m path)"
  by (simp add: matching_keys_indexed) (simp add: indexed_def)

lemma map_of_delete_keys: "map_of (delete_keys ks m) k = (if k \<in> set ks then None else map_of m k)"
  using map_of_filter_key [of "\<lambda>k. k \<notin> set ks" m k] by (simp add: delete_keys_def)

lemma delete_keys_Nil [simp]: "delete_keys [] m = m"
  by (simp add: delete_keys_def)

lemma drop_matching:
  "indexed m \<Longrightarrow> map_of (delete_keys (matching_keys pk m path) m) = drop_group pk path (map_of m)"
  by (rule ext) (auto simp: map_of_delete_keys set_matching_keys drop_group_def domIff)

lemma single_key:
  assumes "indexed m" and "matching_keys pk m path = [k]"
  shows "same_group pk path k" and "map_of m k = Some (entry_at m k)"
    and "drop_group pk path (map_of m) = (map_of m)(k := None)"
proof -
  have s: "{l \<in> dom (map_of m). same_group pk path l} = {k}"
    using set_matching_keys [OF assms(1), of pk path] assms(2) by simp
  then have k: "k \<in> dom (map_of m)" "same_group pk path k" by blast+
  then show "same_group pk path k" and "map_of m k = Some (entry_at m k)"
    by (auto simp: entry_at_def)
  have "map_of m l = None" if "same_group pk path l" and "l \<noteq> k" for l
    using s that by (cases "map_of m l") blast+
  then show "drop_group pk path (map_of m) = (map_of m)(k := None)"
    using k(2) by (auto simp: drop_group_def fun_eq_iff)
qed

text \<open>The entries of a path's group in the map.\<close>

definition group_entries :: "(string \<Rightarrow> string) \<Rightarrow> string \<Rightarrow> (string \<rightharpoonup> worktree_entry) \<Rightarrow> worktree_entry set" where
  "group_entries pk path s = {e. \<exists>k. same_group pk path k \<and> s k = Some e}"

lemma observed_group:
  assumes "indexed m"
  shows "observed pk m path expected \<longleftrightarrow> group_entries pk path (map_of m) = set_option expected"
proof -
  let ?ks = "matching_keys pk m path"
  have ge: "group_entries pk path (map_of m) = entry_at m ` set ?ks"
    unfolding set_matching_keys [OF assms] by (force simp: group_entries_def entry_at_def domIff)
  have inj: "inj_on (entry_at m) (set ?ks)"
    unfolding set_matching_keys [OF assms]
    by (rule inj_on_inverseI [where g = we_path])
       (auto simp: entry_at_def indexed_path [OF assms])
  show ?thesis
  proof (cases expected)
    case None
    then show ?thesis by (simp add: observed_def ge)
  next
    case (Some e)
    have "length ?ks = 1 \<and> entry_at m (hd ?ks) = e \<longleftrightarrow> entry_at m ` set ?ks = {e}"
    proof
      assume "length ?ks = 1 \<and> entry_at m (hd ?ks) = e"
      then show "entry_at m ` set ?ks = {e}" by (cases ?ks) auto
    next
      assume im: "entry_at m ` set ?ks = {e}"
      then have "card (set ?ks) = 1" using card_image [OF inj] by simp
      then have len: "length ?ks = 1" using distinct_card [OF distinct_matching_keys [OF assms]] by metis
      then obtain k where "?ks = [k]" by (auto simp: length_Suc_conv)
      with im len show "length ?ks = 1 \<and> entry_at m (hd ?ks) = e" by auto
    qed
    with Some show ?thesis by (simp add: observed_def ge)
  qed
qed

subsection \<open>Mutations on the abstraction\<close>

definition io_ok :: "registry_io \<Rightarrow> bool" where
  "io_ok io \<longleftrightarrow> io_mkdir io = None \<and> io_lock io = None \<and> io_save io = None"

lemma mutate_ok:
  assumes "io_ok io" and "load_entries (rg_file r) = Inr m" and "ch m = (m', flag, changed)"
  shows "mutate io ch r =
     ((if changed then \<lparr>rg_file = save_entries m', rg_entries = m'\<rparr> else r\<lparr>rg_entries := m'\<rparr>), flag, None)"
  using assms by (simp add: mutate_def mutate_checked_def io_ok_def)

text \<open>
  A mutation that reports an error, at whatever step, leaves the file as it was; and one that
  has nothing to save never writes it.
\<close>

theorem registry_failure_atomic:
  assumes "mutate_checked io ch r = (r', flag, err)"
  shows "(err \<noteq> None \<longrightarrow> rg_file r' = rg_file r)
     \<and> (rg_file r' \<noteq> rg_file r \<longrightarrow> err = None \<and> (\<exists>m m'. load_entries (rg_file r) = Inr m \<and>
          ch m = (m', flag, Inr True) \<and> rg_file r' = save_entries m' \<and> rg_entries r' = m'))"
  using assms
  by (auto simp: mutate_checked_def split: option.splits sum.splits prod.splits if_splits)

theorem registry_failure_atomic_witness:
  "rg_file (fst (mutate_checked \<lparr>io_mkdir = None, io_lock = None, io_save = Some ''disk full''\<rparr>
     (\<lambda>m. ([], True, Inr True)) \<lparr>rg_file = Empty_File, rg_entries = []\<rparr>)) = Empty_File"
proof -
  have "mutate_checked \<lparr>io_mkdir = None, io_lock = None, io_save = Some ''disk full''\<rparr>
     (\<lambda>m. ([], True, Inr True)) \<lparr>rg_file = Empty_File, rg_entries = []\<rparr> =
     (\<lparr>rg_file = Empty_File, rg_entries = []\<rparr>, True, Some (Registry_Error ''disk full''))"
    by (simp add: mutate_checked_def load_entries_def)
  from registry_failure_atomic [OF this] this show ?thesis by simp
qed

lemma readable_map: "readable f \<Longrightarrow> \<exists>m. load_entries f = Inr m \<and> indexed m \<and> stored f = map_of m"
  by (auto simp: readable_def stored_def load_indexed)

subsection \<open>Registering and removing\<close>

lemma mutate_stored:
  assumes "io_ok io" and "readable (rg_file r)"
    and "\<And>m. load_entries (rg_file r) = Inr m \<Longrightarrow> indexed m \<Longrightarrow> stored (rg_file r) = map_of m \<Longrightarrow>
       \<exists>m' flag changed. ch m = (m', flag, changed) \<and> indexed m' \<and> (\<not> changed \<longrightarrow> map_of m' = map_of m) \<and>
         P flag (map_of m')"
  shows "\<exists>r' flag. mutate io ch r = (r', flag, None) \<and> readable (rg_file r') \<and>
     stored (rg_file r') = map_of (rg_entries r') \<and> indexed (rg_entries r') \<and> P flag (stored (rg_file r'))"
proof -
  obtain m where m: "load_entries (rg_file r) = Inr m" "indexed m" "stored (rg_file r) = map_of m"
    using readable_map [OF assms(2)] by blast
  obtain m' flag changed where c: "ch m = (m', flag, changed)" "indexed m'"
    "\<not> changed \<longrightarrow> map_of m' = map_of m" "P flag (map_of m')" using assms(3) [OF m] by blast
  show ?thesis
    using mutate_ok [of io r m ch, OF assms(1) m(1) c(1)] c m assms(2) by (cases changed) (simp_all add: stored_save)
qed

lemma entry_for_path_group:
  assumes "indexed m" and "group_entries pk path (map_of m) = {e}"
  shows "entry_for_path pk m path = Some e"
proof -
  obtain k where k: "same_group pk path k" "map_of m k = Some e"
    using assms(2) by (auto simp: group_entries_def)
  have only: "map_of m l = Some x \<Longrightarrow> same_group pk path l \<Longrightarrow> x = e" for l x
    using assms(2) by (auto simp: group_entries_def)
  show ?thesis
  proof (cases "map_of m path")
    case (Some x)
    then show ?thesis using only [OF Some] by (simp add: entry_for_path_def same_group_def)
  next
    case None
    have pth: "we_path e = k" by (rule indexed_path [OF assms(1) k(2)])
    obtain p where p: "find (\<lambda>p. pk (we_path (snd p)) = pk path) m = Some p"
      using map_of_SomeD [OF k(2)] k(1) pth
      by (cases "find (\<lambda>p. pk (we_path (snd p)) = pk path) m") (auto simp: find_None_iff same_group_def)
    then have "p \<in> set m" "pk (we_path (snd p)) = pk path" by (auto simp: find_Some_iff)
    then have "map_of m (fst p) = Some (snd p)" "same_group pk path (fst p)"
      using assms(1) by (auto simp: indexed_def same_group_def)
    with only None p show ?thesis by (simp add: entry_for_path_def)
  qed
qed

lemma entry_for_path_none:
  assumes "indexed m" and "group_entries pk path (map_of m) = {}"
  shows "entry_for_path pk m path = None"
proof -
  have none: "same_group pk path k \<Longrightarrow> map_of m k = None" for k
    using assms(2) by (cases "map_of m k") (auto simp: group_entries_def)
  have "find (\<lambda>p. pk (we_path (snd p)) = pk path) m = None"
  proof (rule ccontr)
    assume "find (\<lambda>p. pk (we_path (snd p)) = pk path) m \<noteq> None"
    then obtain p where "p \<in> set m" "pk (we_path (snd p)) = pk path" by (auto simp: find_None_iff)
    with assms(1) have "map_of m (fst p) = Some (snd p)" "same_group pk path (fst p)"
      by (auto simp: indexed_def same_group_def)
    with none show False by simp
  qed
  with none [of path] show ?thesis by (simp add: entry_for_path_def same_group_def)
qed

lemma register_unregister:
  assumes "io_ok io" and "readable (rg_file r)"
  shows "\<exists>r' flag. register pk io now entry r = (r', flag, None) \<and>
       stored (rg_file r') = (drop_group pk (we_path entry) (stored (rg_file r)))
          (we_path entry \<mapsto> with_registered_at now entry) \<and>
       (\<forall>q. pk q = pk (we_path entry) \<longrightarrow> get_entry pk q r' = Some (with_registered_at now entry))"
    and "\<exists>r' flag. unregister pk io path r = (r', flag, None) \<and>
       stored (rg_file r') = drop_group pk path (stored (rg_file r)) \<and>
       (\<forall>q. pk q = pk path \<longrightarrow> get_entry pk q r' = None)"
proof -
  let ?e = "with_registered_at now entry"
  have pth: "we_path ?e = we_path entry" by (simp add: with_registered_at_def)
  have "\<exists>r' flag. register pk io now entry r = (r', flag, None) \<and> readable (rg_file r') \<and>
     stored (rg_file r') = map_of (rg_entries r') \<and> indexed (rg_entries r') \<and>
     stored (rg_file r') = (drop_group pk (we_path entry) (stored (rg_file r)))(we_path entry \<mapsto> ?e)"
    unfolding register_def Let_def pth
    by (rule mutate_stored [OF assms, where P = "\<lambda>flag s. s = (drop_group pk (we_path entry)
          (stored (rg_file r)))(we_path entry \<mapsto> ?e)"])
       (force simp: indexed_update indexed_delete_keys pth update_conv' drop_matching)
  then obtain r' flag where r': "register pk io now entry r = (r', flag, None)"
    "stored (rg_file r') = map_of (rg_entries r')" "indexed (rg_entries r')"
    "stored (rg_file r') = (drop_group pk (we_path entry) (stored (rg_file r)))(we_path entry \<mapsto> ?e)" by blast
  have "get_entry pk q r' = Some ?e" if "pk q = pk (we_path entry)" for q
    unfolding get_entry_def
    by (rule entry_for_path_group [OF r'(3)])
       (use that in \<open>auto simp: r'(2) [symmetric] r'(4) group_entries_def same_group_def drop_group_def
          split: if_splits\<close>)
  with r' show "\<exists>r' flag. register pk io now entry r = (r', flag, None) \<and>
       stored (rg_file r') = (drop_group pk (we_path entry) (stored (rg_file r)))
          (we_path entry \<mapsto> with_registered_at now entry) \<and>
       (\<forall>q. pk q = pk (we_path entry) \<longrightarrow> get_entry pk q r' = Some (with_registered_at now entry))"
    by blast
next
  have "\<exists>r' flag. unregister pk io path r = (r', flag, None) \<and> readable (rg_file r') \<and>
     stored (rg_file r') = map_of (rg_entries r') \<and> indexed (rg_entries r') \<and>
     stored (rg_file r') = drop_group pk path (stored (rg_file r))"
    unfolding unregister_def Let_def
    by (rule mutate_stored [OF assms, where P = "\<lambda>flag s. s = drop_group pk path (stored (rg_file r))"])
       (auto simp: indexed_delete_keys drop_matching)
  then obtain r' flag where r': "unregister pk io path r = (r', flag, None)"
    "stored (rg_file r') = map_of (rg_entries r')" "indexed (rg_entries r')"
    "stored (rg_file r') = drop_group pk path (stored (rg_file r))" by blast
  have "get_entry pk q r' = None" if "pk q = pk path" for q
    unfolding get_entry_def
    by (rule entry_for_path_none [OF r'(3)])
       (use that in \<open>auto simp: r'(2) [symmetric] r'(4) group_entries_def same_group_def drop_group_def
          split: if_splits\<close>)
  with r' show "\<exists>r' flag. unregister pk io path r = (r', flag, None) \<and>
       stored (rg_file r') = drop_group pk path (stored (rg_file r)) \<and>
       (\<forall>q. pk q = pk path \<longrightarrow> get_entry pk q r' = None)"
    by blast
qed

text \<open>
  C18. \<open>Register\<close> refines a map update: when the I/O succeeds, afterwards the file and the process'
  copy are the map before, without the entries of the path's alias group, with the new entry at its
  path (its registration time filled in); so the group has exactly that entry and \<open>Get\<close> of any alias
  of the path returns it. \<open>Unregister\<close> is the same without the new entry, and then \<open>Get\<close> finds
  nothing.
\<close>

theorem register_refines:
  assumes "io_ok io" and "readable (rg_file r)"
  shows "(\<exists>r' flag. register pk io now entry r = (r', flag, None) \<and>
       stored (rg_file r') = (drop_group pk (we_path entry) (stored (rg_file r)))
          (we_path entry \<mapsto> with_registered_at now entry) \<and>
       (\<forall>q. pk q = pk (we_path entry) \<longrightarrow> get_entry pk q r' = Some (with_registered_at now entry)))
     \<and> (\<exists>r' flag. unregister pk io path r = (r', flag, None) \<and>
       stored (rg_file r') = drop_group pk path (stored (rg_file r)) \<and>
       (\<forall>q. pk q = pk path \<longrightarrow> get_entry pk q r' = None))"
  using register_unregister [OF assms] by blast

definition demo_io :: registry_io where
  "demo_io = \<lparr>io_mkdir = None, io_lock = None, io_save = None\<rparr>"

definition demo_entry :: "string \<Rightarrow> string \<Rightarrow> worktree_entry" where
  "demo_entry path token = \<lparr>we_repository = ''r'', we_branch = ''b'', we_path = path, we_hash = [],
     we_is_main = False, we_registered_at = 3, we_expires_at = None, we_generation = ''g'',
     we_creation_token = token, we_unreviewed = False\<rparr>"

definition demo_registry :: registry where
  "demo_registry = \<lparr>rg_file = Entries [Some (demo_entry ''/a'' []), Some (demo_entry ''/b'' ''t'')],
     rg_entries = []\<rparr>"

lemma demo_ok: "io_ok demo_io" "readable (rg_file demo_registry)"
  by (simp_all add: io_ok_def demo_io_def readable_def demo_registry_def load_entries_def)

theorem register_refines_witness:
  "\<exists>r' flag. unregister id demo_io ''/a'' demo_registry = (r', flag, None) \<and> get_entry id ''/a'' r' = None"
  using register_refines [OF demo_ok, of id 0 "demo_entry ''/a'' []" "''/a''"] by auto

subsection \<open>Compare and swap\<close>

definition put_map :: "worktree_entry option \<Rightarrow> (string \<rightharpoonup> worktree_entry) \<Rightarrow> (string \<rightharpoonup> worktree_entry)" where
  "put_map x s = (case x of None \<Rightarrow> s | Some e \<Rightarrow> s(we_path e \<mapsto> e))"

lemma map_of_put_opt: "map_of (put_opt x m) = put_map x (map_of m)"
  by (cases x) (simp_all add: put_opt_def put_map_def update_conv')

lemma cas_stored:
  assumes "io_ok io" and "readable (rg_file r)"
  shows "\<exists>r' b. compare_and_swap pk io now path expected replacement r = (r', b, None) \<and>
     readable (rg_file r') \<and>
     b = (group_entries pk path (stored (rg_file r)) = set_option expected) \<and>
     stored (rg_file r') =
       (if b then put_map (map_option (with_registered_at now) replacement)
                   (drop_group pk path (stored (rg_file r)))
        else stored (rg_file r))"
proof -
  let ?P = "\<lambda>b s. b = (group_entries pk path (stored (rg_file r)) = set_option expected) \<and>
     s = (if b then put_map (map_option (with_registered_at now) replacement)
                   (drop_group pk path (stored (rg_file r)))
        else stored (rg_file r))"
  have "\<exists>r' b. compare_and_swap pk io now path expected replacement r = (r', b, None) \<and>
     readable (rg_file r') \<and> stored (rg_file r') = map_of (rg_entries r') \<and> indexed (rg_entries r') \<and>
     ?P b (stored (rg_file r'))"
    unfolding compare_and_swap_def
    by (rule mutate_stored [OF assms, where P = ?P])
       (auto simp: observed_group indexed_put_opt indexed_delete_keys map_of_put_opt drop_matching)
  then show ?thesis by blast
qed

text \<open>
  C16. \<open>CompareAndSwap\<close> is an atomic compare-and-swap on the file: it succeeds exactly when the
  entries stored for the path's alias group are the expected state (the one expected entry, or none),
  and then the group is replaced by the replacement, or by nothing; otherwise nothing changes. Every
  entry of another group stays as it was, unless the replacement names its path.
\<close>

theorem compare_and_swap_refines:
  assumes "io_ok io" and "readable (rg_file r)"
  shows "\<exists>r' b. compare_and_swap pk io now path expected replacement r = (r', b, None) \<and>
     b = (group_entries pk path (stored (rg_file r)) = set_option expected) \<and>
     stored (rg_file r') =
       (if b then put_map (map_option (with_registered_at now) replacement)
                   (drop_group pk path (stored (rg_file r)))
        else stored (rg_file r)) \<and>
     (\<forall>k. pk k \<noteq> pk path \<and> (\<forall>e. replacement = Some e \<longrightarrow> we_path e \<noteq> k) \<longrightarrow>
        stored (rg_file r') k = stored (rg_file r) k)"
proof -
  obtain r' b where c: "compare_and_swap pk io now path expected replacement r = (r', b, None)"
    "b = (group_entries pk path (stored (rg_file r)) = set_option expected)"
    "stored (rg_file r') =
       (if b then put_map (map_option (with_registered_at now) replacement)
                   (drop_group pk path (stored (rg_file r)))
        else stored (rg_file r))" using cas_stored [OF assms] by blast
  have "stored (rg_file r') k = stored (rg_file r) k"
    if "pk k \<noteq> pk path" and "\<forall>e. replacement = Some e \<longrightarrow> we_path e \<noteq> k" for k
    using that by (cases replacement)
      (auto simp: c(3) put_map_def drop_group_def same_group_def with_registered_at_def)
  with c show ?thesis by blast
qed

theorem compare_and_swap_refines_witness:
  "\<exists>r'. compare_and_swap id demo_io 9 ''/a'' (Some (demo_entry ''/a'' [])) None demo_registry = (r', True, None)
     \<and> stored (rg_file r') ''/a'' = None"
proof -
  have "stored (rg_file demo_registry) = [''/a'' \<mapsto> demo_entry ''/a'' [], ''/b'' \<mapsto> demo_entry ''/b'' ''t'']"
    by (auto simp: stored_def demo_registry_def load_entries_def demo_entry_def)
  then have "group_entries id ''/a'' (stored (rg_file demo_registry)) = {demo_entry ''/a'' []}"
    by (auto simp: group_entries_def same_group_def demo_entry_def)
  with compare_and_swap_refines [OF demo_ok, of id 9 "''/a''" "Some (demo_entry ''/a'' [])" None]
  show ?thesis by (auto simp: put_map_def drop_group_def same_group_def)
qed

subsection \<open>The contract of a compare-and-swap cell\<close>

text \<open>
  What competing writers rely on: a swap whose expectation is what the cell shows succeeds and leaves
  the new value, any other changes nothing. Of any writers that expect the same state and write
  another one, in any order, at most one succeeds.
\<close>

locale cas_cell =
  fixes show_cell :: "'s \<Rightarrow> 'v"
    and denote :: "'x \<Rightarrow> 'v"
    and swap :: "'x \<Rightarrow> 'x \<Rightarrow> 's \<Rightarrow> 's \<times> bool"
    and usable :: "'s \<Rightarrow> bool"
    and fits :: "'x \<Rightarrow> bool"
  assumes swap_hit: "usable s \<Longrightarrow> fits n \<Longrightarrow> show_cell s = denote e \<Longrightarrow> swap e n s = (s', b) \<Longrightarrow>
      b \<and> show_cell s' = denote n \<and> usable s'"
    and swap_miss: "usable s \<Longrightarrow> fits n \<Longrightarrow> show_cell s \<noteq> denote e \<Longrightarrow> swap e n s = (s', b) \<Longrightarrow>
      \<not> b \<and> show_cell s' = show_cell s \<and> usable s'"
begin

fun wins :: "'x \<Rightarrow> 'x list \<Rightarrow> 's \<Rightarrow> nat" where
  "wins e [] s = 0"
| "wins e (n # ns) s = (case swap e n s of (s', b) \<Rightarrow> of_bool b + wins e ns s')"

lemma wins_none:
  "usable s \<Longrightarrow> \<forall>n \<in> set ns. fits n \<Longrightarrow> show_cell s \<noteq> denote e \<Longrightarrow> wins e ns s = 0"
proof (induction ns arbitrary: s)
  case (Cons n ns)
  obtain s' b where sw: "swap e n s = (s', b)" by fastforce
  from swap_miss [OF Cons.prems(1) _ Cons.prems(3) sw] Cons sw show ?case by simp
qed simp

lemma one_winner:
  assumes "usable s" and "\<forall>n \<in> set ns. fits n \<and> denote n \<noteq> denote e"
  shows "wins e ns s = (if show_cell s = denote e \<and> ns \<noteq> [] then 1 else 0)"
proof (cases "show_cell s = denote e")
  case True
  show ?thesis
  proof (cases ns)
    case (Cons n ns')
    obtain s' b where sw: "swap e n s = (s', b)" by fastforce
    have hit: "b" "show_cell s' = denote n" "usable s'"
      using swap_hit [OF assms(1) _ True sw] assms(2) Cons by auto
    moreover have "wins e ns' s' = 0"
      by (rule wins_none) (use hit assms(2) Cons in auto)
    ultimately show ?thesis using True Cons sw by simp
  qed simp
next
  case False
  with wins_none [OF assms(1) _ False] assms(2) show ?thesis by simp
qed

end

text \<open>The registry provides the contract for the group of one path.\<close>

definition registry_swap ::
    "(string \<Rightarrow> string) \<Rightarrow> registry_io \<Rightarrow> gtime \<Rightarrow> string \<Rightarrow> worktree_entry option \<Rightarrow> worktree_entry option
       \<Rightarrow> registry \<Rightarrow> registry \<times> bool" where
  "registry_swap pk io now path e n r =
     (case compare_and_swap pk io now path e n r of (r', b, err) \<Rightarrow> (r', b))"

definition in_group :: "(string \<Rightarrow> string) \<Rightarrow> string \<Rightarrow> worktree_entry option \<Rightarrow> bool" where
  "in_group pk path n \<longleftrightarrow> (\<forall>e. n = Some e \<longrightarrow> pk (we_path e) = pk path \<and> \<not> time_is_zero (we_registered_at e))"

lemma group_after_put:
  assumes "in_group pk path n"
  shows "group_entries pk path (put_map (map_option (with_registered_at now) n) (drop_group pk path s)) =
     set_option n"
  using assms
  by (cases n) (auto simp: put_map_def group_entries_def drop_group_def same_group_def in_group_def
      with_registered_at_def split: if_splits)

interpretation registry_cell: cas_cell
    "\<lambda>r. group_entries pk path (stored (rg_file r))" set_option "registry_swap pk io now path"
    "\<lambda>r. io_ok io \<and> readable (rg_file r)" "in_group pk path" for pk io now path
proof unfold_locales
  fix r n e r' b
  assume u: "io_ok io \<and> readable (rg_file r)" and n: "in_group pk path n"
    and g: "group_entries pk path (stored (rg_file r)) = set_option e"
    and sw: "registry_swap pk io now path e n r = (r', b)"
  from cas_stored [of io r pk now path e n] u g sw group_after_put [OF n, of now "stored (rg_file r)"]
  show "b \<and> group_entries pk path (stored (rg_file r')) = set_option n \<and>
      (io_ok io \<and> readable (rg_file r'))"
    by (auto simp: registry_swap_def)
next
  fix r n e r' b
  assume u: "io_ok io \<and> readable (rg_file r)"
    and g: "group_entries pk path (stored (rg_file r)) \<noteq> set_option e"
    and sw: "registry_swap pk io now path e n r = (r', b)"
  from cas_stored [of io r pk now path e n] u g sw
  show "\<not> b \<and> group_entries pk path (stored (rg_file r')) = group_entries pk path (stored (rg_file r)) \<and>
      (io_ok io \<and> readable (rg_file r'))"
    by (auto simp: registry_swap_def)
qed

text \<open>The successes among competing swaps of one path.\<close>

fun swap_wins ::
    "(string \<Rightarrow> string) \<Rightarrow> registry_io \<Rightarrow> gtime \<Rightarrow> string \<Rightarrow> worktree_entry option
       \<Rightarrow> worktree_entry option list \<Rightarrow> registry \<Rightarrow> nat" where
  "swap_wins pk io now path e [] r = 0"
| "swap_wins pk io now path e (n # ns) r =
     (case compare_and_swap pk io now path e n r of (r', b, err) \<Rightarrow>
        of_bool b + swap_wins pk io now path e ns r')"

lemma swap_wins_cell: "swap_wins pk io now path e ns r = registry_cell.wins pk io now path e ns r"
  by (induction ns arbitrary: r) (simp_all add: registry_swap_def split: prod.splits)

text \<open>
  C17. Of any processes that observed the same state of a path and race to replace it by another one
  with \<open>CompareAndSwap\<close>, in whatever order the lock admits them, exactly one succeeds when the state
  is still the observed one, and none otherwise.
\<close>

theorem one_swap_wins:
  assumes "io_ok io" and "readable (rg_file r)" and "\<forall>n \<in> set ns. in_group pk path n \<and> n \<noteq> expected"
  shows "swap_wins pk io now path expected ns r =
     (if group_entries pk path (stored (rg_file r)) = set_option expected \<and> ns \<noteq> [] then 1 else 0)"
proof -
  have "\<forall>n \<in> set ns. in_group pk path n \<and> set_option n \<noteq> set_option expected"
    using assms(3) by (metis option.set_cases option.set_intros option.set_sel singletonD set_empty_eq
        elem_set not_None_eq)
  then show ?thesis
    unfolding swap_wins_cell using registry_cell.one_winner [of io r ns pk path expected now] assms(1,2) by blast
qed

theorem one_swap_wins_witness:
  "swap_wins id demo_io 9 ''/c'' None [Some (demo_entry ''/c'' ''x''), Some (demo_entry ''/c'' ''y'')] demo_registry = 1"
proof -
  have "stored (rg_file demo_registry) = [''/a'' \<mapsto> demo_entry ''/a'' [], ''/b'' \<mapsto> demo_entry ''/b'' ''t'']"
    by (auto simp: stored_def demo_registry_def load_entries_def demo_entry_def)
  then have "group_entries id ''/c'' (stored (rg_file demo_registry)) = set_option None"
    by (auto simp: group_entries_def same_group_def)
  with one_swap_wins [OF demo_ok, of "[Some (demo_entry ''/c'' ''x''), Some (demo_entry ''/c'' ''y'')]" id "''/c''" None 9]
  show ?thesis by (simp add: in_group_def demo_entry_def time_is_zero_def)
qed

subsection \<open>Creation ownership\<close>

lemma owned_by_iff:
  assumes "indexed m"
  shows "owned_by pk m path token \<longleftrightarrow>
     (\<exists>k e. matching_keys pk m path = [k] \<and> map_of m k = Some e \<and> we_creation_token e = token)"
proof
  assume o: "owned_by pk m path token"
  then obtain k where k: "matching_keys pk m path = [k]" by (auto simp: owned_by_def Let_def length_Suc_conv)
  with single_key(2) [OF assms k] o show "\<exists>k e. matching_keys pk m path = [k] \<and> map_of m k = Some e \<and>
      we_creation_token e = token" by (auto simp: owned_by_def Let_def)
next
  assume "\<exists>k e. matching_keys pk m path = [k] \<and> map_of m k = Some e \<and> we_creation_token e = token"
  then show "owned_by pk m path token" by (auto simp: owned_by_def entry_at_def)
qed

text \<open>The group of a path is one entry, at the key \<open>k\<close>.\<close>

definition sole_entry ::
    "(string \<Rightarrow> string) \<Rightarrow> string \<Rightarrow> (string \<rightharpoonup> worktree_entry) \<Rightarrow> string \<Rightarrow> worktree_entry \<Rightarrow> bool" where
  "sole_entry pk path s k e \<longleftrightarrow> s k = Some e \<and> pk k = pk path \<and> (\<forall>l. pk l = pk path \<and> l \<noteq> k \<longrightarrow> s l = None)"

lemma sole_entry_keys:
  assumes "indexed m"
  shows "sole_entry pk path (map_of m) k e \<longleftrightarrow> matching_keys pk m path = [k] \<and> map_of m k = Some e"
proof
  assume s: "sole_entry pk path (map_of m) k e"
  then have "set (matching_keys pk m path) = {k}"
    unfolding set_matching_keys [OF assms] by (auto simp: sole_entry_def same_group_def domIff)
  then have "matching_keys pk m path = [k]"
    using distinct_matching_keys [OF assms, of pk path]
    by (cases "matching_keys pk m path"; cases "tl (matching_keys pk m path)") auto
  with s show "matching_keys pk m path = [k] \<and> map_of m k = Some e" by (simp add: sole_entry_def)
next
  assume k: "matching_keys pk m path = [k] \<and> map_of m k = Some e"
  then have "{l \<in> dom (map_of m). same_group pk path l} = {k}"
    using set_matching_keys [OF assms, of pk path] by simp
  then have "pk k = pk path" "\<forall>l. pk l = pk path \<and> l \<noteq> k \<longrightarrow> map_of m l = None"
    by (auto simp: same_group_def domIff)
  with k show "sole_entry pk path (map_of m) k e" by (simp add: sole_entry_def)
qed

text \<open>
  C19. The end of a creation belongs to its token: with the path's group being the one entry \<open>e\<close>
  under \<open>k\<close>, completing, reclaiming and aborting succeed exactly for the token of \<open>e\<close>. Completing
  then clears the token and records the generation and keeps every other field; reclaiming replaces
  the entry; aborting restores the previous one, still unreviewed only if it was and no
  acknowledgement came meanwhile, or nothing. All other paths keep their entries, and for another
  token nothing changes.
\<close>

theorem creation_token_owns:
  assumes "io_ok io" and "readable (rg_file r)" and "sole_entry pk path (stored (rg_file r)) k e"
  shows "(\<exists>r'. complete_creation pk io path token gen r = (r', token = we_creation_token e, None) \<and>
       stored (rg_file r') = (if token = we_creation_token e
         then (stored (rg_file r))(k \<mapsto> e\<lparr>we_creation_token := [], we_generation := gen\<rparr>)
         else stored (rg_file r)))
     \<and> (\<exists>r'. reclaim_creation pk io now path token replacement r = (r', token = we_creation_token e, None) \<and>
       stored (rg_file r') = (if token = we_creation_token e
         then (stored (rg_file r))(k := None, we_path replacement \<mapsto> with_registered_at now replacement)
         else stored (rg_file r)))
     \<and> (\<exists>r'. abort_creation pk io path token previous r = (r', token = we_creation_token e, None) \<and>
       stored (rg_file r') = (if token = we_creation_token e
         then put_map (map_option (\<lambda>p. p\<lparr>we_unreviewed := we_unreviewed p \<and> we_unreviewed e\<rparr>) previous)
                ((stored (rg_file r))(k := None))
         else stored (rg_file r)))"
proof -
  have pth: "we_path (with_registered_at now replacement) = we_path replacement"
    by (simp add: with_registered_at_def)
  have own: "owned_by pk m path token \<longleftrightarrow> token = we_creation_token e"
    and key: "matching_keys pk m path = [k]" and at: "entry_at m k = e" and mk: "map_of m k = Some e"
    and path_k: "we_path e = k"
    if "indexed m" and "stored (rg_file r) = map_of m" for m
    using that assms(3) sole_entry_keys [OF that(1), of pk path k e] owned_by_iff [OF that(1), of pk path token]
      indexed_path [OF that(1)] by (auto simp: entry_at_def)
  let ?s = "stored (rg_file r)"
  let ?t = "token = we_creation_token e"
  have "\<exists>r' flag. complete_creation pk io path token gen r = (r', flag, None) \<and> readable (rg_file r') \<and>
     stored (rg_file r') = map_of (rg_entries r') \<and> indexed (rg_entries r') \<and>
     (\<lambda>b s. b = ?t \<and> s = (if ?t then ?s(k \<mapsto> e\<lparr>we_creation_token := [], we_generation := gen\<rparr>) else ?s))
        flag (stored (rg_file r'))"
    unfolding complete_creation_def
    by (rule mutate_stored [OF assms(1,2)])
       (force simp: own key at path_k Let_def indexed_update update_conv')
  moreover have "\<exists>r' flag. reclaim_creation pk io now path token replacement r = (r', flag, None) \<and>
     readable (rg_file r') \<and> stored (rg_file r') = map_of (rg_entries r') \<and> indexed (rg_entries r') \<and>
     (\<lambda>b s. b = ?t \<and> s = (if ?t then ?s(k := None, we_path replacement \<mapsto> with_registered_at now replacement)
        else ?s)) flag (stored (rg_file r'))"
    unfolding reclaim_creation_def Let_def pth
    by (rule mutate_stored [OF assms(1,2)])
       (force simp: own key at pth indexed_update indexed_delete update_conv' delete_conv')
  moreover have "\<exists>r' flag. abort_creation pk io path token previous r = (r', flag, None) \<and>
     readable (rg_file r') \<and> stored (rg_file r') = map_of (rg_entries r') \<and> indexed (rg_entries r') \<and>
     (\<lambda>b s. b = ?t \<and> s = (if ?t then put_map (map_option (\<lambda>p. p\<lparr>we_unreviewed := we_unreviewed p \<and>
        we_unreviewed e\<rparr>) previous) (?s(k := None)) else ?s)) flag (stored (rg_file r'))"
    unfolding abort_creation_def Let_def
    by (rule mutate_stored [OF assms(1,2)])
       (auto simp: own key at indexed_put_opt indexed_delete map_of_put_opt delete_conv')
  ultimately show ?thesis by auto
qed

lemma demo_sole: "sole_entry id ''/b'' (stored (rg_file demo_registry)) ''/b'' (demo_entry ''/b'' ''t'')"
  by (auto simp: stored_def demo_registry_def load_entries_def demo_entry_def sole_entry_def)

theorem creation_token_owns_witness:
  "\<exists>r'. complete_creation id demo_io ''/b'' ''t'' ''g2'' demo_registry = (r', True, None) \<and>
     stored (rg_file r') ''/b'' = Some ((demo_entry ''/b'' ''t'')\<lparr>we_creation_token := [], we_generation := ''g2''\<rparr>)"
proof -
  have "we_creation_token (demo_entry ''/b'' ''t'') = ''t''" by (simp add: demo_entry_def)
  with creation_token_owns [OF demo_ok demo_sole, THEN conjunct1, of "''t''" "''g2''"] show ?thesis by auto
qed


subsection \<open>What a creation protects\<close>

text \<open>The one entry of a map that a file written from it shows under a path.\<close>

definition holds_only :: "entry_map \<Rightarrow> worktree_entry \<Rightarrow> bool" where
  "holds_only m e \<longleftrightarrow> e \<in> snd ` set m \<and> (\<forall>x \<in> snd ` set m. we_path x = we_path e \<longrightarrow> x = e)"

lemma index_lookup_last:
  "map_of (index_entries es m) p =
     (case find (\<lambda>e. we_path e = p) (rev es) of Some e \<Rightarrow> Some e | None \<Rightarrow> map_of m p)"
proof (induction es arbitrary: m)
  case (Cons e es)
  have find_snoc: "find P (xs @ [x]) = (case find P xs of Some y \<Rightarrow> Some y | None \<Rightarrow> if P x then Some x else None)"
    for P and x :: worktree_entry and xs by (induction xs) auto
  show ?case using Cons by (auto simp: find_snoc update_conv' split: option.split)
qed simp

lemma stored_only: "holds_only m e \<Longrightarrow> stored (save_entries m) (we_path e) = Some e"
proof -
  assume h: "holds_only m e"
  have l: "load_entries (save_entries m) = Inr (index_entries (map snd m) [])"
    by (auto simp: save_entries_def load_entries_def comp_def)
  show ?thesis
  proof (cases "find (\<lambda>x. we_path x = we_path e) (rev (map snd m))")
    case None
    with h show ?thesis by (auto simp: find_None_iff holds_only_def)
  next
    case (Some x)
    then have "x \<in> set (rev (map snd m))" "we_path x = we_path e"
      unfolding find_Some_iff by (metis length_rev nth_mem)+
    then have "x \<in> snd ` set m" "we_path x = we_path e" by simp_all
    with h have "x = e" unfolding holds_only_def by blast
    with Some l show ?thesis by (simp add: stored_def index_lookup_last)
  qed
qed

lemma indexed_holds:
  assumes m: "indexed m" and e: "map_of m k = Some e"
  shows "holds_only m e"
proof -
  have "x = e" if "x \<in> snd ` set m" and "we_path x = k" for x
    using indexed_map_of [OF m, of k x] that e by simp
  then show ?thesis using indexed_map_of [OF m, of k e] e by (simp add: holds_only_def)
qed

lemma mutate_keeps:
  assumes "io_ok io" and "readable (rg_file r)" and "stored (rg_file r) k = Some e"
    and "\<And>m. indexed m \<Longrightarrow> map_of m k = Some e \<Longrightarrow> we_path e = k \<Longrightarrow> holds_only m e \<Longrightarrow>
       \<exists>m' flag changed. ch m = (m', flag, changed) \<and> (changed \<longrightarrow> holds_only m' e)"
  shows "\<exists>r' flag. mutate io ch r = (r', flag, None) \<and> stored (rg_file r') k = Some e"
proof -
  obtain m where m: "load_entries (rg_file r) = Inr m" "indexed m" "stored (rg_file r) = map_of m"
    using readable_map [OF assms(2)] by blast
  have k: "map_of m k = Some e" "we_path e = k" using assms(3) m indexed_path by auto
  obtain m' flag changed where c: "ch m = (m', flag, changed)" "changed \<longrightarrow> holds_only m' e"
    using assms(4) [OF m(2) k indexed_holds [OF m(2) k(1)]] by blast
  show ?thesis
    using mutate_ok [of io r m ch, OF assms(1) m(1) c(1)] stored_only [of m' e] c(2) k(2) assms(3)
    by (cases changed) auto
qed

lemma holds_filter: "holds_only m e \<Longrightarrow> (k, e) \<in> set m \<Longrightarrow> k \<notin> set ks \<Longrightarrow> holds_only (delete_keys ks m) e"
  by (force simp: holds_only_def delete_keys_def)

lemma holds_update:
  assumes "holds_only m e" and "map_of m k = Some e" and "k \<noteq> l" and "we_path x \<noteq> we_path e"
  shows "holds_only (AList.update l x m) e"
proof -
  have "set (AList.update l x m) \<subseteq> insert (l, x) (set m)" by (induction m) auto
  moreover have "map_of (AList.update l x m) k = Some e" using assms(2,3) by (simp add: update_conv')
  then have "e \<in> snd ` set (AList.update l x m)" by (force dest: map_of_SomeD)
  moreover have "y = e" if "y \<in> snd ` insert (l, x) (set m)" and "we_path y = we_path e" for y
    using that assms(1,4) by (auto simp: holds_only_def)
  ultimately show ?thesis unfolding holds_only_def by blast
qed

lemma match_all_unowned: "match_all es ws \<Longrightarrow> e \<in> set es \<Longrightarrow> we_creation_token e = []"
  by (induction es ws rule: match_all.induct) (auto split: if_splits option.splits)

lemma unregister_keeps:
  assumes "io_ok io" and "readable (rg_file r)" and "stored (rg_file r) k = Some e" and "we_creation_token e \<noteq> []"
  shows "\<exists>r' flag. unregister_if_generation pk io path generation r = (r', flag, None) \<and>
     stored (rg_file r') k = Some e"
  unfolding unregister_if_generation_def Let_def
proof (rule mutate_keeps [OF assms(1-3)])
  fix m assume m: "map_of m k = Some e" "holds_only m e"
  let ?P = "\<lambda>k. we_creation_token (entry_at m k) = [] \<and> we_generation (entry_at m k) = generation"
  have "k \<notin> set (filter ?P (matching_keys pk m path))" using m assms(4) by (simp add: entry_at_def)
  with holds_filter [OF m(2) map_of_SomeD [OF m(1)]]
  show "\<exists>m' flag changed. (delete_keys (filter ?P (matching_keys pk m path)) m,
      filter ?P (matching_keys pk m path) \<noteq> [], filter ?P (matching_keys pk m path) \<noteq> []) = (m', flag, changed) \<and>
      (changed \<longrightarrow> holds_only m' e)" by blast
qed

lemma set_expiration_keeps:
  assumes "io_ok io" and "readable (rg_file r)" and "stored (rg_file r) k = Some e" and "we_creation_token e \<noteq> []"
  shows "\<exists>r' flag. set_expiration_if_generation pk canon io now path generation repository branch expires r =
     (r', flag, None) \<and> stored (rg_file r') k = Some e"
  unfolding set_expiration_if_generation_def
proof (rule mutate_keeps [OF assms(1-3)])
  fix m assume m: "indexed m" "map_of m k = Some e" "we_path e = k" "holds_only m e"
  let ?ks = "matching_keys pk m path"
  have mem: "l \<in> set ?ks \<longleftrightarrow> map_of m l \<noteq> None \<and> pk l = pk path" for l
    unfolding set_matching_keys [OF m(1)] by (auto simp: same_group_def)
  consider (none) "?ks = []" | (many) "length ?ks \<noteq> 1" "?ks \<noteq> []" | (one) l where "?ks = [l]"
    by (cases ?ks; cases "tl ?ks") auto
  then show "\<exists>m' flag changed. (let ks = ?ks in
       if ks = [] then
         (AList.update path \<lparr>we_repository = canon repository, we_branch = branch, we_path = path,
            we_hash = [], we_is_main = False, we_registered_at = now, we_expires_at = expires,
            we_generation = generation, we_creation_token = [], we_unreviewed = False\<rparr> m, True, True)
       else if length ks \<noteq> 1 then (m, False, False)
       else
         let e = entry_at m (hd ks) in
         if we_creation_token e \<noteq> [] \<or> we_generation e \<noteq> generation then (m, False, False)
         else (AList.update (hd ks) (e\<lparr>we_repository := canon repository, we_branch := branch,
                 we_path := path, we_is_main := False, we_expires_at := expires\<rparr>) m, True, True)) =
       (m', flag, changed) \<and> (changed \<longrightarrow> holds_only m' e)"
  proof cases
    case none
    with mem [of k] m(2) have "k \<noteq> path" by auto
    with none m show ?thesis by (force intro!: holds_update [of m e k])
  next
    case many
    then show ?thesis by auto
  next
    case (one l)
    show ?thesis
    proof (cases "l = k \<or> pk k = pk path")
      case True
      with mem [of k] m(2) one have "l = k" by auto
      with one m(2) assms(4) show ?thesis by (auto simp: entry_at_def)
    next
      case False
      then have "k \<noteq> path" "k \<noteq> l" by auto
      then have upd: "we_path x = path \<Longrightarrow> holds_only (AList.update l x m) e" for x
        using holds_update [OF m(4,2)] m(3) by simp
      show ?thesis
        by (cases "we_creation_token (entry_at m l) \<noteq> [] \<or> we_generation (entry_at m l) \<noteq> generation")
          (use one in \<open>simp_all only: Let_def list.sel if_P if_not_P list.distinct list.size upd refl\<close>, auto simp: upd)
    qed
  qed
qed

lemma aliases_keep:
  assumes "io_ok io" and "readable (rg_file r)" and "stored (rg_file r) k = Some e" and "we_creation_token e \<noteq> []"
    and "compare_and_swap_aliases pk io expected retained r = Some res"
  shows "\<exists>r' flag. res = (r', flag, None) \<and> stored (rg_file r') k = Some e"
proof -
  have part: ?thesis if guard: "\<not> (\<exists>x \<in> set expected. x = None \<or> pk (we_path (the x)) \<noteq> pk group)"
    "\<not> (retained \<noteq> None \<and> retained \<notin> set expected)"
    and res: "res = mutate io (\<lambda>m.
            let ks = matching_keys pk m group in
            if length ks \<noteq> length expected
               \<or> \<not> match_all (map (entry_at m) ks) (map (\<lambda>e. (the e, False)) expected)
            then (m, False, False)
            else (put_opt retained (delete_keys ks m), True, True)) r" for group
    unfolding res
  proof (rule mutate_keeps [OF assms(1-3)])
    fix m assume m: "indexed m" "map_of m k = Some e" "we_path e = k" "holds_only m e"
    let ?ks = "matching_keys pk m group"
    let ?fail = "length ?ks \<noteq> length expected
               \<or> \<not> match_all (map (entry_at m) ?ks) (map (\<lambda>e. (the e, False)) expected)"
    have kept: "holds_only (put_opt retained (delete_keys ?ks m)) e" if "\<not> ?fail"
    proof -
      have out: "k \<notin> set ?ks"
      proof
        assume "k \<in> set ?ks"
        then have "e \<in> set (map (entry_at m) ?ks)" using m(2) by (force simp: entry_at_def)
        with match_all_unowned that assms(4) show False by blast
      qed
      then have group: "pk k \<noteq> pk group" using m(2) unfolding set_matching_keys [OF m(1)]
        by (auto simp: same_group_def)
      have h: "holds_only (delete_keys ?ks m) e" by (rule holds_filter [OF m(4) map_of_SomeD [OF m(2)] out])
      show ?thesis
      proof (cases retained)
        case None
        with h show ?thesis by (simp add: put_opt_def)
      next
        case (Some x)
        with guard have "pk (we_path x) = pk group" by force
        with group have "we_path x \<noteq> k" by auto
        with Some h m(2,3) out show ?thesis
          by (auto simp: put_opt_def map_of_delete_keys intro!: holds_update [of _ _ k])
      qed
    qed
    show "\<exists>m' flag changed. (let ks = ?ks in if length ks \<noteq> length expected
               \<or> \<not> match_all (map (entry_at m) ks) (map (\<lambda>e. (the e, False)) expected)
            then (m, False, False) else (put_opt retained (delete_keys ks m), True, True)) = (m', flag, changed) \<and>
          (changed \<longrightarrow> holds_only m' e)"
    proof (cases ?fail)
      case False
      then show ?thesis using kept by (simp only: Let_def if_False prod.inject) blast
    next
      case True
      then show ?thesis by (simp only: Let_def if_True prod.inject) blast
    qed
  qed
  show ?thesis
  proof (cases "length expected < 2")
    case True
    with assms(3,5) show ?thesis by (auto simp: compare_and_swap_aliases_def)
  next
    case False
    then obtain first where first: "hd expected = Some first"
      using assms(5) by (auto simp: compare_and_swap_aliases_def split: option.splits)
    let ?A = "\<exists>x \<in> set expected. x = None \<or> pk (we_path (the x)) \<noteq> pk (we_path first)"
    let ?B = "retained \<noteq> None \<and> retained \<notin> set expected"
    show ?thesis
    proof (cases "?A \<or> ?B")
      case True
      with assms(5) False first have "res = (r, False, None)"
        unfolding compare_and_swap_aliases_def Let_def by (auto split: if_splits)
      with assms(3) show ?thesis by blast
    next
      case ok: False
      then have n: "\<not> ?A" "\<not> ?B" by blast+
      from assms(5) False first show ?thesis
        unfolding compare_and_swap_aliases_def
        by (intro part [OF n]) (simp only: Let_def option.case if_not_P [OF n(1)] if_not_P [OF n(2)]
              if_False option.inject False)
    qed
  qed
qed

text \<open>
  C20. An entry owned by a creation (its token is not empty) is out of reach of everyone else: removing
  by generation, changing an expiration and collapsing a group of aliases, each with any arguments,
  leave it in the file exactly as it is, whatever they do to other entries.
\<close>

theorem creation_protects:
  assumes "io_ok io" and "readable (rg_file r)" and "stored (rg_file r) k = Some e" and "we_creation_token e \<noteq> []"
  shows "(\<exists>r' flag. unregister_if_generation pk io path generation r = (r', flag, None) \<and>
       stored (rg_file r') k = Some e)
     \<and> (\<exists>r' flag. set_expiration_if_generation pk canon io now path generation repository branch expires r =
       (r', flag, None) \<and> stored (rg_file r') k = Some e)
     \<and> (\<forall>res. compare_and_swap_aliases pk io expected retained r = Some res \<longrightarrow>
       (\<exists>r' flag. res = (r', flag, None) \<and> stored (rg_file r') k = Some e))"
  using unregister_keeps [OF assms] set_expiration_keeps [OF assms] aliases_keep [OF assms] by blast

theorem creation_protects_witness:
  "\<exists>r' flag. set_expiration_if_generation id id demo_io 9 ''/b'' ''g'' ''r'' ''b'' (Some 20) demo_registry =
     (r', flag, None) \<and> stored (rg_file r') ''/b'' = Some (demo_entry ''/b'' ''t'')"
proof -
  have "stored (rg_file demo_registry) ''/b'' = Some (demo_entry ''/b'' ''t'')"
    by (auto simp: stored_def demo_registry_def load_entries_def demo_entry_def)
  moreover have "we_creation_token (demo_entry ''/b'' ''t'') \<noteq> []" by (simp add: demo_entry_def)
  ultimately show ?thesis using creation_protects [OF demo_ok, THEN conjunct2, THEN conjunct1] by blast
qed

subsection \<open>A null element\<close>

text \<open>
  A file whose JSON list has a \<open>null\<close> element is not reported as malformed: loading it
  dereferences the nil entry, so opening the registry fails that way, and so does every mutation whose
  lock is taken, which leaves the file as it was.
\<close>

theorem null_entry_panics:
  assumes "None \<in> set es" and "rg_file r = Entries es" and "io_ok io"
  shows "load_registry r = (r, Some Nil_Dereference) \<and> mutate_checked io ch r = (r, False, Some Nil_Dereference)"
  using assms by (simp add: load_registry_def mutate_checked_def load_entries_def io_ok_def)

theorem null_entry_panics_witness:
  "snd (register id demo_io 0 (demo_entry ''/a'' []) \<lparr>rg_file = Entries [None], rg_entries = []\<rparr>) =
     (False, Some Nil_Dereference)"
  using null_entry_panics [of "[None]" "\<lparr>rg_file = Entries [None], rg_entries = []\<rparr>" demo_io] demo_ok(1)
  by (simp add: register_def Let_def mutate_def)

end
