(* ===== verification/Creation_Lock.thy ===== *)
theory Creation_Lock
  imports Registry
begin

text \<open>
  The locks that own the creation of a worktree (\<open>AcquireCreation\<close>, \<open>acquireCreationLock\<close>,
  \<open>creationLockMatchesPath\<close>, \<open>releaseCreationLock\<close>, \<open>CleanupCreationLocks\<close> of
  \<open>internal/registry/registry.go\<close>) and opening a registry. A lock is a file whose name tells the path and
  whose inode carries the lock; files come and go under a name, so the model keeps the directory (names
  to inodes) and the holders of inodes apart, and a process takes one step at a time: opening, locking,
  comparing the inodes, removing the name and unlocking interleave with the steps of all others. What
  the system answers at a step (a failure, the inode of a new file) comes from the environment; the
  advisory lock itself belongs to an inode, has one holder and ends with its process.
\<close>

subsection \<open>Names\<close>

definition creation_lock_prefix :: string where "creation_lock_prefix = ''.creation-''"
definition creation_lock_suffix :: string where "creation_lock_suffix = ''.lock''"

text \<open>\<open>sha\<close> is SHA-256 and \<open>pk\<close> the path key.\<close>

definition creation_lock_path :: "(string \<Rightarrow> char list) \<Rightarrow> (string \<Rightarrow> string) \<Rightarrow> string \<Rightarrow> string" where
  "creation_lock_path sha pk path = creation_lock_prefix @ hex_text (sha (pk path)) @ creation_lock_suffix"

definition creation_lock_name :: "string \<Rightarrow> bool" where
  "creation_lock_name name \<longleftrightarrow>
     has_prefix name creation_lock_prefix \<and> has_suffix name creation_lock_suffix \<and>
     (let digest = trim_suffix (trim_prefix name creation_lock_prefix) creation_lock_suffix in
      length digest = 64 \<and> hex_decode_len digest \<noteq> None)"

subsection \<open>The state\<close>

text \<open>Where a process stands: \<open>Trying n\<close> has \<open>n\<close> attempts left, \<open>Opened\<close> has an open file without its
  lock, \<open>Locked\<close> holds it unchecked, \<open>Dropping\<close> and \<open>Failing\<close> give it back, \<open>Owning\<close> is what
  \<open>AcquireCreation\<close> returned, \<open>Releasing\<close> and \<open>Unlocking\<close> are inside the release function.\<close>

datatype lock_result = Never | Busy | Acquire_Failed "string list" | Released "string list"

datatype lock_pc =
    Idle lock_result
  | Trying string nat
  | Opened string nat nat
  | Locked string nat nat
  | Dropping string nat nat
  | Failing string nat string
  | Owning string nat
  | Releasing string nat
  | Unlocking string nat "string list"

record lock_state =
  ls_paths :: "string \<Rightarrow> nat option"
  ls_holder :: "nat \<Rightarrow> nat option"
  ls_pc :: "nat \<Rightarrow> lock_pc"

record lock_answer =
  la_fail :: "string option"
  la_inode :: nat

definition set_pc :: "nat \<Rightarrow> lock_pc \<Rightarrow> lock_state \<Rightarrow> lock_state" where
  "set_pc t pc s = s\<lparr>ls_pc := (ls_pc s)(t := pc)\<rparr>"

definition max_attempts :: nat where "max_attempts = 8"

definition identity_changed :: string where
  "identity_changed = ''lock file identity changed during 8 attempts''"

subsection \<open>Steps\<close>

text \<open>\<open>flock.TryLock\<close> opens the file, creating it when it is missing, and then takes its lock or finds it
  held.\<close>

definition open_step :: "lock_answer \<Rightarrow> nat \<Rightarrow> string \<Rightarrow> nat \<Rightarrow> lock_state \<Rightarrow> lock_state" where
  "open_step a t path n s =
     (case la_fail a of
        Some e \<Rightarrow> set_pc t (Idle (Acquire_Failed [e])) s
      | None \<Rightarrow>
          (case ls_paths s path of
             Some i \<Rightarrow> set_pc t (Opened path i n) s
           | None \<Rightarrow> set_pc t (Opened path (la_inode a) n)
                 (s\<lparr>ls_paths := (ls_paths s)(path \<mapsto> la_inode a)\<rparr>)))"

definition flock_step :: "lock_answer \<Rightarrow> nat \<Rightarrow> string \<Rightarrow> nat \<Rightarrow> nat \<Rightarrow> lock_state \<Rightarrow> lock_state" where
  "flock_step a t path i n s =
     (case la_fail a of
        Some e \<Rightarrow> set_pc t (Idle (Acquire_Failed [e])) s
      | None \<Rightarrow>
          if ls_holder s i \<noteq> None then set_pc t (Idle Busy) s
          else set_pc t (Locked path i n) (s\<lparr>ls_holder := (ls_holder s)(i \<mapsto> t)\<rparr>))"

text \<open>\<open>creationLockMatchesPath\<close>: a missing name is a mismatch.\<close>

definition match_step :: "lock_answer \<Rightarrow> nat \<Rightarrow> string \<Rightarrow> nat \<Rightarrow> nat \<Rightarrow> lock_state \<Rightarrow> lock_state" where
  "match_step a t path i n s =
     (case la_fail a of
        Some e \<Rightarrow> set_pc t (Failing path i e) s
      | None \<Rightarrow> if ls_paths s path = Some i then set_pc t (Owning path i) s else set_pc t (Dropping path i n) s)"

text \<open>A failed unlock leaves the lock where it was.\<close>

definition unlock_step :: "lock_answer \<Rightarrow> nat \<Rightarrow> nat \<Rightarrow> lock_pc \<Rightarrow> (string \<Rightarrow> lock_pc) \<Rightarrow> lock_state \<Rightarrow> lock_state" where
  "unlock_step a t i done failed s =
     (case la_fail a of
        Some e \<Rightarrow> set_pc t (failed e) s
      | None \<Rightarrow> set_pc t done (s\<lparr>ls_holder := (ls_holder s)(i := None)\<rparr>))"

definition remove_step :: "bool \<Rightarrow> lock_answer \<Rightarrow> nat \<Rightarrow> string \<Rightarrow> nat \<Rightarrow> lock_state \<Rightarrow> lock_state" where
  "remove_step windows a t path i s =
     (if windows then set_pc t (Unlocking path i []) s
      else case la_fail a of
        Some e \<Rightarrow> set_pc t (Unlocking path i [''remove worktree creation lock: '' @ e]) s
      | None \<Rightarrow> set_pc t (Unlocking path i []) (s\<lparr>ls_paths := (ls_paths s)(path := None)\<rparr>))"

definition thread_step :: "bool \<Rightarrow> lock_answer \<Rightarrow> nat \<Rightarrow> lock_state \<Rightarrow> lock_state" where
  "thread_step windows a t s =
     (case ls_pc s t of
        Idle r \<Rightarrow> s
      | Trying path n \<Rightarrow>
          if n = 0 then set_pc t (Idle (Acquire_Failed [identity_changed])) s else open_step a t path (n - 1) s
      | Opened path i n \<Rightarrow> flock_step a t path i n s
      | Locked path i n \<Rightarrow> match_step a t path i n s
      | Dropping path i n \<Rightarrow> unlock_step a t i (Trying path n) (\<lambda>e. Idle (Acquire_Failed [e])) s
      | Failing path i e \<Rightarrow> unlock_step a t i (Idle (Acquire_Failed [e])) (\<lambda>e'. Idle (Acquire_Failed [e, e'])) s
      | Owning path i \<Rightarrow> s
      | Releasing path i \<Rightarrow> remove_step windows a t path i s
      | Unlocking path i es \<Rightarrow>
          unlock_step a t i (Idle (Released es)) (\<lambda>e. Idle (Released (es @ [''unlock worktree creation: '' @ e]))) s)"

text \<open>The calls of \<open>AcquireCreation\<close> and of the function it returned, and a process that ends: the
  system drops its locks and leaves its files.\<close>

definition begin_acquire :: "nat \<Rightarrow> string \<Rightarrow> lock_state \<Rightarrow> lock_state" where
  "begin_acquire t path s = (case ls_pc s t of Idle _ \<Rightarrow> set_pc t (Trying path max_attempts) s | _ \<Rightarrow> s)"

definition begin_release :: "nat \<Rightarrow> lock_state \<Rightarrow> lock_state" where
  "begin_release t s = (case ls_pc s t of Owning path i \<Rightarrow> set_pc t (Releasing path i) s | _ \<Rightarrow> s)"

definition process_exit :: "nat \<Rightarrow> lock_state \<Rightarrow> lock_state" where
  "process_exit t s =
     set_pc t (Idle Never) (s\<lparr>ls_holder := (\<lambda>i. if ls_holder s i = Some t then None else ls_holder s i)\<rparr>)"

subsection \<open>A call that runs without the steps of others between its own\<close>

definition drive :: "bool \<Rightarrow> nat \<Rightarrow> lock_answer list \<Rightarrow> lock_state \<Rightarrow> lock_state" where
  "drive windows t answers s = fold (\<lambda>a. thread_step windows a t) answers s"

definition join_errors :: "string list \<Rightarrow> string" where
  "join_errors es = join [CHR 0x0A] es"

definition acquire_result :: "lock_pc \<Rightarrow> string + bool" where
  "acquire_result pc =
     (case pc of
        Owning _ _ \<Rightarrow> Inr True
      | Idle (Acquire_Failed es) \<Rightarrow> Inl (join_errors es)
      | _ \<Rightarrow> Inr False)"

definition release_error :: "lock_pc \<Rightarrow> string option" where
  "release_error pc = (case pc of Idle (Released es) \<Rightarrow> if es = [] then None else Some (join_errors es) | _ \<Rightarrow> None)"

text \<open>What the calls of one lock answer: the steps of taking it and of releasing it.\<close>

record lock_run =
  lr_acquire :: "lock_answer list"
  lr_release :: "lock_answer list"

definition run_acquire :: "bool \<Rightarrow> nat \<Rightarrow> lock_run \<Rightarrow> string \<Rightarrow> lock_state \<Rightarrow> lock_state \<times> (string + bool)" where
  "run_acquire windows t run name s =
     (let s1 = drive windows t (lr_acquire run) (begin_acquire t name s) in (s1, acquire_result (ls_pc s1 t)))"

definition run_release :: "bool \<Rightarrow> nat \<Rightarrow> lock_run \<Rightarrow> lock_state \<Rightarrow> lock_state \<times> string option" where
  "run_release windows t run s =
     (let s1 = drive windows t (lr_release run) (begin_release t s) in (s1, release_error (ls_pc s1 t)))"

text \<open>\<open>AcquireCreation\<close> and \<open>CreationActive\<close>; \<open>mkdir\<close> is what creating the directory answers.\<close>

definition acquire_creation ::
    "(string \<Rightarrow> char list) \<Rightarrow> (string \<Rightarrow> string) \<Rightarrow> string option \<Rightarrow> bool \<Rightarrow> nat \<Rightarrow> lock_run \<Rightarrow> string
       \<Rightarrow> lock_state \<Rightarrow> lock_state \<times> (string + bool)" where
  "acquire_creation sha pk mkdir windows t run path s =
     (case mkdir of
        Some e \<Rightarrow> (s, Inl (''failed to create registry directory: '' @ e))
      | None \<Rightarrow>
          (case run_acquire windows t run (creation_lock_path sha pk path) s of
             (s1, Inl e) \<Rightarrow> (s1, Inl (''lock worktree creation: '' @ e))
           | (s1, Inr b) \<Rightarrow> (s1, Inr b)))"

definition creation_active ::
    "(string \<Rightarrow> char list) \<Rightarrow> (string \<Rightarrow> string) \<Rightarrow> string option \<Rightarrow> bool \<Rightarrow> nat \<Rightarrow> lock_run \<Rightarrow> string
       \<Rightarrow> lock_state \<Rightarrow> lock_state \<times> (string + bool)" where
  "creation_active sha pk mkdir windows t run path s =
     (case acquire_creation sha pk mkdir windows t run path s of
        (s1, Inl e) \<Rightarrow> (s1, Inl e)
      | (s1, Inr False) \<Rightarrow> (s1, Inr True)
      | (s1, Inr True) \<Rightarrow>
          (case run_release windows t run s1 of
             (s2, Some e) \<Rightarrow> (s2, Inl (''release worktree creation inspection: '' @ e))
           | (s2, None) \<Rightarrow> (s2, Inr False)))"

subsection \<open>Cleaning up\<close>

datatype entry_info = Info_Missing | Info_Failed string | Info_Regular bool

record dir_entry =
  de_name :: string
  de_info :: entry_info

text \<open>One entry of the directory: what it is, and what its lock does; \<open>None\<close> means that the loop goes
  on.\<close>

definition cleanup_entry ::
    "bool \<Rightarrow> nat \<Rightarrow> (string \<Rightarrow> lock_run) \<Rightarrow> dir_entry \<Rightarrow> lock_state \<Rightarrow> lock_state \<times> string option" where
  "cleanup_entry windows t runs d s =
     (if \<not> creation_lock_name (de_name d) then (s, None)
      else case de_info d of
        Info_Missing \<Rightarrow> (s, None)
      | Info_Failed e \<Rightarrow> (s, Some (''inspect worktree creation lock '' @ de_name d @ '': '' @ e))
      | Info_Regular regular \<Rightarrow>
          if \<not> regular then (s, None)
          else (case run_acquire windows t (runs (de_name d)) (de_name d) s of
             (s1, Inl e) \<Rightarrow> (s1, Some (''inspect worktree creation lock '' @ de_name d @ '': '' @ e))
           | (s1, Inr acquired) \<Rightarrow>
               if \<not> acquired then (s1, None)
               else (case run_release windows t (runs (de_name d)) s1 of
                  (s2, Some e) \<Rightarrow> (s2, Some (''clean worktree creation lock '' @ de_name d @ '': '' @ e))
                | (s2, None) \<Rightarrow> (s2, None))))"

fun cleanup_entries ::
    "bool \<Rightarrow> nat \<Rightarrow> (string \<Rightarrow> lock_run) \<Rightarrow> dir_entry list \<Rightarrow> lock_state \<Rightarrow> lock_state \<times> string option" where
  "cleanup_entries windows t runs [] s = (s, None)"
| "cleanup_entries windows t runs (d # ds) s =
     (case cleanup_entry windows t runs d s of
        (s1, Some e) \<Rightarrow> (s1, Some e)
      | (s1, None) \<Rightarrow> cleanup_entries windows t runs ds s1)"

definition cleanup_creation_locks ::
    "bool \<Rightarrow> nat \<Rightarrow> (string \<Rightarrow> lock_run) \<Rightarrow> string + dir_entry list \<Rightarrow> lock_state \<Rightarrow> lock_state \<times> string option" where
  "cleanup_creation_locks windows t runs listing s =
     (if windows then (s, None)
      else case listing of
        Inl e \<Rightarrow> (s, Some (''list worktree creation locks: '' @ e))
      | Inr ds \<Rightarrow> cleanup_entries windows t runs ds s)"

subsection \<open>Opening a registry\<close>

text \<open>\<open>NewAt\<close> (on Unix a path is absolute when it starts with a slash) and the directory \<open>New\<close> picks:
  the environment's, expanded where that works, or the platform's.\<close>

definition new_at :: "string option \<Rightarrow> string \<Rightarrow> registry_file \<Rightarrow> registry_error + registry" where
  "new_at mkdir dir file =
     (if dir = [] then Inl (Registry_Error ''registry home is empty'')
      else if \<not> is_abs dir then Inl (Registry_Error ''registry home must be absolute'')
      else case mkdir of
        Some e \<Rightarrow> Inl (Registry_Error (''failed to create registry directory: '' @ e))
      | None \<Rightarrow> (case load_entries file of Inl e \<Rightarrow> Inl e | Inr m \<Rightarrow> Inr \<lparr>rg_file = file, rg_entries = m\<rparr>))"

definition registry_dir :: "string \<Rightarrow> (string + string) \<Rightarrow> (string + string) \<Rightarrow> string \<Rightarrow> string" where
  "registry_dir kwt_home expanded user_config home =
     (if kwt_home \<noteq> [] then (case expanded of Inl _ \<Rightarrow> kwt_home | Inr d \<Rightarrow> d)
      else case user_config of
        Inr c \<Rightarrow> join_path c ''kwt''
      | Inl _ \<Rightarrow> join_path (join_path home ''.config'') ''kwt'')"

end
