(* ===== verification/Creation_Lock_Spec.thy ===== *)
theory Creation_Lock_Spec
  imports Creation_Lock
begin

text \<open>
  The creation lock as a transition system: exclusion, how long a call takes, what it does alone and
  what cleaning up removes.
\<close>

subsection \<open>The system\<close>

fun pc_inode :: "lock_pc \<Rightarrow> nat option" where
  "pc_inode (Idle r) = None"
| "pc_inode (Trying path n) = None"
| "pc_inode (Opened path i n) = Some i"
| "pc_inode (Locked path i n) = Some i"
| "pc_inode (Dropping path i n) = Some i"
| "pc_inode (Failing path i e) = Some i"
| "pc_inode (Owning path i) = Some i"
| "pc_inode (Releasing path i) = Some i"
| "pc_inode (Unlocking path i es) = Some i"

text \<open>A new file gets an inode that no name, lock or open file uses.\<close>

definition fresh_inode :: "lock_state \<Rightarrow> nat \<Rightarrow> bool" where
  "fresh_inode s i \<longleftrightarrow> i \<notin> ran (ls_paths s) \<and> ls_holder s i = None \<and> (\<forall>t. pc_inode (ls_pc s t) \<noteq> Some i)"

inductive lock_trans :: "bool \<Rightarrow> lock_state \<Rightarrow> lock_state \<Rightarrow> bool" for windows where
  Begin_Acquire: "lock_trans windows s (begin_acquire t path s)"
| Begin_Release: "lock_trans windows s (begin_release t s)"
| Exit: "lock_trans windows s (process_exit t s)"
| Step: "fresh_inode s (la_inode a) \<Longrightarrow> lock_trans windows s (thread_step windows a t s)"

inductive_cases lock_transE: "lock_trans windows s s'"

inductive lock_reach :: "bool \<Rightarrow> lock_state \<Rightarrow> bool" for windows where
  Init: "lock_reach windows \<lparr>ls_paths = names, ls_holder = (\<lambda>_. None), ls_pc = (\<lambda>_. Idle Never)\<rparr>"
| Next: "lock_reach windows s \<Longrightarrow> lock_trans windows s s' \<Longrightarrow> lock_reach windows s'"

definition owns :: "lock_state \<Rightarrow> nat \<Rightarrow> string \<Rightarrow> bool" where
  "owns s t path \<longleftrightarrow> (\<exists>i. ls_pc s t = Owning path i)"

subsection \<open>The invariant\<close>

fun pc_ok :: "lock_state \<Rightarrow> nat \<Rightarrow> lock_pc \<Rightarrow> bool" where
  "pc_ok s t (Locked path i n) \<longleftrightarrow> ls_holder s i = Some t"
| "pc_ok s t (Dropping path i n) \<longleftrightarrow> ls_holder s i = Some t"
| "pc_ok s t (Failing path i e) \<longleftrightarrow> ls_holder s i = Some t"
| "pc_ok s t (Owning path i) \<longleftrightarrow> ls_holder s i = Some t \<and> ls_paths s path = Some i"
| "pc_ok s t (Releasing path i) \<longleftrightarrow> ls_holder s i = Some t \<and> ls_paths s path = Some i"
| "pc_ok s t (Unlocking path i es) \<longleftrightarrow> ls_holder s i = Some t"
| "pc_ok s t _ \<longleftrightarrow> True"

definition lock_inv :: "lock_state \<Rightarrow> bool" where
  "lock_inv s \<longleftrightarrow> (\<forall>t. pc_ok s t (ls_pc s t))"

lemma set_pc_fields [simp]:
  "ls_paths (set_pc t pc s) = ls_paths s" "ls_holder (set_pc t pc s) = ls_holder s"
  "ls_pc (set_pc t pc s) = (ls_pc s)(t := pc)"
  by (simp_all add: set_pc_def)

lemma pc_ok_cong:
  "ls_holder s' = ls_holder s \<Longrightarrow> ls_paths s' = ls_paths s \<Longrightarrow> pc_ok s' t pc = pc_ok s t pc"
  by (cases pc) simp_all

text \<open>A step of one process keeps what the others rely on: their locks, and the names of the locks they
  own or are about to remove.\<close>

definition frame_ok :: "nat \<Rightarrow> lock_state \<Rightarrow> lock_state \<Rightarrow> bool" where
  "frame_ok t s s' \<longleftrightarrow>
     (\<forall>u. u \<noteq> t \<longrightarrow> ls_pc s' u = ls_pc s u) \<and>
     (\<forall>u i. u \<noteq> t \<longrightarrow> ls_holder s i = Some u \<longrightarrow> ls_holder s' i = Some u) \<and>
     (\<forall>u i path. u \<noteq> t \<longrightarrow> ls_holder s i = Some u \<longrightarrow> ls_paths s path = Some i \<longrightarrow> ls_paths s' path = Some i)"

lemma frame_pc_ok: "frame_ok t s s' \<Longrightarrow> u \<noteq> t \<Longrightarrow> pc_ok s u pc \<Longrightarrow> pc_ok s' u pc"
  unfolding frame_ok_def by (cases pc) auto

lemma lock_inv_frame:
  "lock_inv s \<Longrightarrow> frame_ok t s s' \<Longrightarrow> pc_ok s' t (ls_pc s' t) \<Longrightarrow> lock_inv s'"
proof (unfold lock_inv_def, rule allI)
  fix u assume inv: "\<forall>t. pc_ok s t (ls_pc s t)" and f: "frame_ok t s s'" and t: "pc_ok s' t (ls_pc s' t)"
  show "pc_ok s' u (ls_pc s' u)"
  proof (cases "u = t")
    case False
    with f have "ls_pc s' u = ls_pc s u" by (simp add: frame_ok_def)
    with frame_pc_ok [OF f False] inv show ?thesis by simp
  qed (use t in simp)
qed

lemma thread_step_frame:
  assumes "lock_inv s"
  shows "frame_ok t s (thread_step windows a t s) \<and>
    pc_ok (thread_step windows a t s) t (ls_pc (thread_step windows a t s) t)"
proof -
  have t: "pc_ok s t (ls_pc s t)" using assms by (simp add: lock_inv_def)
  show ?thesis
  proof (cases "ls_pc s t")
    case (Trying path n)
    then show ?thesis
      by (auto simp: thread_step_def open_step_def frame_ok_def split: option.split)
  qed (use t in \<open>auto simp: thread_step_def flock_step_def match_step_def unlock_step_def remove_step_def frame_ok_def
         split: option.split\<close>)
qed

lemma lock_inv_step: "lock_inv s \<Longrightarrow> lock_inv (thread_step windows a t s)"
  using thread_step_frame lock_inv_frame by blast

lemma lock_inv_trans: "lock_trans windows s s' \<Longrightarrow> lock_inv s \<Longrightarrow> lock_inv s'"
proof (erule lock_transE)
  assume inv: "lock_inv s"
  have ok: "pc_ok s t (ls_pc s t)" for t using inv by (simp add: lock_inv_def)
  show "lock_inv s'" if "s' = begin_acquire t path s" for t path
  proof (rule lock_inv_frame [OF inv, of t])
    show "frame_ok t s s'" by (simp add: that begin_acquire_def frame_ok_def split: lock_pc.split)
    show "pc_ok s' t (ls_pc s' t)" using ok [of t] by (cases "ls_pc s t") (simp_all add: that begin_acquire_def)
  qed
  show "lock_inv s'" if "s' = begin_release t s" for t
  proof (rule lock_inv_frame [OF inv, of t])
    show "frame_ok t s s'" by (simp add: that begin_release_def frame_ok_def split: lock_pc.split)
    show "pc_ok s' t (ls_pc s' t)" using ok [of t] by (cases "ls_pc s t") (simp_all add: that begin_release_def)
  qed
  show "lock_inv s'" if "s' = process_exit t s" for t
    by (rule lock_inv_frame [OF inv, of t]) (auto simp: that process_exit_def frame_ok_def)
  show "lock_inv s'" if "s' = thread_step windows a t s" for a t
    unfolding that by (rule lock_inv_step [OF inv])
qed

lemma lock_inv_reach: "lock_reach windows s \<Longrightarrow> lock_inv s"
proof (induction rule: lock_reach.induct)
  case (Next s s')
  then show ?case using lock_inv_trans by blast
qed (simp add: lock_inv_def)

text \<open>
  C37. A creation has one owner: whatever the processes do and however their steps interleave, two of them never
  own the creation of one path; an owner's lock file stays under its name; and no step but its own
  release or exit takes an ownership away.
\<close>

theorem creation_exclusive:
  assumes "lock_reach windows s"
  shows "(owns s t path \<and> owns s u path \<longrightarrow> t = u)
     \<and> (owns s t path \<longrightarrow> (\<exists>i. ls_paths s path = Some i \<and> ls_holder s i = Some t))
     \<and> (owns s t path \<and> lock_trans windows s s' \<longrightarrow>
          owns s' t path \<or> s' = begin_release t s \<or> s' = process_exit t s)"
proof (intro conjI impI)
  have ok: "pc_ok s v (ls_pc s v)" for v using lock_inv_reach [OF assms] by (simp add: lock_inv_def)
  have name: "\<exists>i. ls_paths s path = Some i \<and> ls_holder s i = Some v" if "owns s v path" for v
    using that ok [of v] by (auto simp: owns_def)
  show "\<exists>i. ls_paths s path = Some i \<and> ls_holder s i = Some t" if "owns s t path" using name that .
  show "t = u" if "owns s t path \<and> owns s u path" using name [of t] name [of u] that by auto
  assume a: "owns s t path \<and> lock_trans windows s s'"
  then obtain i where pc: "ls_pc s t = Owning path i" by (auto simp: owns_def)
  from a have "lock_trans windows s s'" by blast
  then show "owns s' t path \<or> s' = begin_release t s \<or> s' = process_exit t s"
  proof (rule lock_transE)
    fix v name assume "s' = begin_acquire v name s"
    with pc show ?thesis by (cases "v = t") (auto simp: owns_def begin_acquire_def split: lock_pc.split)
  next
    fix v assume "s' = begin_release v s"
    with pc show ?thesis by (cases "v = t") (auto simp: owns_def begin_release_def split: lock_pc.split)
  next
    fix v assume "s' = process_exit v s"
    with pc show ?thesis by (cases "v = t") (auto simp: owns_def process_exit_def)
  next
    fix b v assume s': "s' = thread_step windows b v s"
    show ?thesis
    proof (cases "v = t")
      case True
      with pc s' show ?thesis by (simp add: owns_def thread_step_def)
    next
      case False
      then have "ls_pc s' t = ls_pc s t"
        using thread_step_frame [OF lock_inv_reach [OF assms], of v windows b] s' by (simp add: frame_ok_def)
      with pc show ?thesis by (simp add: owns_def)
    qed
  qed
qed

subsection \<open>How long a call takes\<close>

text \<open>The steps of its own that a process still has to take before its call returns.\<close>

fun steps_left :: "lock_pc \<Rightarrow> nat" where
  "steps_left (Trying path n) = 4 * n + 1"
| "steps_left (Opened path i n) = 4 * n + 4"
| "steps_left (Locked path i n) = 4 * n + 3"
| "steps_left (Dropping path i n) = 4 * n + 2"
| "steps_left (Failing path i e) = 1"
| "steps_left (Releasing path i) = 2"
| "steps_left (Unlocking path i es) = 1"
| "steps_left (Idle r) = 0"
| "steps_left (Owning path i) = 0"

lemma steps_left_own:
  "steps_left (ls_pc (thread_step windows a t s) t) \<le> steps_left (ls_pc s t) - 1"
  by (cases "ls_pc s t")
     (auto simp: thread_step_def open_step_def flock_step_def match_step_def unlock_step_def remove_step_def
        split: option.split)

lemma thread_step_other: "u \<noteq> t \<Longrightarrow> ls_pc (thread_step windows a t s) u = ls_pc s u"
  by (cases "ls_pc s t")
     (auto simp: thread_step_def open_step_def flock_step_def match_step_def unlock_step_def remove_step_def
        split: option.split)

text \<open>Any schedule: the answers and the processes that take the steps, in order.\<close>

fun schedule :: "bool \<Rightarrow> (lock_answer \<times> nat) list \<Rightarrow> lock_state \<Rightarrow> lock_state" where
  "schedule windows [] s = s"
| "schedule windows ((a, t) # xs) s = schedule windows xs (thread_step windows a t s)"

lemma steps_left_schedule:
  "steps_left (ls_pc (schedule windows xs s) t) \<le> steps_left (ls_pc s t) - count_list (map snd xs) t"
proof (induction xs arbitrary: s)
  case (Cons x xs)
  obtain a u where x: "x = (a, u)" by (cases x)
  show ?case
  proof (cases "u = t")
    case True
    with Cons.IH [of "thread_step windows a u s"] steps_left_own [of windows a t s] show ?thesis by (simp add: x)
  next
    case False
    with Cons.IH [of "thread_step windows a u s"] thread_step_other [of t u windows a s] show ?thesis by (simp add: x)
  qed
qed simp

lemma steps_left_zero: "steps_left pc = 0 \<longleftrightarrow> (\<exists>r. pc = Idle r) \<or> (\<exists>path i. pc = Owning path i)"
  by (cases pc) auto

text \<open>
  C38. Taking and releasing a lock never waits: in every schedule, whatever the other processes and the
  system do, \<open>AcquireCreation\<close> has returned after at most 33 steps of its own (8 attempts of 4) and the
  release function after 2.
\<close>

theorem creation_wait_free:
  "(ls_pc s t = Idle r \<and> count_list (map snd xs) t \<ge> 33 \<longrightarrow>
      (case ls_pc (schedule windows xs (begin_acquire t path s)) t of
         Idle r' \<Rightarrow> True | Owning path' i \<Rightarrow> True | _ \<Rightarrow> False))
   \<and> (owns s t path \<and> count_list (map snd xs) t \<ge> 2 \<longrightarrow>
      (case ls_pc (schedule windows xs (begin_release t s)) t of
         Idle r' \<Rightarrow> True | Owning path' i \<Rightarrow> True | _ \<Rightarrow> False))"
proof (intro conjI impI)
  assume a: "ls_pc s t = Idle r \<and> count_list (map snd xs) t \<ge> 33"
  then have "steps_left (ls_pc (begin_acquire t path s) t) = 33" by (simp add: begin_acquire_def max_attempts_def)
  with a steps_left_schedule [of windows xs "begin_acquire t path s" t]
  have "steps_left (ls_pc (schedule windows xs (begin_acquire t path s)) t) = 0" by simp
  then show "case ls_pc (schedule windows xs (begin_acquire t path s)) t of
      Idle r' \<Rightarrow> True | Owning path' i \<Rightarrow> True | _ \<Rightarrow> False"
    unfolding steps_left_zero by auto
next
  assume a: "owns s t path \<and> count_list (map snd xs) t \<ge> 2"
  then have "steps_left (ls_pc (begin_release t s) t) = 2" by (auto simp: begin_release_def owns_def)
  with a steps_left_schedule [of windows xs "begin_release t s" t]
  have "steps_left (ls_pc (schedule windows xs (begin_release t s)) t) = 0" by simp
  then show "case ls_pc (schedule windows xs (begin_release t s)) t of
      Idle r' \<Rightarrow> True | Owning path' i \<Rightarrow> True | _ \<Rightarrow> False"
    unfolding steps_left_zero by auto
qed

subsection \<open>A call alone\<close>

definition smooth :: "lock_answer list \<Rightarrow> bool" where
  "smooth answers \<longleftrightarrow> (\<forall>a \<in> set answers. la_fail a = None)"

lemma drive_settled: "steps_left (ls_pc s t) = 0 \<Longrightarrow> drive windows t answers s = s"
  by (induction answers) (auto simp: drive_def thread_step_def steps_left_zero)

lemma drive_Cons: "drive windows t (a # answers) s = drive windows t answers (thread_step windows a t s)"
  by (simp add: drive_def)

lemma three_answers: "3 \<le> length xs \<Longrightarrow> \<exists>a b c ys. xs = a # b # c # ys"
  by (cases xs; cases "tl xs"; cases "tl (tl xs)") auto

lemma two_answers: "2 \<le> length xs \<Longrightarrow> \<exists>a b ys. xs = a # b # ys"
  by (cases xs; cases "tl xs") auto

text \<open>What taking and releasing a lock come to when nothing fails and nobody interferes.\<close>

lemma acquire_alone_busy:
  assumes "smooth (lr_acquire run)" "3 \<le> length (lr_acquire run)" "ls_pc s t = Idle r"
    and "ls_paths s name = Some i" "ls_holder s i \<noteq> None"
  shows "run_acquire windows t run name s = (set_pc t (Idle Busy) s, Inr False)"
proof -
  obtain a b c ys where xs: "lr_acquire run = a # b # c # ys" using three_answers [OF assms(2)] by blast
  have ok: "la_fail a = None" "la_fail b = None" using assms(1) by (simp_all add: smooth_def xs)
  have "drive windows t (lr_acquire run) (begin_acquire t name s) = drive windows t (c # ys) (set_pc t (Idle Busy) s)"
    using assms(3-5) ok
    by (simp add: xs drive_Cons thread_step_def begin_acquire_def open_step_def flock_step_def max_attempts_def
        set_pc_def)
  also have "\<dots> = set_pc t (Idle Busy) s" by (rule drive_settled) simp
  finally show ?thesis by (simp add: run_acquire_def acquire_result_def)
qed

lemma acquire_alone_free:
  assumes "smooth (lr_acquire run)" "3 \<le> length (lr_acquire run)" "ls_pc s t = Idle r"
    and "ls_paths s name = Some i" "ls_holder s i = None"
  shows "run_acquire windows t run name s =
    (set_pc t (Owning name i) (s\<lparr>ls_holder := (ls_holder s)(i \<mapsto> t)\<rparr>), Inr True)"
proof -
  let ?s = "set_pc t (Owning name i) (s\<lparr>ls_holder := (ls_holder s)(i \<mapsto> t)\<rparr>)"
  obtain a b c ys where xs: "lr_acquire run = a # b # c # ys" using three_answers [OF assms(2)] by blast
  have ok: "la_fail a = None" "la_fail b = None" "la_fail c = None" using assms(1) by (simp_all add: smooth_def xs)
  have "drive windows t (lr_acquire run) (begin_acquire t name s) = drive windows t ys ?s"
    using assms(3-5) ok
    by (simp add: xs drive_Cons thread_step_def begin_acquire_def open_step_def flock_step_def match_step_def
        max_attempts_def set_pc_def)
  also have "\<dots> = ?s" by (rule drive_settled) simp
  finally show ?thesis by (simp add: run_acquire_def acquire_result_def)
qed

lemma acquire_alone_new:
  assumes "smooth (lr_acquire run)" "3 \<le> length (lr_acquire run)" "ls_pc s t = Idle r"
    and "ls_paths s name = None" "\<forall>a \<in> set (lr_acquire run). ls_holder s (la_inode a) = None"
  shows "\<exists>i. ls_holder s i = None \<and> run_acquire windows t run name s =
    (set_pc t (Owning name i) (s\<lparr>ls_paths := (ls_paths s)(name \<mapsto> i), ls_holder := (ls_holder s)(i \<mapsto> t)\<rparr>), Inr True)"
proof -
  obtain a b c ys where xs: "lr_acquire run = a # b # c # ys" using three_answers [OF assms(2)] by blast
  let ?i = "la_inode a"
  let ?s = "set_pc t (Owning name ?i)
    (s\<lparr>ls_paths := (ls_paths s)(name \<mapsto> ?i), ls_holder := (ls_holder s)(?i \<mapsto> t)\<rparr>)"
  have ok: "la_fail a = None" "la_fail b = None" "la_fail c = None" "ls_holder s ?i = None"
    using assms(1,5) by (simp_all add: smooth_def xs)
  have "drive windows t (lr_acquire run) (begin_acquire t name s) = drive windows t ys ?s"
    using assms(3,4) ok
    by (simp add: xs drive_Cons thread_step_def begin_acquire_def open_step_def flock_step_def match_step_def
        max_attempts_def set_pc_def)
  also have "\<dots> = ?s" by (rule drive_settled) simp
  finally show ?thesis using ok(4) by (auto simp: run_acquire_def acquire_result_def)
qed

lemma release_alone:
  assumes "smooth (lr_release run)" "2 \<le> length (lr_release run)" "ls_pc s t = Owning name i"
  shows "run_release False t run s =
    (set_pc t (Idle (Released [])) (s\<lparr>ls_paths := (ls_paths s)(name := None), ls_holder := (ls_holder s)(i := None)\<rparr>),
     None)"
proof -
  let ?s = "set_pc t (Idle (Released []))
    (s\<lparr>ls_paths := (ls_paths s)(name := None), ls_holder := (ls_holder s)(i := None)\<rparr>)"
  obtain a b ys where xs: "lr_release run = a # b # ys" using two_answers [OF assms(2)] by blast
  have ok: "la_fail a = None" "la_fail b = None" using assms(1) by (simp_all add: smooth_def xs)
  have "drive False t (lr_release run) (begin_release t s) = drive False t ys ?s"
    using assms(3) ok
    by (simp add: xs drive_Cons thread_step_def begin_release_def remove_step_def unlock_step_def set_pc_def)
  also have "\<dots> = ?s" by (rule drive_settled) simp
  finally show ?thesis by (simp add: run_release_def release_error_def)
qed

subsection \<open>Cleaning up\<close>

definition inactive :: "lock_state \<Rightarrow> string \<Rightarrow> bool" where
  "inactive s p \<longleftrightarrow> (case ls_paths s p of None \<Rightarrow> True | Some i \<Rightarrow> ls_holder s i = None)"

definition removable :: "lock_state \<Rightarrow> dir_entry \<Rightarrow> bool" where
  "removable s d \<longleftrightarrow> creation_lock_name (de_name d) \<and> de_info d = Info_Regular True
     \<and> inactive s (de_name d)"

definition runs_smooth :: "(string \<Rightarrow> lock_run) \<Rightarrow> lock_state \<Rightarrow> bool" where
  "runs_smooth runs s \<longleftrightarrow> (\<forall>name. smooth (lr_acquire (runs name)) \<and> smooth (lr_release (runs name))
     \<and> 3 \<le> length (lr_acquire (runs name)) \<and> 2 \<le> length (lr_release (runs name))
     \<and> (\<forall>a \<in> set (lr_acquire (runs name)). ls_holder s (la_inode a) = None))"

definition after_cleanup :: "nat \<Rightarrow> lock_state \<Rightarrow> dir_entry set \<Rightarrow> lock_state \<Rightarrow> bool" where
  "after_cleanup t s D s' \<longleftrightarrow> ls_holder s' = ls_holder s \<and> (\<forall>u. u \<noteq> t \<longrightarrow> ls_pc s' u = ls_pc s u)
     \<and> (\<exists>r. ls_pc s' t = Idle r)
     \<and> (\<forall>p. ls_paths s' p = (if \<exists>d \<in> D. de_name d = p \<and> removable s d then None else ls_paths s p))"

lemma cleanup_entry_alone:
  assumes "runs_smooth runs s" and "ls_pc s t = Idle r" and "\<forall>e. de_info d \<noteq> Info_Failed e"
  shows "\<exists>s'. cleanup_entry False t runs d s = (s', None) \<and> after_cleanup t s {d} s'"
proof (cases "creation_lock_name (de_name d) \<and> de_info d = Info_Regular True")
  case False
  with assms(2,3) show ?thesis
    by (cases "de_info d") (auto simp: cleanup_entry_def after_cleanup_def removable_def)
next
  case True
  let ?n = "de_name d" and ?run = "runs (de_name d)"
  have run: "smooth (lr_acquire ?run)" "3 \<le> length (lr_acquire ?run)" "smooth (lr_release ?run)" "2 \<le> length (lr_release ?run)"
    "\<forall>a \<in> set (lr_acquire ?run). ls_holder s (la_inode a) = None"
    using assms(1) unfolding runs_smooth_def by blast+
  show ?thesis
  proof (cases "ls_paths s ?n")
    case None
    from acquire_alone_new [OF run(1,2) assms(2) None run(5), of False] obtain i where i: "ls_holder s i = None"
      "run_acquire False t ?run ?n s =
        (set_pc t (Owning ?n i) (s\<lparr>ls_paths := (ls_paths s)(?n \<mapsto> i), ls_holder := (ls_holder s)(i \<mapsto> t)\<rparr>), Inr True)"
      by blast
    with True release_alone [OF run(3,4), of _ t ?n i] None show ?thesis
      by (auto simp: cleanup_entry_def after_cleanup_def removable_def inactive_def fun_upd_idem)
  next
    case (Some i)
    show ?thesis
    proof (cases "ls_holder s i")
      case None
      with True acquire_alone_free [OF run(1,2) assms(2) Some, of False] release_alone [OF run(3,4), of _ t ?n i] Some
      show ?thesis by (auto simp: cleanup_entry_def after_cleanup_def removable_def inactive_def fun_upd_idem)
    next
      case busy: (Some u)
      with True acquire_alone_busy [OF run(1,2) assms(2) Some, of False] Some show ?thesis
        by (auto simp: cleanup_entry_def after_cleanup_def removable_def inactive_def)
    qed
  qed
qed

lemma cleanup_entries_alone:
  "runs_smooth runs s \<Longrightarrow> ls_pc s t = Idle r \<Longrightarrow> \<forall>d \<in> set ds. \<forall>e. de_info d \<noteq> Info_Failed e \<Longrightarrow>
     \<exists>s'. cleanup_entries False t runs ds s = (s', None) \<and> after_cleanup t s (set ds) s'"
proof (induction ds arbitrary: s r)
  case (Cons d ds)
  then obtain s1 where s1: "cleanup_entry False t runs d s = (s1, None)" "after_cleanup t s {d} s1"
    using cleanup_entry_alone [of runs s t r d] by auto
  then obtain r1 where r1: "ls_pc s1 t = Idle r1" and h: "ls_holder s1 = ls_holder s"
    and p: "\<And>p. ls_paths s1 p = (if de_name d = p \<and> removable s d then None else ls_paths s p)"
    by (auto simp: after_cleanup_def)
  have "runs_smooth runs s1" using Cons.prems(1) by (simp add: runs_smooth_def h)
  with Cons.IH [OF _ r1] Cons.prems(3) obtain s2 where
    s2: "cleanup_entries False t runs ds s1 = (s2, None)" "after_cleanup t s1 (set ds) s2" by auto
  have rem: "removable s1 e \<longleftrightarrow> removable s e \<or> removable s d \<and> de_name d = de_name e \<and> de_info e = Info_Regular True" for e
  proof -
    have "inactive s1 q \<longleftrightarrow> inactive s q \<or> de_name d = q \<and> removable s d" for q
      by (cases "de_name d = q \<and> removable s d") (auto simp: inactive_def p h split: option.split)
    then show ?thesis unfolding removable_def by metis
  qed
  have "after_cleanup t s (set (d # ds)) s2"
    using s1(2) s2(2) unfolding after_cleanup_def by (auto simp: rem p)
  with s1(1) s2(1) show ?case by simp
qed (simp add: after_cleanup_def)

text \<open>
  Cleaning up, undisturbed, removes exactly the names of inactive creation locks that the listing has as regular
  files: no lock changes its holder, no other process is disturbed, and every other file stays.
\<close>

theorem cleanup_removes_inactive:
  assumes "runs_smooth runs s" and "ls_pc s t = Idle r" and "\<forall>d \<in> set ds. \<forall>e. de_info d \<noteq> Info_Failed e"
  shows "\<exists>s'. cleanup_creation_locks False t runs (Inr ds) s = (s', None) \<and>
     ls_holder s' = ls_holder s \<and> (\<forall>u. u \<noteq> t \<longrightarrow> ls_pc s' u = ls_pc s u) \<and>
     (\<forall>p. ls_paths s' p =
        (if \<exists>d \<in> set ds. de_name d = p \<and> de_info d = Info_Regular True \<and> creation_lock_name p \<and>
              inactive s p
         then None else ls_paths s p))"
proof -
  from cleanup_entries_alone [OF assms] obtain s' where
    s': "cleanup_entries False t runs ds s = (s', None)" "after_cleanup t s (set ds) s'" by blast
  moreover have "(\<exists>d \<in> set ds. de_name d = p \<and> removable s d) \<longleftrightarrow>
      (\<exists>d \<in> set ds. de_name d = p \<and> de_info d = Info_Regular True \<and> creation_lock_name p \<and>
inactive s p)" for p
    unfolding removable_def by blast
  ultimately show ?thesis by (simp add: cleanup_creation_locks_def after_cleanup_def)
qed

subsection \<open>Names\<close>

text \<open>The names of \<open>AcquireCreation\<close> are the names that cleaning up knows.\<close>

lemma creation_lock_path_name:
  "length (sha (pk path)) = 32 \<Longrightarrow> creation_lock_name (creation_lock_path sha pk path)"
proof -
  assume "length (sha (pk path)) = 32"
  then have "length (hex_text (sha (pk path))) = 64" by (simp add: hex_text_length)
  moreover have "trim_suffix (trim_prefix (creation_lock_path sha pk path) creation_lock_prefix) creation_lock_suffix =
      hex_text (sha (pk path))"
    by (simp add: creation_lock_path_def trim_prefix_def trim_suffix_def has_prefix_def has_suffix_def)
  ultimately show ?thesis using hex_text_hex [of "sha (pk path)"]
    by (simp add: creation_lock_name_def hex_decode_len_def creation_lock_path_def has_prefix_def has_suffix_def
        suffix_append)
qed

subsection \<open>Witnesses\<close>

definition demo_answer :: "nat \<Rightarrow> lock_answer" where "demo_answer i = \<lparr>la_fail = None, la_inode = i\<rparr>"

definition demo_locks :: lock_state where
  "demo_locks = \<lparr>ls_paths = (\<lambda>_. None), ls_holder = (\<lambda>_. None), ls_pc = (\<lambda>_. Idle Never)\<rparr>"

definition demo_owner :: lock_state where
  "demo_owner = set_pc 0 (Owning ''x'' 7) (demo_locks\<lparr>ls_paths := [''x'' \<mapsto> 7], ls_holder := [7 \<mapsto> 0]\<rparr>)"

lemma demo_owner_reach: "lock_reach False demo_owner"
proof -
  let ?a = "demo_answer 7"
  let ?s1 = "begin_acquire 0 ''x'' demo_locks"
  let ?s2 = "thread_step False ?a 0 ?s1"
  let ?s3 = "thread_step False (demo_answer 8) 0 ?s2"
  let ?s4 = "thread_step False (demo_answer 8) 0 ?s3"
  note steps = begin_acquire_def thread_step_def open_step_def flock_step_def match_step_def set_pc_def
    max_attempts_def demo_answer_def demo_locks_def fresh_inode_def
  have "lock_reach False ?s1" unfolding demo_locks_def by (rule Next [OF Init Begin_Acquire])
  moreover have "lock_trans False ?s1 ?s2" by (rule Step) (simp add: steps)
  moreover have "lock_trans False ?s2 ?s3" by (rule Step) (simp add: steps)
  moreover have "lock_trans False ?s3 ?s4" by (rule Step) (simp add: steps)
  moreover have "?s4 = demo_owner" by (simp add: steps demo_owner_def)
  ultimately show ?thesis using Next by metis
qed

theorem creation_exclusive_witness: "owns demo_owner 0 ''x'' \<and> \<not> owns demo_owner 1 ''x''"
proof -
  have "owns demo_owner 0 ''x''" by (simp add: owns_def demo_owner_def)
  with creation_exclusive [OF demo_owner_reach, of 0 "''x''" 1 demo_owner] show ?thesis by auto
qed

theorem creation_wait_free_witness:
  "case ls_pc (schedule False (replicate 33 (demo_answer 7, 0)) (begin_acquire 0 ''x'' demo_locks)) 0 of
     Idle r' \<Rightarrow> True | Owning path' i \<Rightarrow> True | _ \<Rightarrow> False"
proof -
  have "count_list (replicate n (0 :: nat)) 0 = n" for n by (induction n) simp_all
  then have "count_list (map snd (replicate 33 (demo_answer 7, 0 :: nat))) 0 \<ge> 33"
    by (simp only: map_replicate snd_conv order_refl)
  moreover have "ls_pc demo_locks 0 = Idle Never" by (simp add: demo_locks_def)
  ultimately show ?thesis
    using creation_wait_free [THEN conjunct1, of demo_locks 0 Never "replicate 33 (demo_answer 7, 0)" False "''x''"]
    by blast
qed

definition demo_name :: "char \<Rightarrow> string" where
  "demo_name b = creation_lock_path (\<lambda>_. replicate 32 b) (\<lambda>p. p) ''x''"

definition demo_dir :: lock_state where
  "demo_dir = demo_locks\<lparr>ls_paths := [demo_name CHR ''a'' \<mapsto> 1, demo_name CHR ''b'' \<mapsto> 7], ls_holder := [7 \<mapsto> 0]\<rparr>"

lemma demo_names: "creation_lock_name (demo_name b)" "demo_name CHR ''a'' \<noteq> demo_name CHR ''b''"
proof -
  show "creation_lock_name (demo_name b)" unfolding demo_name_def by (rule creation_lock_path_name) simp
  show "demo_name CHR ''a'' \<noteq> demo_name CHR ''b''"
  proof
    assume eq: "demo_name CHR ''a'' = demo_name CHR ''b''"
    have nth: "hex_text (b # bs) ! 1 = hex_digit (code b mod 16)" for b bs by (simp add: hex_text_def)
    have "hex_text (replicate 32 CHR ''a'') = hex_text (replicate 32 CHR ''b'')"
      using eq by (simp only: demo_name_def creation_lock_path_def append_same_eq same_append_eq)
    then have "hex_text (CHR ''a'' # replicate 31 CHR ''a'') ! 1 = hex_text (CHR ''b'' # replicate 31 CHR ''b'') ! 1"
      by (simp add: numeral_eq_Suc)
    then show False unfolding nth by (simp add: hex_digit_def code_def)
  qed
qed

theorem cleanup_removes_inactive_witness:
  "\<exists>s'. cleanup_creation_locks False 1 (\<lambda>_. \<lparr>lr_acquire = replicate 3 (demo_answer 8), lr_release = replicate 2 (demo_answer 8)\<rparr>)
       (Inr (map (\<lambda>b. \<lparr>de_name = demo_name b, de_info = Info_Regular True\<rparr>) ''ab'')) demo_dir = (s', None)
     \<and> ls_paths s' (demo_name CHR ''a'') = None \<and> ls_paths s' (demo_name CHR ''b'') = Some 7"
proof -
  let ?runs = "\<lambda>_ :: string. \<lparr>lr_acquire = replicate 3 (demo_answer 8), lr_release = replicate 2 (demo_answer 8)\<rparr>"
  let ?ds = "map (\<lambda>b. \<lparr>de_name = demo_name b, de_info = Info_Regular True\<rparr>) ''ab''"
  have "runs_smooth ?runs demo_dir"
    by (auto simp: runs_smooth_def smooth_def demo_answer_def demo_dir_def demo_locks_def)
  moreover have "ls_pc demo_dir 1 = Idle Never" by (simp add: demo_dir_def demo_locks_def)
  moreover have "\<forall>d \<in> set ?ds. \<forall>e. de_info d \<noteq> Info_Failed e" by simp
  ultimately obtain s' where s': "cleanup_creation_locks False 1 ?runs (Inr ?ds) demo_dir = (s', None)"
    and p: "\<forall>p. ls_paths s' p =
        (if \<exists>d \<in> set ?ds. de_name d = p \<and> de_info d = Info_Regular True \<and> creation_lock_name p \<and> inactive demo_dir p
         then None else ls_paths demo_dir p)"
    using cleanup_removes_inactive [of ?runs demo_dir 1 Never ?ds] by blast
  have "ls_paths demo_dir (demo_name CHR ''a'') = Some 1" "ls_paths demo_dir (demo_name CHR ''b'') = Some 7"
    using demo_names(2) by (simp_all add: demo_dir_def)
  then have "inactive demo_dir (demo_name CHR ''a'')" "\<not> inactive demo_dir (demo_name CHR ''b'')"
    by (simp_all add: inactive_def demo_dir_def)
  then have "ls_paths s' (demo_name CHR ''a'') = None" "ls_paths s' (demo_name CHR ''b'') = Some 7"
    using p demo_names \<open>ls_paths demo_dir (demo_name CHR ''b'') = Some 7\<close> by simp_all
  with s' show ?thesis by blast
qed

end
