(* ===== verification/Prune_Policy.thy ===== *)
theory Prune_Policy
  imports Path_Utils
begin

text \<open>
  The policy that says which worktrees may be pruned because their pull request was merged
  (\<open>internal/prunepolicy\<close>), and the identities of repositories and pull requests it compares
  (\<open>internal/pullrequest/types.go\<close>, \<open>ValidateWorktreeGeneration\<close> of \<open>worktree/identity.go\<close>). The
  provider is a record of functions: each answers with what it found or with an error, of which
  \<open>errors.As\<close> finds the typed one or none.
\<close>

subsection \<open>Repositories and pull requests\<close>

record repository =
  rp_provider :: string
  rp_identity :: string
  rp_host :: string
  rp_owner :: string
  rp_name :: string
  rp_clone_url :: string
  rp_ssh_url :: string

record pr_branch =
  br_name :: string
  br_repository :: repository
  br_is_fork :: bool

text \<open>The fields of a workspace the policy reads.\<close>

record pr_workspace =
  ws_repository :: string
  ws_branch :: string
  ws_path :: string
  ws_generation :: string

record pull_request =
  pq_provider :: string
  pq_repository :: repository
  pq_number :: int
  pq_url :: string
  pq_source :: pr_branch
  pq_head_sha :: string
  pq_merged_at :: "gtime option"

record pr_project =
  pj_identity :: string
  pj_name :: string
  pj_path :: string

record provenance =
  pv_id :: string
  pv_provider :: string
  pv_repository :: string
  pv_aliases :: "string list"
  pv_number :: int
  pv_url :: string
  pv_head_sha :: string
  pv_source_repo :: string
  pv_source_branch :: string
  pv_project :: pr_project
  pv_workspace :: pr_workspace

text \<open>\<open>pullrequest.Error\<close> without its cause.\<close>

record pr_error =
  pe_code :: string
  pe_message :: string
  pe_retryable :: bool

definition normalize_repository_identity :: "string \<Rightarrow> string" where
  "normalize_repository_identity identity =
     (let i = trim_space identity in
      if has_prefix (to_lower i) ''github.com/'' then to_lower i else i)"

definition equal_repository_identity :: "string \<Rightarrow> string \<Rightarrow> bool" where
  "equal_repository_identity l r \<longleftrightarrow> normalize_repository_identity l = normalize_repository_identity r"

definition opaque_id :: "string \<Rightarrow> int \<Rightarrow> string" where
  "opaque_id repo number = ''github:'' @ normalize_repository_identity repo @ ''#'' @ itoa number"

definition validate_worktree_generation :: "string \<Rightarrow> bool" where
  "validate_worktree_generation g \<longleftrightarrow> hex_decode_len g = Some 16"

definition github_repository :: "string \<Rightarrow> repository option" where
  "github_repository identity =
     (let i = normalize_repository_identity identity in
      if \<not> has_prefix i ''github.com/'' then None
      else case cut (trim_prefix i ''github.com/'') (CHR ''/'') of
        (owner, name, ok) \<Rightarrow>
          if \<not> ok \<or> owner = [] \<or> name = [] \<or> contains_char name (CHR ''/'') then None
          else Some \<lparr>rp_provider = ''github'', rp_identity = i, rp_host = ''github.com'',
                 rp_owner = owner, rp_name = name, rp_clone_url = [], rp_ssh_url = []\<rparr>)"

subsection \<open>Reasons, outcomes and reports\<close>

datatype reason =
    Removed | WouldRemove | MissingGeneration | DoctorRequired | DirtyWorktree | EligibleMerged
  | HeadAdvancedAfterPR | NoAssociatedPR | PRNotMerged | SourceRepositoryUnavailable
  | SourceRepositoryMismatch | SourceBranchMismatch | AmbiguousPRMatch | AuthenticationFailed
  | NetworkFailure | ProviderFailure | GenerationChanged | ExpirationPolicyChanged | HeadChanged
  | RepositoryChanged | MainWorktree | LockedWorktree | PathUnavailable | RemovalFailed
  | CleanupIncomplete | WouldRequireConfirmation | ConfirmationRequired | ConfirmationDeclined
  | ProtectedSessionLive | ProtectedEndpointIncomplete | RegistrationChanged

record outcome =
  oc_path :: string
  oc_branch :: string
  oc_reason :: reason
  oc_message :: string
  oc_remediation :: string
  oc_evidence :: "string \<rightharpoonup> string"

record prune_summary =
  sm_candidates :: nat
  sm_removed :: nat
  sm_would_remove :: nat
  sm_skipped :: nat

record report =
  rt_outcomes :: "outcome list"
  rt_summary :: prune_summary

definition count_outcome :: "outcome \<Rightarrow> prune_summary \<Rightarrow> prune_summary" where
  "count_outcome oc s =
     (if oc_reason oc = Removed then s\<lparr>sm_removed := sm_removed s + 1\<rparr>
      else if oc_reason oc \<in> {WouldRemove, WouldRequireConfirmation}
      then s\<lparr>sm_would_remove := sm_would_remove s + 1\<rparr>
      else s\<lparr>sm_skipped := sm_skipped s + 1\<rparr>)"

definition finalize :: "report \<Rightarrow> report" where
  "finalize r = r\<lparr>rt_summary :=
     fold count_outcome (rt_outcomes r)
       \<lparr>sm_candidates = length (rt_outcomes r), sm_removed = 0, sm_would_remove = 0, sm_skipped = 0\<rparr>\<rparr>"

fun exit_code_loop :: "outcome list \<Rightarrow> nat" where
  "exit_code_loop [] = 0"
| "exit_code_loop (oc # ocs) =
     (if oc_reason oc \<in> {Removed, WouldRemove, WouldRequireConfirmation, ConfirmationDeclined,
           NoAssociatedPR, PRNotMerged} then exit_code_loop ocs else 1)"

definition exit_code :: "report \<Rightarrow> nat" where
  "exit_code r = exit_code_loop (rt_outcomes r)"

subsection \<open>Outcomes of candidates\<close>

record merged_candidate =
  mc_path :: string
  mc_branch :: string
  mc_head :: string
  mc_generation :: string
  mc_main_path :: string
  mc_project :: string
  mc_live :: string
  mc_source :: string
  mc_source_branch :: string
  mc_dirty :: bool
  mc_is_main :: bool
  mc_provenance :: "provenance option"

text \<open>A provider's failure is \<open>Inl\<close> with the typed error found in it, if any.\<close>

type_synonym 'a provided = "pr_error option + 'a"

record merged_provider =
  mp_resolve :: "repository \<Rightarrow> repository provided"
  mp_get :: "repository \<Rightarrow> int \<Rightarrow> pull_request provided"
  mp_list_for_commit :: "repository \<Rightarrow> string \<Rightarrow> pull_request list provided"
  mp_list_by_head :: "repository \<Rightarrow> string \<Rightarrow> string \<Rightarrow> pull_request list provided"

definition merged_outcome :: "merged_candidate \<Rightarrow> reason \<Rightarrow> string \<Rightarrow> outcome" where
  "merged_outcome c r msg = \<lparr>oc_path = mc_path c, oc_branch = mc_branch c, oc_reason = r,
     oc_message = msg, oc_remediation = [], oc_evidence = [''head_sha'' \<mapsto> mc_head c]\<rparr>"

definition add_evidence :: "outcome \<Rightarrow> pull_request \<Rightarrow> outcome" where
  "add_evidence oc pr = oc\<lparr>oc_evidence := (oc_evidence oc)(''pr_number'' \<mapsto> itoa (pq_number pr),
     ''pr_url'' \<mapsto> pq_url pr, ''pr_head_sha'' \<mapsto> pq_head_sha pr)\<rparr>"

definition mismatch_message :: "reason \<Rightarrow> string" where
  "mismatch_message r =
     (case r of
        HeadAdvancedAfterPR \<Rightarrow> ''source branch has advanced after the associated pull request head''
      | SourceRepositoryMismatch \<Rightarrow>
          ''associated pull request source repository does not match the configured upstream''
      | _ \<Rightarrow> ''associated pull request source branch does not match the configured upstream'')"

definition pull_request_outcome :: "merged_candidate \<Rightarrow> pull_request \<Rightarrow> outcome" where
  "pull_request_outcome c pr =
     add_evidence
       (if pq_merged_at pr = None
        then merged_outcome c PRNotMerged ''associated pull request is not merged''
        else merged_outcome c EligibleMerged ''worktree has one explicitly merged pull request'') pr"

definition ambiguous_outcome :: "merged_candidate \<Rightarrow> pull_request list \<Rightarrow> outcome" where
  "ambiguous_outcome c prs =
     (let oc = merged_outcome c AmbiguousPRMatch ''multiple pull requests match the worktree identity''
      in oc\<lparr>oc_evidence := (oc_evidence oc)(''match_count'' \<mapsto> itoa_nat (length prs))\<rparr>)"

definition provider_failure :: "merged_candidate \<Rightarrow> pr_error option \<Rightarrow> outcome" where
  "provider_failure c err =
     (let code = (case err of None \<Rightarrow> ''network_failure'' | Some e \<Rightarrow> pe_code e);
          retryable = (case err of None \<Rightarrow> False | Some e \<Rightarrow> pe_retryable e);
          reason =
            (case err of
               None \<Rightarrow> NetworkFailure
             | Some e \<Rightarrow>
                 if pe_code e = ''authentication_failed'' then AuthenticationFailed
                 else if pe_code e = ''network_failure'' then NetworkFailure
                 else ProviderFailure);
          oc = (case reason of
                  AuthenticationFailed \<Rightarrow>
                    (merged_outcome c reason ''pull-request provider authentication failed'')
                      \<lparr>oc_remediation := ''Refresh GitHub authentication and retry merged pruning.''\<rparr>
                | ProviderFailure \<Rightarrow>
                    (merged_outcome c reason ''pull-request provider returned an unusable result'')
                      \<lparr>oc_remediation := ''Review the provider error code, resolve the provider issue, and retry merged pruning.''\<rparr>
                | _ \<Rightarrow>
                    (merged_outcome c reason ''pull-request provider could not classify the candidate'')
                      \<lparr>oc_remediation := ''Check network connectivity and retry merged pruning.''\<rparr>)
      in oc\<lparr>oc_evidence := (oc_evidence oc)(''provider_error_code'' \<mapsto> code,
              ''retryable'' \<mapsto> (if retryable then ''true'' else ''false''))\<rparr>)"

subsection \<open>Matching pull requests\<close>

text \<open>The loop of \<open>exactOrdinaryMatches\<close>: the exact matches so far, and the mismatch seen so far.\<close>

fun exact_matches ::
    "merged_candidate \<Rightarrow> pull_request list \<Rightarrow> pull_request list \<Rightarrow> reason option
       \<Rightarrow> pull_request list \<times> reason option" where
  "exact_matches c [] exact mismatch = (exact, mismatch)"
| "exact_matches c (pr # prs) exact mismatch =
     (if \<not> equal_repository_identity (rp_identity (pq_repository pr)) (mc_project c)
         \<or> pq_head_sha pr \<noteq> mc_head c
      then exact_matches c prs exact mismatch
      else if \<not> equal_repository_identity (rp_identity (br_repository (pq_source pr))) (mc_source c)
      then exact_matches c prs exact (Some SourceRepositoryMismatch)
      else if br_name (pq_source pr) \<noteq> mc_source_branch c
      then exact_matches c prs exact (if mismatch = None then Some SourceBranchMismatch else mismatch)
      else exact_matches c prs (exact @ [pr]) mismatch)"

definition exact_ordinary_matches ::
    "merged_candidate \<Rightarrow> pull_request list \<Rightarrow> pull_request list \<times> reason option" where
  "exact_ordinary_matches c prs = exact_matches c prs [] None"

fun head_matches ::
    "merged_candidate \<Rightarrow> pull_request list \<Rightarrow> pull_request list \<Rightarrow> reason option
       \<Rightarrow> pull_request list \<times> reason option" where
  "head_matches c [] found mismatch = (found, mismatch)"
| "head_matches c (pr # prs) found mismatch =
     (if \<not> equal_repository_identity (rp_identity (pq_repository pr)) (mc_project c)
      then head_matches c prs found mismatch
      else if \<not> equal_repository_identity (rp_identity (br_repository (pq_source pr))) (mc_source c)
      then head_matches c prs found (Some SourceRepositoryMismatch)
      else if br_name (pq_source pr) \<noteq> mc_source_branch c
      then head_matches c prs found (if mismatch = None then Some SourceBranchMismatch else mismatch)
      else head_matches c prs (found @ [pr]) mismatch)"

definition diagnose_source_head :: "merged_candidate \<Rightarrow> pull_request list \<Rightarrow> outcome" where
  "diagnose_source_head c prs =
     (case head_matches c prs [] None of (found, mismatch) \<Rightarrow>
      if length found > 1 then ambiguous_outcome c found
      else case found of
        pr # _ \<Rightarrow>
          if pq_merged_at pr = None then pull_request_outcome c pr
          else add_evidence (merged_outcome c HeadAdvancedAfterPR (mismatch_message HeadAdvancedAfterPR)) pr
      | [] \<Rightarrow>
          case mismatch of
            Some r \<Rightarrow> merged_outcome c r (mismatch_message r)
          | None \<Rightarrow> merged_outcome c NoAssociatedPR
              ''no pull request is associated with the worktree HEAD or source branch'')"

subsection \<open>Provenance\<close>

definition provenance_repository_matches :: "provenance \<Rightarrow> string \<Rightarrow> bool" where
  "provenance_repository_matches r identity \<longleftrightarrow>
     equal_repository_identity (pv_repository r) identity
     \<or> list_ex (\<lambda>a. equal_repository_identity a identity) (pv_aliases r)"

definition provenance_id_matches :: "provenance \<Rightarrow> bool" where
  "provenance_id_matches r \<longleftrightarrow>
     pv_id r = opaque_id (pv_repository r) (pv_number r)
     \<or> list_ex (\<lambda>a. pv_id r = opaque_id a (pv_number r)) (pv_aliases r)"

definition provenance_source_matches :: "provenance \<Rightarrow> string \<Rightarrow> bool" where
  "provenance_source_matches r identity \<longleftrightarrow>
     equal_repository_identity (pv_source_repo r) identity
     \<or> (provenance_repository_matches r (pv_source_repo r) \<and> provenance_repository_matches r identity)"

text \<open>The long guard of \<open>evaluateImportedMerged\<close>, negated: the record belongs to this workspace.\<close>

definition provenance_fits :: "(string \<Rightarrow> string) \<Rightarrow> merged_candidate \<Rightarrow> provenance \<Rightarrow> string \<Rightarrow> bool" where
  "provenance_fits pk c r project \<longleftrightarrow>
     equal_fold (pv_provider r) ''github'' \<and> pv_number r > 0
     \<and> provenance_id_matches r
     \<and> provenance_repository_matches r project
     \<and> provenance_repository_matches r (pj_identity (pv_project r))
     \<and> provenance_repository_matches r (ws_repository (pv_workspace r))
     \<and> trim_space (mc_main_path c) \<noteq> []
     \<and> trim_space (pj_path (pv_project r)) \<noteq> []
     \<and> pk (pj_path (pv_project r)) = pk (mc_main_path c)
     \<and> pk (ws_path (pv_workspace r)) = pk (mc_path c)
     \<and> ws_branch (pv_workspace r) = mc_branch c
     \<and> (ws_generation (pv_workspace r) = [] \<or> ws_generation (pv_workspace r) = mc_generation c)"

definition evaluate_imported_merged ::
    "(string \<Rightarrow> string) \<Rightarrow> merged_provider \<Rightarrow> merged_candidate \<Rightarrow> provenance \<Rightarrow> repository
       \<Rightarrow> string \<Rightarrow> string \<Rightarrow> outcome" where
  "evaluate_imported_merged pk p c r base project source =
     (let mismatch = (\<lambda>x. merged_outcome c x (mismatch_message x)) in
      if \<not> provenance_fits pk c r project
      then merged_outcome c DoctorRequired ''pull-request provenance does not match the live workspace''
      else if \<not> provenance_source_matches r source then mismatch SourceRepositoryMismatch
      else if pv_source_branch r \<noteq> mc_source_branch c then mismatch SourceBranchMismatch
      else if pv_head_sha r \<noteq> mc_head c then mismatch HeadAdvancedAfterPR
      else case mp_get p base (pv_number r) of
        Inl err \<Rightarrow> provider_failure c err
      | Inr pr \<Rightarrow>
          if pq_number pr \<noteq> pv_number r
             \<or> \<not> equal_repository_identity (rp_identity (pq_repository pr)) (mc_project c)
          then merged_outcome c RepositoryChanged
                 ''provider pull request does not match the recorded repository''
          else if \<not> equal_fold (pq_provider pr) (pv_provider r)
          then merged_outcome c DoctorRequired ''provider pull request does not match recorded provenance''
          else if \<not> equal_repository_identity (mc_source c) (rp_identity (br_repository (pq_source pr)))
          then mismatch SourceRepositoryMismatch
          else if br_name (pq_source pr) \<noteq> pv_source_branch r then mismatch SourceBranchMismatch
          else if pq_head_sha pr \<noteq> pv_head_sha r then mismatch HeadAdvancedAfterPR
          else pull_request_outcome c pr)"

subsection \<open>Evaluation\<close>

text \<open>The end of \<open>evaluateMergedCandidate\<close>, for a candidate without provenance: the pull requests of
  its commit, and when none is concerned, those of its source branch.\<close>

definition evaluate_ordinary_merged ::
    "merged_provider \<Rightarrow> merged_candidate \<Rightarrow> repository \<Rightarrow> repository \<Rightarrow> outcome" where
  "evaluate_ordinary_merged p c base source =
     (case mp_list_for_commit p base (mc_head c) of
        Inl err \<Rightarrow> provider_failure c err
      | Inr prs \<Rightarrow>
          (case exact_ordinary_matches c prs of (exact, mismatch) \<Rightarrow>
             if length exact = 1 then pull_request_outcome c (hd exact)
             else if exact \<noteq> [] then ambiguous_outcome c exact
             else case mismatch of
               Some r \<Rightarrow> merged_outcome c r (mismatch_message r)
             | None \<Rightarrow>
                 (case mp_list_by_head p base (rp_owner source) (mc_source_branch c) of
                    Inl err \<Rightarrow> provider_failure c err
                  | Inr prs' \<Rightarrow> diagnose_source_head c prs')))"

text \<open>The two repositories as the provider resolves them; \<open>Inl\<close> is the outcome of an early return.\<close>

definition resolve_repositories ::
    "merged_provider \<Rightarrow> merged_candidate \<Rightarrow> repository \<Rightarrow> repository \<Rightarrow> outcome + repository \<times> repository" where
  "resolve_repositories p c requested_base requested_source =
     (case mp_resolve p requested_base of
        Inl err \<Rightarrow> Inl (provider_failure c err)
      | Inr resolved_base \<Rightarrow>
      (case github_repository (rp_identity resolved_base) of
        None \<Rightarrow> Inl (merged_outcome c RepositoryChanged
                       ''resolved project repository identity is unavailable'')
      | Some base \<Rightarrow>
      (case mp_resolve p requested_source of
        Inl err \<Rightarrow> Inl (provider_failure c err)
      | Inr resolved_source \<Rightarrow>
      (case github_repository (rp_identity resolved_source) of
        None \<Rightarrow> Inl (merged_outcome c SourceRepositoryUnavailable
                       ''resolved upstream repository identity is unavailable'')
      | Some source \<Rightarrow> Inr (base, source)))))"

definition evaluate_merged_candidate ::
    "(string \<Rightarrow> string) \<Rightarrow> merged_provider \<Rightarrow> merged_candidate \<Rightarrow> outcome" where
  "evaluate_merged_candidate pk p c =
     (if mc_is_main c then merged_outcome c MainWorktree ''main worktree is never pruned''
      else if \<not> validate_worktree_generation (mc_generation c)
      then merged_outcome c MissingGeneration ''worktree has no valid generation''
      else if trim_space (mc_live c) = []
      then merged_outcome c RepositoryChanged ''worktree origin repository identity is unavailable''
      else case github_repository (mc_project c) of
        None \<Rightarrow> merged_outcome c DoctorRequired ''project repository identity is unavailable''
      | Some requested_base \<Rightarrow>
      (case (if trim_space (mc_source_branch c) = [] then None else github_repository (mc_source c)) of
        None \<Rightarrow> merged_outcome c SourceRepositoryUnavailable
                  ''configured upstream does not identify a source repository and branch''
      | Some requested_source \<Rightarrow>
      (case resolve_repositories p c requested_base requested_source of
        Inl oc \<Rightarrow> oc
      | Inr (base, source) \<Rightarrow>
          let c' = c\<lparr>mc_project := rp_identity base, mc_source := rp_identity source\<rparr> in
          (case mc_provenance c of
             Some r \<Rightarrow> evaluate_imported_merged pk p c' r base (mc_project c) (mc_source c)
           | None \<Rightarrow> evaluate_ordinary_merged p c' base source))))"

definition evaluate_merged ::
    "(string \<Rightarrow> string) \<Rightarrow> merged_provider \<Rightarrow> merged_candidate list \<Rightarrow> outcome list" where
  "evaluate_merged pk p cs = map (evaluate_merged_candidate pk p) cs"

end
