(* ===== verification/Prune_Spec.thy ===== *)
theory Prune_Spec
  imports Prune_Policy
begin

text \<open>
  What the prune policy promises: exactly which evidence makes a worktree eligible, how every other
  case is classified, and what the report's counts and exit code say.
\<close>

subsection \<open>The loops over pull requests\<close>

text \<open>The pull requests of the candidate's repository, and those that also come from its source.\<close>

definition of_project :: "merged_candidate \<Rightarrow> pull_request \<Rightarrow> bool" where
  "of_project c pr \<longleftrightarrow> equal_repository_identity (rp_identity (pq_repository pr)) (mc_project c)"

definition of_source :: "merged_candidate \<Rightarrow> pull_request \<Rightarrow> bool" where
  "of_source c pr \<longleftrightarrow>
     equal_repository_identity (rp_identity (br_repository (pq_source pr))) (mc_source c)"

definition of_branch :: "merged_candidate \<Rightarrow> pull_request \<Rightarrow> bool" where
  "of_branch c pr \<longleftrightarrow> br_name (pq_source pr) = mc_source_branch c"

definition at_head :: "merged_candidate \<Rightarrow> pull_request \<Rightarrow> bool" where
  "at_head c pr \<longleftrightarrow> pq_head_sha pr = mc_head c"

text \<open>The mismatch a list of concerned pull requests shows: the repository's outranks the branch's.\<close>

definition shown_mismatch :: "merged_candidate \<Rightarrow> pull_request list \<Rightarrow> reason option" where
  "shown_mismatch c prs =
     (if \<exists>pr \<in> set prs. \<not> of_source c pr then Some SourceRepositoryMismatch
      else if \<exists>pr \<in> set prs. \<not> of_branch c pr then Some SourceBranchMismatch
      else None)"

definition merged_mismatch :: "reason option \<Rightarrow> reason option \<Rightarrow> reason option" where
  "merged_mismatch m n = (if n = Some SourceRepositoryMismatch \<or> m = None then n else m)"

lemma merged_mismatch_None [simp]: "merged_mismatch None n = n"
  by (simp add: merged_mismatch_def)

lemma merged_mismatch_cons:
  "merged_mismatch m (shown_mismatch c (pr # prs)) =
     (if \<not> of_source c pr then merged_mismatch (Some SourceRepositoryMismatch) (shown_mismatch c prs)
      else if \<not> of_branch c pr
      then merged_mismatch (if m = None then Some SourceBranchMismatch else m) (shown_mismatch c prs)
      else merged_mismatch m (shown_mismatch c prs))"
  by (simp add: shown_mismatch_def merged_mismatch_def)

lemma head_matches_spec:
  "head_matches c prs found m =
     (found @ filter (\<lambda>pr. of_project c pr \<and> of_source c pr \<and> of_branch c pr) prs,
      merged_mismatch m (shown_mismatch c (filter (of_project c) prs)))"
proof (induction prs arbitrary: found m)
  case Nil
  show ?case by (simp add: shown_mismatch_def merged_mismatch_def)
next
  case (Cons pr prs)
  have step: "head_matches c (pr # prs) found m =
     (if \<not> of_project c pr then head_matches c prs found m
      else if \<not> of_source c pr then head_matches c prs found (Some SourceRepositoryMismatch)
      else if \<not> of_branch c pr
      then head_matches c prs found (if m = None then Some SourceBranchMismatch else m)
      else head_matches c prs (found @ [pr]) m)"
    by (simp add: of_project_def of_source_def of_branch_def)
  show ?case
    unfolding step Cons.IH by (simp add: merged_mismatch_cons)
qed

lemma exact_matches_spec:
  "exact_matches c prs exact m =
     (exact @ filter (\<lambda>pr. of_project c pr \<and> at_head c pr \<and> of_source c pr \<and> of_branch c pr) prs,
      merged_mismatch m (shown_mismatch c (filter (\<lambda>pr. of_project c pr \<and> at_head c pr) prs)))"
proof (induction prs arbitrary: exact m)
  case Nil
  show ?case by (simp add: shown_mismatch_def merged_mismatch_def)
next
  case (Cons pr prs)
  have step: "exact_matches c (pr # prs) exact m =
     (if \<not> (of_project c pr \<and> at_head c pr) then exact_matches c prs exact m
      else if \<not> of_source c pr then exact_matches c prs exact (Some SourceRepositoryMismatch)
      else if \<not> of_branch c pr
      then exact_matches c prs exact (if m = None then Some SourceBranchMismatch else m)
      else exact_matches c prs (exact @ [pr]) m)"
    by (simp add: of_project_def of_source_def of_branch_def at_head_def)
  show ?case
    unfolding step Cons.IH by (simp add: merged_mismatch_cons)
qed

lemmas match_specs = exact_matches_spec head_matches_spec exact_ordinary_matches_def

subsection \<open>Reasons\<close>

lemma reason_simps [simp]:
  "oc_reason (merged_outcome c r msg) = r"
  "oc_reason (add_evidence oc pr) = oc_reason oc"
  "oc_reason (ambiguous_outcome c prs) = AmbiguousPRMatch"
  "oc_reason (pull_request_outcome c pr) = (if pq_merged_at pr = None then PRNotMerged else EligibleMerged)"
  by (simp_all add: merged_outcome_def add_evidence_def ambiguous_outcome_def pull_request_outcome_def Let_def)

definition failure_reason :: "pr_error option \<Rightarrow> reason" where
  "failure_reason err =
     (case err of
        None \<Rightarrow> NetworkFailure
      | Some e \<Rightarrow>
          if pe_code e = ''authentication_failed'' then AuthenticationFailed
          else if pe_code e = ''network_failure'' then NetworkFailure
          else ProviderFailure)"

lemma provider_failure_reason [simp]: "oc_reason (provider_failure c err) = failure_reason err"
  by (auto simp: provider_failure_def failure_reason_def Let_def split: option.split)

lemma failure_reason_cases:
  "failure_reason err \<in> {AuthenticationFailed, NetworkFailure, ProviderFailure}"
  by (auto simp: failure_reason_def split: option.split)

lemma failure_reason_neq [simp]: "failure_reason err \<noteq> EligibleMerged"
  using failure_reason_cases [of err] by auto

lemma shown_mismatch_cases:
  "shown_mismatch c prs \<in> {None, Some SourceRepositoryMismatch, Some SourceBranchMismatch}"
  by (simp add: shown_mismatch_def)

lemma shown_mismatch_neq [simp]: "shown_mismatch c prs \<noteq> Some EligibleMerged"
  using shown_mismatch_cases [of c prs] by auto

text \<open>How the pull requests of a candidate's source branch are told apart.\<close>

definition head_reason :: "merged_candidate \<Rightarrow> pull_request list \<Rightarrow> reason" where
  "head_reason c prs =
     (let found = filter (\<lambda>pr. of_project c pr \<and> of_source c pr \<and> of_branch c pr) prs in
      if length found > 1 then AmbiguousPRMatch
      else if found \<noteq> []
      then (if pq_merged_at (hd found) = None then PRNotMerged else HeadAdvancedAfterPR)
      else case shown_mismatch c (filter (of_project c) prs) of
        Some r \<Rightarrow> r | None \<Rightarrow> NoAssociatedPR)"

lemma diagnose_reason: "oc_reason (diagnose_source_head c prs) = head_reason c prs"
proof -
  let ?P = "\<lambda>pr. of_project c pr \<and> of_source c pr \<and> of_branch c pr"
  show ?thesis
    by (cases "filter ?P prs"; cases "tl (filter ?P prs)")
      (auto simp: diagnose_source_head_def head_matches_spec head_reason_def Let_def split: option.split)
qed

lemma head_reason_neq [simp]: "head_reason c prs \<noteq> EligibleMerged"
  by (auto simp: head_reason_def Let_def split: option.split)

subsection \<open>Ordinary candidates\<close>

text \<open>The reason of a candidate without provenance, by counting: of the pull requests the provider
  lists for its commit, those of the project, at its head, from its source repository and branch.\<close>

definition ordinary_reason :: "merged_provider \<Rightarrow> merged_candidate \<Rightarrow> repository \<Rightarrow> repository \<Rightarrow> reason" where
  "ordinary_reason p c base source =
     (case mp_list_for_commit p base (mc_head c) of
        Inl err \<Rightarrow> failure_reason err
      | Inr prs \<Rightarrow>
          let exact = filter (\<lambda>pr. of_project c pr \<and> at_head c pr \<and> of_source c pr \<and> of_branch c pr) prs in
          if length exact > 1 then AmbiguousPRMatch
          else if length exact = 1
          then (if pq_merged_at (hd exact) = None then PRNotMerged else EligibleMerged)
          else case shown_mismatch c (filter (\<lambda>pr. of_project c pr \<and> at_head c pr) prs) of
            Some r \<Rightarrow> r
          | None \<Rightarrow>
              (case mp_list_by_head p base (rp_owner source) (mc_source_branch c) of
                 Inl err \<Rightarrow> failure_reason err
               | Inr prs' \<Rightarrow> head_reason c prs'))"

lemma ordinary_classified_aux: "oc_reason (evaluate_ordinary_merged p c base source) = ordinary_reason p c base source"
proof (cases "mp_list_for_commit p base (mc_head c)")
  case (Inr prs)
  define ex where "ex = filter (\<lambda>pr. of_project c pr \<and> at_head c pr \<and> of_source c pr \<and> of_branch c pr) prs"
  define mm where "mm = shown_mismatch c (filter (\<lambda>pr. of_project c pr \<and> at_head c pr) prs)"
  have l: "exact_ordinary_matches c prs = (ex, mm)"
    by (simp add: match_specs ex_def mm_def)
  have last: "oc_reason (case mp_list_by_head p base (rp_owner source) (mc_source_branch c) of
        Inl err \<Rightarrow> provider_failure c err | Inr prs' \<Rightarrow> diagnose_source_head c prs') =
      (case mp_list_by_head p base (rp_owner source) (mc_source_branch c) of
        Inl err \<Rightarrow> failure_reason err | Inr prs' \<Rightarrow> head_reason c prs')"
    by (simp add: diagnose_reason split: sum.split)
  have r: "ordinary_reason p c base source =
     (if length ex > 1 then AmbiguousPRMatch
      else if length ex = 1 then (if pq_merged_at (hd ex) = None then PRNotMerged else EligibleMerged)
      else case mm of Some r \<Rightarrow> r | None \<Rightarrow>
        (case mp_list_by_head p base (rp_owner source) (mc_source_branch c) of
           Inl err \<Rightarrow> failure_reason err | Inr prs' \<Rightarrow> head_reason c prs'))"
    unfolding ordinary_reason_def Inr sum.case Let_def ex_def mm_def ..
  consider "ex = []" | pr where "ex = [pr]" | "length ex > 1" "ex \<noteq> []"
    by (cases ex; cases "tl ex") auto
  then show ?thesis
    unfolding r evaluate_ordinary_merged_def Inr sum.case l prod.case
    by cases (simp_all add: last split: option.split)
qed (simp add: evaluate_ordinary_merged_def ordinary_reason_def)

lemma ordinary_eligible:
  "ordinary_reason p c base source = EligibleMerged \<longleftrightarrow>
     (\<exists>prs pr. mp_list_for_commit p base (mc_head c) = Inr prs \<and>
        filter (\<lambda>pr. of_project c pr \<and> at_head c pr \<and> of_source c pr \<and> of_branch c pr) prs = [pr] \<and>
        pq_merged_at pr \<noteq> None)"
proof (cases "mp_list_for_commit p base (mc_head c)")
  case (Inr prs)
  define ex where "ex = filter (\<lambda>pr. of_project c pr \<and> at_head c pr \<and> of_source c pr \<and> of_branch c pr) prs"
  define mm where "mm = shown_mismatch c (filter (\<lambda>pr. of_project c pr \<and> at_head c pr) prs)"
  have mm: "mm \<noteq> Some EligibleMerged" by (simp add: mm_def)
  have last: "(case mp_list_by_head p base (rp_owner source) (mc_source_branch c) of
        Inl err \<Rightarrow> failure_reason err | Inr prs' \<Rightarrow> head_reason c prs') \<noteq> EligibleMerged"
    by (simp split: sum.split)
  have r: "ordinary_reason p c base source =
     (if length ex > 1 then AmbiguousPRMatch
      else if length ex = 1 then (if pq_merged_at (hd ex) = None then PRNotMerged else EligibleMerged)
      else case mm of Some r \<Rightarrow> r | None \<Rightarrow>
        (case mp_list_by_head p base (rp_owner source) (mc_source_branch c) of
           Inl err \<Rightarrow> failure_reason err | Inr prs' \<Rightarrow> head_reason c prs'))"
    unfolding ordinary_reason_def Inr sum.case Let_def ex_def mm_def ..
  have "ordinary_reason p c base source = EligibleMerged \<longleftrightarrow> (\<exists>pr. ex = [pr] \<and> pq_merged_at pr \<noteq> None)"
  proof -
    consider "ex = []" | pr where "ex = [pr]" | "length ex > 1" by (cases ex; cases "tl ex") auto
    then show ?thesis
      unfolding r using mm last by cases (auto split: option.split)
  qed
  then show ?thesis unfolding Inr ex_def by simp
qed (simp add: ordinary_reason_def)

subsection \<open>Imported candidates\<close>

lemma imported_eligible:
  "oc_reason (evaluate_imported_merged pk p c r base project source) = EligibleMerged \<longleftrightarrow>
     provenance_fits pk c r project \<and> provenance_source_matches r source \<and>
     pv_source_branch r = mc_source_branch c \<and> pv_head_sha r = mc_head c \<and>
     (\<exists>pr. mp_get p base (pv_number r) = Inr pr \<and> pq_number pr = pv_number r \<and>
        of_project c pr \<and> at_head c pr \<and> of_source c pr \<and> of_branch c pr \<and>
        equal_fold (pq_provider pr) (pv_provider r) \<and> pq_merged_at pr \<noteq> None)"
  by (auto simp: evaluate_imported_merged_def Let_def of_project_def at_head_def of_source_def of_branch_def
      equal_repository_identity_def split: sum.split)

subsection \<open>Eligibility\<close>

text \<open>The project and the source repository of a candidate as the provider resolves them, and the
  candidate compared with them.\<close>

definition resolved_pair :: "merged_provider \<Rightarrow> merged_candidate \<Rightarrow> repository \<Rightarrow> repository \<Rightarrow> bool" where
  "resolved_pair p c base source \<longleftrightarrow>
     (\<exists>rb rs b s. github_repository (mc_project c) = Some rb \<and> github_repository (mc_source c) = Some rs \<and>
        trim_space (mc_source_branch c) \<noteq> [] \<and>
        mp_resolve p rb = Inr b \<and> github_repository (rp_identity b) = Some base \<and>
        mp_resolve p rs = Inr s \<and> github_repository (rp_identity s) = Some source)"

definition resolved :: "merged_candidate \<Rightarrow> repository \<Rightarrow> repository \<Rightarrow> merged_candidate" where
  "resolved c base source = c\<lparr>mc_project := rp_identity base, mc_source := rp_identity source\<rparr>"

definition prunable :: "merged_candidate \<Rightarrow> bool" where
  "prunable c \<longleftrightarrow> \<not> mc_is_main c \<and> validate_worktree_generation (mc_generation c) \<and> trim_space (mc_live c) \<noteq> []"

lemma resolved_head [simp]: "mc_head (resolved c base source) = mc_head c"
  "mc_source_branch (resolved c base source) = mc_source_branch c"
  by (simp_all add: resolved_def)

lemma resolve_repositories_Inr:
  "resolve_repositories p c rb rs = Inr (base, source) \<longleftrightarrow>
     (\<exists>b s. mp_resolve p rb = Inr b \<and> github_repository (rp_identity b) = Some base \<and>
        mp_resolve p rs = Inr s \<and> github_repository (rp_identity s) = Some source)"
  by (auto simp: resolve_repositories_def split: sum.splits option.splits)

lemma resolve_repositories_Inl:
  "resolve_repositories p c rb rs = Inl oc \<Longrightarrow>
     (\<exists>err. oc = provider_failure c err) \<or> (\<exists>msg. oc = merged_outcome c RepositoryChanged msg) \<or>
     (\<exists>msg. oc = merged_outcome c SourceRepositoryUnavailable msg)"
  by (auto simp: resolve_repositories_def split: sum.splits option.splits)

text \<open>The evaluation of a candidate: an early outcome, or the comparison with the resolved pair.\<close>

lemma evaluate_cases:
  obtains
    (early) oc where "evaluate_merged_candidate pk p c = oc"
      "(\<exists>err. oc = provider_failure c err) \<or>
       (\<exists>r msg. oc = merged_outcome c r msg \<and> r \<in> {MainWorktree, MissingGeneration, RepositoryChanged,
          DoctorRequired, SourceRepositoryUnavailable})"
      "\<not> (prunable c \<and> (\<exists>base source. resolved_pair p c base source))"
  | (compared) base source where "prunable c" "resolved_pair p c base source"
      "\<And>b s. resolved_pair p c b s \<Longrightarrow> b = base \<and> s = source"
      "evaluate_merged_candidate pk p c =
        (case mc_provenance c of
           Some r \<Rightarrow> evaluate_imported_merged pk p (resolved c base source) r base (mc_project c) (mc_source c)
         | None \<Rightarrow> evaluate_ordinary_merged p (resolved c base source) base source)"
proof (cases "prunable c \<and> (\<exists>base source. resolved_pair p c base source)")
  case True
  then obtain base source rb rs where pair: "resolved_pair p c base source" and pr: "prunable c"
    and gb: "github_repository (mc_project c) = Some rb" and gs: "github_repository (mc_source c) = Some rs"
    and br: "trim_space (mc_source_branch c) \<noteq> []"
    and rr: "resolve_repositories p c rb rs = Inr (base, source)"
    unfolding resolved_pair_def resolve_repositories_Inr by blast
  have "evaluate_merged_candidate pk p c =
        (case mc_provenance c of
           Some r \<Rightarrow> evaluate_imported_merged pk p (resolved c base source) r base (mc_project c) (mc_source c)
         | None \<Rightarrow> evaluate_ordinary_merged p (resolved c base source) base source)"
    using pr unfolding resolved_def
    by (simp add: evaluate_merged_candidate_def prunable_def gb gs br rr Let_def cong: option.case_cong)
  moreover have "b = base \<and> s = source" if "resolved_pair p c b s" for b s
    using that pair unfolding resolved_pair_def by auto
  ultimately show ?thesis using compared pair pr by blast
next
  case False
  let ?E = "evaluate_merged_candidate pk p c"
  let ?r = "{MainWorktree, MissingGeneration, RepositoryChanged, DoctorRequired, SourceRepositoryUnavailable}"
  have "(\<exists>err. ?E = provider_failure c err) \<or> (\<exists>r msg. ?E = merged_outcome c r msg \<and> r \<in> ?r)"
  proof (cases "prunable c")
    case unp: False
    then show ?thesis unfolding evaluate_merged_candidate_def prunable_def
      by (cases "mc_is_main c"; cases "validate_worktree_generation (mc_generation c)") auto
  next
    case pr: True
    show ?thesis
    proof (cases "github_repository (mc_project c)")
      case None
      with pr show ?thesis by (force simp: evaluate_merged_candidate_def prunable_def)
    next
      case gb: (Some rb)
      show ?thesis
      proof (cases "trim_space (mc_source_branch c) = [] \<or> github_repository (mc_source c) = None")
        case True
        with pr gb show ?thesis by (force simp: evaluate_merged_candidate_def prunable_def)
      next
        case br: False
        then obtain rs where gs: "github_repository (mc_source c) = Some rs" by blast
        have E: "?E = (case resolve_repositories p c rb rs of
            Inl oc \<Rightarrow> oc
          | Inr (base, source) \<Rightarrow>
              let c' = c\<lparr>mc_project := rp_identity base, mc_source := rp_identity source\<rparr> in
              (case mc_provenance c of
                 Some r \<Rightarrow> evaluate_imported_merged pk p c' r base (mc_project c) (mc_source c)
               | None \<Rightarrow> evaluate_ordinary_merged p c' base source))"
          using pr br gb gs by (simp add: evaluate_merged_candidate_def prunable_def)
        show ?thesis
        proof (cases "resolve_repositories p c rb rs")
          case (Inl oc)
          with E resolve_repositories_Inl [OF Inl] show ?thesis by auto
        next
          case (Inr q)
          then obtain base source where "resolve_repositories p c rb rs = Inr (base, source)"
            by (cases q) auto
          with False pr gb gs br show ?thesis by (auto simp: resolved_pair_def resolve_repositories_Inr)
        qed
      qed
    qed
  qed
  then show ?thesis using early False by blast
qed

text \<open>
  C25. A worktree is reported as eligible for pruning exactly when: it is not a main worktree, has a
  valid generation and a live origin; the project and the configured upstream are GitHub repositories
  the provider resolves; and one explicitly merged pull request of the resolved project, with the
  worktree's head, from the resolved source repository and the configured source branch, is the
  evidence. For an imported worktree it is the pull request of its provenance record, which fits the
  worktree in every field; for any other it is the only such pull request the provider lists for the
  head commit. No provider error, ambiguity or mismatch ends as eligible.
\<close>

theorem eligible_exactly:
  "oc_reason (evaluate_merged_candidate pk p c) = EligibleMerged \<longleftrightarrow>
     prunable c \<and>
     (\<exists>base source pr. resolved_pair p c base source \<and> pq_merged_at pr \<noteq> None \<and>
        (let c' = resolved c base source in
         of_project c' pr \<and> at_head c' pr \<and> of_source c' pr \<and> of_branch c' pr \<and>
         (case mc_provenance c of
            None \<Rightarrow>
              (\<exists>prs. mp_list_for_commit p base (mc_head c) = Inr prs \<and>
                 filter (\<lambda>pr. of_project c' pr \<and> at_head c' pr \<and> of_source c' pr \<and> of_branch c' pr) prs = [pr])
          | Some r \<Rightarrow>
              provenance_fits pk c' r (mc_project c) \<and> provenance_source_matches r (mc_source c) \<and>
              pv_source_branch r = mc_source_branch c \<and> pv_head_sha r = mc_head c \<and>
              mp_get p base (pv_number r) = Inr pr \<and> pq_number pr = pv_number r \<and>
              equal_fold (pq_provider pr) (pv_provider r))))"
  (is "_ \<longleftrightarrow> ?R")
proof (cases rule: evaluate_cases [of pk p c])
  case (early oc)
  then show ?thesis by auto
next
  case (compared base source)
  let ?c = "resolved c base source"
  have uniq: "resolved_pair p c b s \<longleftrightarrow> b = base \<and> s = source" for b s using compared(2,3) by blast
  show ?thesis
  proof (cases "mc_provenance c")
    case None
    let ?P = "\<lambda>pr. of_project ?c pr \<and> at_head ?c pr \<and> of_source ?c pr \<and> of_branch ?c pr"
    have mem: "?P pr" if "filter ?P prs = [pr]" for prs pr
    proof -
      have "pr \<in> set (filter ?P prs)" unfolding that by simp
      then show ?thesis by simp
    qed
    have "?R \<longleftrightarrow> (\<exists>prs pr. mp_list_for_commit p base (mc_head ?c) = Inr prs \<and> filter ?P prs = [pr] \<and>
        pq_merged_at pr \<noteq> None)"
      unfolding uniq None option.case Let_def resolved_head using compared(1) mem by blast
    then show ?thesis
      unfolding compared(4) None option.case ordinary_classified_aux ordinary_eligible by blast
  next
    case (Some r)
    then show ?thesis
      unfolding compared(4) Some option.case imported_eligible uniq Let_def resolved_head
      using compared(1) by blast
  qed
qed

text \<open>A provider that resolves every repository to itself and lists fixed pull requests.\<close>

definition demo_repository :: "string \<Rightarrow> string \<Rightarrow> repository" where
  "demo_repository owner name = \<lparr>rp_provider = ''github'', rp_identity = ''github.com/'' @ owner @ ''/'' @ name,
     rp_host = ''github.com'', rp_owner = owner, rp_name = name, rp_clone_url = [], rp_ssh_url = []\<rparr>"

lemma github_slug:
  assumes "trim_space i = i" and "to_lower i = ''github.com/'' @ owner @ ''/'' @ name"
    and "owner \<noteq> []" and "name \<noteq> []" and "CHR ''/'' \<notin> set owner" and "CHR ''/'' \<notin> set name"
  shows "github_repository i = Some (demo_repository owner name)"
proof -
  have n: "normalize_repository_identity i = ''github.com/'' @ owner @ ''/'' @ name"
    using assms(1,2) by (simp add: normalize_repository_identity_def has_prefix_def)
  have p: "has_prefix (''github.com/'' @ owner @ ''/'' @ name) ''github.com/''" by (simp add: has_prefix_def)
  have c: "cut (trim_prefix (''github.com/'' @ owner @ ''/'' @ name) ''github.com/'') (CHR ''/'') = (owner, name, True)"
    using cut_append [OF assms(5), of name] p by (simp add: trim_prefix_def)
  show ?thesis
    unfolding github_repository_def Let_def n c prod.case using p assms(3,4,6)
    by (simp add: demo_repository_def contains_char_def)
qed

lemma github_slug_ascii:
  assumes "\<forall>c \<in> set i. is_graphic c" and "ascii_lower i = ''github.com/'' @ owner @ ''/'' @ name"
    and "owner \<noteq> []" and "name \<noteq> []" and "CHR ''/'' \<notin> set owner" and "CHR ''/'' \<notin> set name"
  shows "github_repository i = Some (demo_repository owner name)"
proof (rule github_slug)
  have "i \<noteq> []" using assms(2) by (auto simp: ascii_lower_def)
  with assms(1) show "trim_space i = i" by (intro trim_space_graphic) auto
  have "\<forall>c \<in> set i. code c < 128" using assms(1) by (auto simp: is_graphic_def)
  with assms(2) show "to_lower i = ''github.com/'' @ owner @ ''/'' @ name" by (simp add: to_lower_ascii)
qed (use assms in auto)

lemma demo_slugs:
  "github_repository ''github.com/O/p'' = Some (demo_repository ''o'' ''p'')"
  "github_repository ''github.com/o/p'' = Some (demo_repository ''o'' ''p'')"
  "github_repository ''github.com/f/p'' = Some (demo_repository ''f'' ''p'')"
  by (rule github_slug_ascii, simp add: is_graphic_def code_def, code_simp, simp_all)+

definition demo_pr :: "int \<Rightarrow> gtime option \<Rightarrow> pull_request" where
  "demo_pr n merged = \<lparr>pq_provider = ''github'', pq_repository = demo_repository ''o'' ''p'',
     pq_number = n, pq_url = [],
     pq_source = \<lparr>br_name = ''topic'', br_repository = demo_repository ''f'' ''p'', br_is_fork = True\<rparr>,
     pq_head_sha = ''abc'', pq_merged_at = merged\<rparr>"

definition demo_provider :: "pull_request list \<Rightarrow> merged_provider" where
  "demo_provider prs = \<lparr>mp_resolve = Inr, mp_get = (\<lambda>_ _. Inl None), mp_list_for_commit = (\<lambda>_ _. Inr prs),
     mp_list_by_head = (\<lambda>_ _ _. Inr [])\<rparr>"

definition demo_candidate :: merged_candidate where
  "demo_candidate = \<lparr>mc_path = ''/w'', mc_branch = ''topic'', mc_head = ''abc'',
     mc_generation = ''00112233445566778899aabbccddeeff'', mc_main_path = ''/m'',
     mc_project = ''github.com/O/p'', mc_live = ''github.com/o/p'', mc_source = ''github.com/f/p'',
     mc_source_branch = ''topic'', mc_dirty = False, mc_is_main = False, mc_provenance = None\<rparr>"

text \<open>
  A worktree without a provenance record that reaches the comparison is classified by counting:
  of the pull requests listed for its head commit that belong to the project, have its head and come
  from its source repository and branch, one decides (eligible when merged), several are ambiguous;
  with none, a listed pull request of the project with that head from another source repository, or
  else from another branch, is reported as that mismatch; only then do the pull requests of the source
  branch decide, and they never make it eligible. Provider errors are reported by their kind.
\<close>

theorem ordinary_classified:
  assumes "prunable c" and "resolved_pair p c base source" and "mc_provenance c = None"
  shows "oc_reason (evaluate_merged_candidate pk p c) = ordinary_reason p (resolved c base source) base source"
proof (cases rule: evaluate_cases [of pk p c])
  case (early oc)
  with assms(1,2) show ?thesis by blast
next
  case (compared b s)
  with assms(2) have "base = b \<and> source = s" by blast
  with compared(4) assms(3) show ?thesis by (simp add: ordinary_classified_aux)
qed

theorem ordinary_classified_witness:
  "oc_reason (evaluate_merged_candidate id (demo_provider [demo_pr 7 (Some 5)]) demo_candidate) = EligibleMerged
   \<and> oc_reason (evaluate_merged_candidate id (demo_provider [demo_pr 7 (Some 5), demo_pr 8 None]) demo_candidate)
       = AmbiguousPRMatch"
proof -
  let ?b = "demo_repository ''o'' ''p''" and ?s = "demo_repository ''f'' ''p''"
  have gb: "github_repository (mc_project demo_candidate) = Some ?b"
    and gs: "github_repository (mc_source demo_candidate) = Some ?s"
    and again: "github_repository (rp_identity ?b) = Some ?b" "github_repository (rp_identity ?s) = Some ?s"
    using demo_slugs by (simp_all add: demo_candidate_def demo_repository_def)
  have br: "trim_space (mc_source_branch demo_candidate) \<noteq> []" "trim_space (mc_live demo_candidate) \<noteq> []"
    by (simp_all add: demo_candidate_def trim_space_graphic is_graphic_def code_def)
  then have pr: "prunable demo_candidate"
    by (simp add: prunable_def demo_candidate_def validate_worktree_generation_def hex_decode_len_def is_hex_def
        is_digit_def code_def)
  have pair: "resolved_pair (demo_provider prs) demo_candidate ?b ?s" for prs
    unfolding resolved_pair_def using gb gs again br by (simp add: demo_provider_def)
  have none: "mc_provenance demo_candidate = None" by (simp add: demo_candidate_def)
  have same: "of_project (resolved demo_candidate ?b ?s) (demo_pr n m)" "at_head (resolved demo_candidate ?b ?s) (demo_pr n m)"
    "of_source (resolved demo_candidate ?b ?s) (demo_pr n m)" "of_branch (resolved demo_candidate ?b ?s) (demo_pr n m)"
    for n m
    by (simp_all add: of_project_def at_head_def of_source_def of_branch_def equal_repository_identity_def
        resolved_def demo_candidate_def demo_pr_def)
  have merged: "pq_merged_at (demo_pr n (Some t)) = Some t" for n t by (simp add: demo_pr_def)
  have "mp_list_for_commit (demo_provider prs) r h = Inr prs" for prs r h by (simp add: demo_provider_def)
  then have one: "ordinary_reason (demo_provider [demo_pr 7 (Some 5)]) (resolved demo_candidate ?b ?s) ?b ?s = EligibleMerged"
    and two: "ordinary_reason (demo_provider [demo_pr 7 (Some 5), demo_pr 8 None])
      (resolved demo_candidate ?b ?s) ?b ?s = AmbiguousPRMatch"
    by (simp_all add: ordinary_reason_def same merged)
  from ordinary_classified [OF pr pair none] one two show ?thesis by simp
qed

text \<open>The reasons the evaluation can give, and the outcomes' shape.\<close>

lemma outcome_of_candidate:
  "oc_path (merged_outcome c r msg) = mc_path c" "oc_branch (merged_outcome c r msg) = mc_branch c"
  "oc_evidence (merged_outcome c r msg) ''head_sha'' = Some (mc_head c)"
  "oc_remediation (merged_outcome c r msg) = []"
  by (simp_all add: merged_outcome_def)

definition reports_on :: "merged_candidate \<Rightarrow> outcome \<Rightarrow> bool" where
  "reports_on c oc \<longleftrightarrow> oc_path oc = mc_path c \<and> oc_branch oc = mc_branch c \<and>
     oc_evidence oc ''head_sha'' = Some (mc_head c) \<and>
     (oc_remediation oc \<noteq> [] \<longleftrightarrow> oc_reason oc \<in> {AuthenticationFailed, NetworkFailure, ProviderFailure}) \<and>
     oc_reason oc \<in> {MainWorktree, MissingGeneration, RepositoryChanged, DoctorRequired,
       SourceRepositoryUnavailable, SourceRepositoryMismatch, SourceBranchMismatch, HeadAdvancedAfterPR,
       NoAssociatedPR, PRNotMerged, AmbiguousPRMatch, EligibleMerged, AuthenticationFailed, NetworkFailure,
       ProviderFailure}"

lemma reports_on_failure: "reports_on c (provider_failure c err)"
proof -
  have "oc_path (provider_failure c err) = mc_path c" "oc_branch (provider_failure c err) = mc_branch c"
    "oc_evidence (provider_failure c err) ''head_sha'' = Some (mc_head c)"
    "oc_remediation (provider_failure c err) \<noteq> []"
    by (simp_all add: provider_failure_def Let_def outcome_of_candidate split: reason.split)
  then show ?thesis
    using failure_reason_cases [of err] unfolding reports_on_def provider_failure_reason by blast
qed

lemma reports_on_merged:
  "r \<in> {MainWorktree, MissingGeneration, RepositoryChanged, DoctorRequired, SourceRepositoryUnavailable,
     SourceRepositoryMismatch, SourceBranchMismatch, HeadAdvancedAfterPR, NoAssociatedPR} \<Longrightarrow>
   reports_on c (merged_outcome c r msg)"
  by (auto simp: reports_on_def merged_outcome_def)

lemma reports_on_evidence:
  "reports_on c (pull_request_outcome c pr)" "reports_on c (ambiguous_outcome c prs)"
  "reports_on c (add_evidence (merged_outcome c HeadAdvancedAfterPR msg) pr)"
  by (simp_all add: reports_on_def pull_request_outcome_def ambiguous_outcome_def add_evidence_def
      merged_outcome_def Let_def)

lemma reports_on_mismatch:
  "shown_mismatch c' prs = Some r \<Longrightarrow> reports_on c (merged_outcome c r msg)"
  using shown_mismatch_cases [of c' prs] by (auto intro!: reports_on_merged)

lemma reports_on_head: "reports_on c (diagnose_source_head c prs)"
  by (auto simp: diagnose_source_head_def head_matches_spec reports_on_evidence
      intro: reports_on_mismatch reports_on_merged split: list.split option.split)

lemma reports_on_ordinary: "reports_on c (evaluate_ordinary_merged p c base source)"
  by (auto simp: evaluate_ordinary_merged_def match_specs reports_on_evidence reports_on_failure reports_on_head
      intro: reports_on_mismatch split: sum.split option.split)

lemma reports_on_imported: "reports_on c (evaluate_imported_merged pk p c r base project source)"
  by (auto simp: evaluate_imported_merged_def Let_def reports_on_evidence reports_on_failure
      intro!: reports_on_merged split: sum.split)

lemma reports_on_resolved: "reports_on (resolved c base source) oc = reports_on c oc"
  by (simp add: reports_on_def resolved_def)

text \<open>
  C26. Evaluating candidates gives one outcome for each, in their order, and changes nothing: the
  outcome names the candidate's path, branch and head, carries a remediation exactly when the provider
  failed, and has one of the fifteen reasons of the evaluation, never one that reports a removal.
\<close>

theorem evaluate_reports_each:
  "list_all2 reports_on cs (evaluate_merged pk p cs)"
proof -
  have "reports_on c (evaluate_merged_candidate pk p c)" for c
  proof (cases rule: evaluate_cases [of pk p c])
    case (early oc)
    from early(2) show ?thesis
    proof
      assume "\<exists>err. oc = provider_failure c err"
      then show ?thesis unfolding early(1) using reports_on_failure by auto
    next
      assume "\<exists>r msg. oc = merged_outcome c r msg \<and> r \<in> {MainWorktree, MissingGeneration, RepositoryChanged,
          DoctorRequired, SourceRepositoryUnavailable}"
      then obtain r msg where oc: "oc = merged_outcome c r msg"
        and "r \<in> {MainWorktree, MissingGeneration, RepositoryChanged, DoctorRequired, SourceRepositoryUnavailable}"
        by blast
      then show ?thesis unfolding early(1) oc by (intro reports_on_merged) auto
    qed
  next
    case (compared base source)
    have "reports_on (resolved c base source) (evaluate_merged_candidate pk p c)"
      unfolding compared(4) by (simp add: reports_on_imported reports_on_ordinary split: option.split)
    then show ?thesis by (simp add: reports_on_resolved)
  qed
  then show ?thesis by (simp add: evaluate_merged_def list_all2_map2 list_all2_same)
qed

subsection \<open>Reports\<close>

definition has_reason :: "reason set \<Rightarrow> outcome \<Rightarrow> bool" where
  "has_reason rs oc \<longleftrightarrow> oc_reason oc \<in> rs"

lemma fold_counts:
  "fold count_outcome ocs s =
     s\<lparr>sm_removed := sm_removed s + length (filter (has_reason {Removed}) ocs),
       sm_would_remove := sm_would_remove s + length (filter (has_reason {WouldRemove, WouldRequireConfirmation}) ocs),
       sm_skipped := sm_skipped s +
         length (filter (has_reason (- {Removed, WouldRemove, WouldRequireConfirmation})) ocs)\<rparr>"
  by (induction ocs arbitrary: s) (auto simp: count_outcome_def has_reason_def)

text \<open>
  A finalized report counts every outcome once: removed, would remove (also when that needs a
  confirmation) and skipped add up to the candidates, whatever summary it had before; and the exit
  code is 0 or 1, and 0 exactly when every outcome is a removal, a would-be removal, a declined
  confirmation or a candidate without a merged pull request.
\<close>

theorem report_summary:
  "(let s = rt_summary (finalize r); ocs = rt_outcomes r in
      rt_outcomes (finalize r) = ocs \<and> sm_candidates s = length ocs \<and>
      sm_removed s = length (filter (has_reason {Removed}) ocs) \<and>
      sm_would_remove s = length (filter (has_reason {WouldRemove, WouldRequireConfirmation}) ocs) \<and>
      sm_removed s + sm_would_remove s + sm_skipped s = sm_candidates s)
   \<and> exit_code r \<in> {0, 1}
   \<and> (exit_code r = 0 \<longleftrightarrow> set (map oc_reason (rt_outcomes r)) \<subseteq>
        {Removed, WouldRemove, WouldRequireConfirmation, ConfirmationDeclined, NoAssociatedPR, PRNotMerged})"
proof -
  let ?good = "{Removed, WouldRemove, WouldRequireConfirmation, ConfirmationDeclined, NoAssociatedPR, PRNotMerged}"
  have code: "exit_code_loop ocs \<in> {0, 1} \<and> (exit_code_loop ocs = 0 \<longleftrightarrow> oc_reason ` set ocs \<subseteq> ?good)" for ocs
    by (induction ocs) auto
  have part: "length (filter (has_reason {Removed}) ocs) +
      length (filter (has_reason {WouldRemove, WouldRequireConfirmation}) ocs) +
      length (filter (has_reason (- {Removed, WouldRemove, WouldRequireConfirmation})) ocs) = length ocs" for ocs
    by (induction ocs) (auto simp: has_reason_def)
  show ?thesis
    using code [of "rt_outcomes r"] part [of "rt_outcomes r"]
    by (auto simp: finalize_def fold_counts exit_code_def)
qed

subsection \<open>Identities\<close>

lemma itoa_no_hash: "CHR ''#'' \<notin> set (itoa n)"
proof -
  have "\<not> is_digit (CHR ''#'')" by code_simp
  then have "CHR ''#'' \<notin> set (itoa_nat k)" for k using itoa_nat_digits by blast
  then show ?thesis by (simp add: itoa_def)
qed

lemma itoa_inject: "itoa m = itoa n \<longleftrightarrow> m = n"
proof -
  have minus: "CHR ''-'' # x \<noteq> itoa_nat k" for x k
  proof
    assume "CHR ''-'' # x = itoa_nat k"
    then have "CHR ''-'' \<in> set (itoa_nat k)" by (metis list.set_intros(1))
    then have "is_digit (CHR ''-'')" using itoa_nat_digits by blast
    moreover have "\<not> is_digit (CHR ''-'')" by code_simp
    ultimately show False by simp
  qed
  show ?thesis
    using minus minus [symmetric] by (auto simp: itoa_def split: if_splits)
qed

lemma last_separator:
  fixes a b x y :: string
  assumes "a @ c # x = b @ c # y" and "c \<notin> set x" and "c \<notin> set y"
  shows "a = b \<and> x = y"
proof -
  have "rev x @ c # rev a = rev y @ c # rev b" using arg_cong [OF assms(1), of rev] by simp
  then have "cut (rev x @ c # rev a) c = cut (rev y @ c # rev b) c" by simp
  then show ?thesis using assms(2,3) by (simp add: cut_append)
qed

text \<open>
  The opaque identifier of a pull request names exactly its number and its repository up to the
  equality of repository identities: two identifiers are equal exactly when both are.
\<close>

theorem opaque_id_exact:
  "opaque_id r m = opaque_id s n \<longleftrightarrow> equal_repository_identity r s \<and> m = n"
proof
  assume "opaque_id r m = opaque_id s n"
  then have "normalize_repository_identity r @ CHR ''#'' # itoa m = normalize_repository_identity s @ CHR ''#'' # itoa n"
    by (simp add: opaque_id_def)
  then show "equal_repository_identity r s \<and> m = n"
    using last_separator itoa_no_hash by (metis equal_repository_identity_def itoa_inject)
qed (simp add: opaque_id_def equal_repository_identity_def)

end
