(* ===== verification/Go_Url.thy ===== *)
theory Go_Url
  imports Go_Strings
begin

text \<open>
  What the program uses of \<open>net/url\<close> and \<open>net\<close>: \<open>Parse\<close> of a URL into scheme, user information, host and
  path, and \<open>SplitHostPort\<close>. Query and fragment are cut off and forgotten; between brackets the model
  does not ask for a well-formed IPv6 address. Errors are \<open>None\<close>: the callers only pass them on.
\<close>

subsection \<open>Cutting and splitting at a byte\<close>

definition before :: "char \<Rightarrow> string \<Rightarrow> string" where
  "before c s = takeWhile (\<lambda>x. x \<noteq> c) s"

definition from_first :: "char \<Rightarrow> string \<Rightarrow> string" where
  "from_first c s = dropWhile (\<lambda>x. x \<noteq> c) s"

lemma before_from [simp]: "before c s @ from_first c s = s"
  by (simp add: before_def from_first_def)

lemma from_first_cases: "from_first c s = [] \<or> hd (from_first c s) = c"
  by (metis (mono_tags, lifting) from_first_def hd_dropWhile)

lemma before_clean [simp]: "c \<notin> set (before c s)"
  by (auto simp: before_def dest: set_takeWhileD)

lemma before_subset: "set (before c s) \<subseteq> set s"
  by (auto simp: before_def dest: set_takeWhileD)

lemma from_first_subset: "set (from_first c s) \<subseteq> set s"
  by (auto simp: from_first_def dest: set_dropWhileD)

lemma before_length: "length (before c s) \<le> length s"
  by (simp add: before_def length_takeWhile_le)

lemma before_id: "length (before c s) = length s \<Longrightarrow> before c s = s"
  by (metis before_def takeWhile_eq_take take_all_iff order_refl)

text \<open>\<open>strings.Split\<close> at one byte.\<close>

fun split_all :: "char \<Rightarrow> string \<Rightarrow> string list" where
  "split_all c [] = [[]]"
| "split_all c (x # s) =
     (if x = c then [] # split_all c s
      else case split_all c s of [] \<Rightarrow> [[x]] | p # ps \<Rightarrow> (x # p) # ps)"

lemma split_all_nonempty [simp]: "split_all c s \<noteq> []"
  by (induction s) (auto split: list.split)

lemma join_Cons: "ps \<noteq> [] \<Longrightarrow> join sep (p # ps) = p @ sep @ join sep ps"
  by (cases ps) simp_all

lemma join_split_all [simp]: "join [c] (split_all c s) = s"
proof (induction s)
  case (Cons x s)
  obtain p ps where sp: "split_all c s = p # ps" by (meson split_all_nonempty neq_Nil_conv)
  show ?case
  proof (cases "x = c")
    case True
    with Cons show ?thesis by (simp add: join_Cons)
  next
    case False
    with Cons sp show ?thesis by (cases ps) simp_all
  qed
qed simp

lemma split_all_clean: "p \<in> set (split_all c s) \<Longrightarrow> c \<notin> set p"
proof (induction s arbitrary: p)
  case (Cons x s)
  then show ?case by (cases "split_all c s") (auto split: if_splits)
qed simp

lemma split_all_join:
  "ps \<noteq> [] \<Longrightarrow> \<forall>p \<in> set ps. c \<notin> set p \<Longrightarrow> split_all c (join [c] ps) = ps"
proof (induction ps)
  case (Cons p ps)
  have pre: "c \<notin> set p \<Longrightarrow> split_all c (p @ c # s) = p # split_all c s" for p s
    by (induction p) auto
  have one: "c \<notin> set p \<Longrightarrow> split_all c p = [p]" for p
    by (induction p) auto
  from Cons show ?case by (cases "ps = []") (simp_all add: join_Cons pre one)
qed simp

text \<open>\<open>strings.Trim\<close> and \<open>TrimLeft\<close> of one byte.\<close>

definition trim_left_char :: "char \<Rightarrow> string \<Rightarrow> string" where
  "trim_left_char c s = dropWhile (\<lambda>x. x = c) s"

definition trim_char :: "char \<Rightarrow> string \<Rightarrow> string" where
  "trim_char c s = rev (trim_left_char c (rev (trim_left_char c s)))"

lemma trim_left_char_length: "length (trim_left_char c s) \<le> length s"
  by (simp add: trim_left_char_def length_dropWhile_le)

lemma trim_left_char_id: "length (trim_left_char c s) = length s \<Longrightarrow> trim_left_char c s = s"
  by (metis append_Nil length_0_conv length_append self_append_conv2 takeWhile_dropWhile_id
      trim_left_char_def add_cancel_right_left)

lemma trim_char_length: "length (trim_char c s) \<le> length (trim_left_char c s)"
  using trim_left_char_length [of c "rev (trim_left_char c s)"] by (simp add: trim_char_def)

lemma trim_char_id: "length (trim_char c s) = length (trim_left_char c s) \<Longrightarrow> trim_char c s = trim_left_char c s"
  using trim_left_char_id [of c "rev (trim_left_char c s)"] by (simp add: trim_char_def)

text \<open>The last place of a byte: \<open>strings.LastIndex\<close>, as the text before it and the text after it.\<close>

definition cut_last :: "char \<Rightarrow> string \<Rightarrow> (string \<times> string) option" where
  "cut_last c s =
     (if c \<in> set s
      then Some (rev (tl (from_first c (rev s))), rev (before c (rev s)))
      else None)"

lemma cut_last_Some:
  assumes "cut_last c s = Some (a, b)"
  shows "s = a @ c # b \<and> c \<notin> set b"
proof -
  have c: "c \<in> set s" and a: "a = rev (tl (from_first c (rev s)))" and b: "b = rev (before c (rev s))"
    using assms by (auto simp: cut_last_def split: if_splits)
  have ne: "from_first c (rev s) \<noteq> []"
  proof
    assume "from_first c (rev s) = []"
    then have "before c (rev s) = rev s" by (metis append_Nil2 before_from)
    with c show False by (metis before_clean set_rev)
  qed
  then have "from_first c (rev s) = c # tl (from_first c (rev s))"
    by (metis from_first_cases list.collapse)
  then have "rev s = before c (rev s) @ c # tl (from_first c (rev s))" by (metis before_from)
  then have "s = rev (before c (rev s) @ c # tl (from_first c (rev s)))" by (metis rev_rev_ident)
  then show ?thesis using a b by (simp add: before_clean)
qed

lemma cut_last_None: "cut_last c s = None \<longleftrightarrow> c \<notin> set s"
  by (simp add: cut_last_def)

subsection \<open>Percent-encoding\<close>

definition hex_val :: "char \<Rightarrow> nat" where
  "hex_val c =
     (let n = code c in if n \<le> 57 then n - 48 else if n \<le> 70 then n - 55 else n - 87)"

definition is_alnum :: "char \<Rightarrow> bool" where
  "is_alnum c \<longleftrightarrow> is_digit c \<or> is_upper c \<or> is_lower c"

text \<open>The bytes below 0x80 a host may contain.\<close>

definition host_char :: "char \<Rightarrow> bool" where
  "host_char c \<longleftrightarrow> is_alnum c \<or> code c \<ge> 128 \<or> c \<in> set ''-_.~!$&()*+,;=:[]<>'' \<or> c = CHR 0x27 \<or> c = CHR 0x22"

datatype escape_mode = Path_Mode | Host_Mode

fun unescape :: "escape_mode \<Rightarrow> string \<Rightarrow> string option" where
  "unescape m [] = Some []"
| "unescape m (x # s) =
     (if x = CHR ''%''
      then case s of
          h # l # rest \<Rightarrow>
            if \<not> is_hex h \<or> \<not> is_hex l then None
            else if m = Host_Mode \<and> hex_val h < 8 \<and> \<not> (h = CHR ''2'' \<and> l = CHR ''5'') then None
            else map_option (\<lambda>r. byte (16 * hex_val h + hex_val l) # r) (unescape m rest)
        | _ \<Rightarrow> None
      else if m = Host_Mode \<and> \<not> host_char x then None
      else map_option (\<lambda>r. x # r) (unescape m s))"

lemma unescape_length: "unescape m s = Some t \<Longrightarrow> length t \<le> length s \<and> (length t = length s \<longrightarrow> t = s)"
proof (induction m s arbitrary: t rule: unescape.induct)
  case (2 m x s)
  show ?case
  proof (cases "x = CHR ''%''")
    case True
    with "2.prems" obtain h l rest where s: "s = h # l # rest"
      by (auto split: list.splits)
    with True "2.prems" obtain r where "unescape m rest = Some r" "t = byte (16 * hex_val h + hex_val l) # r"
      and "is_hex h" "is_hex l" by (auto split: if_splits)
    with "2.IH"(1) [OF True s] "2.prems" True s show ?thesis by (fastforce split: if_splits)
  next
    case False
    with "2.prems" obtain r where "unescape m s = Some r" "t = x # r" by (auto split: if_splits)
    with "2.IH"(2) [OF False] "2.prems" False show ?thesis by (auto split: if_splits)
  qed
qed simp

lemma unescape_host_at: "unescape Host_Mode s = Some t \<Longrightarrow> CHR ''@'' \<notin> set s \<Longrightarrow> CHR ''@'' \<notin> set t"
proof (induction "Host_Mode" s arbitrary: t rule: unescape.induct)
  case (2 x s)
  show ?case
  proof (cases "x = CHR ''%''")
    case True
    with "2.prems" obtain h l rest where s: "s = h # l # rest" by (auto split: list.splits)
    with True "2.prems" obtain r where r: "unescape Host_Mode rest = Some r" "t = byte (16 * hex_val h + hex_val l) # r"
      and hx: "is_hex h" "is_hex l" and ok: "hex_val h \<ge> 8 \<or> (h = CHR ''2'' \<and> l = CHR ''5'')"
      by (auto split: if_splits)
    have lt: "hex_val y < 16" if "is_hex y" for y
      using that by (auto simp: is_hex_def is_digit_def hex_val_def Let_def)
    have "byte (16 * hex_val h + hex_val l) \<noteq> CHR ''@''"
    proof
      assume eq: "byte (16 * hex_val h + hex_val l) = CHR ''@''"
      have "16 * hex_val h + hex_val l < 256" using lt [OF hx(1)] lt [OF hx(2)] by simp
      then have "code (byte (16 * hex_val h + hex_val l)) = 16 * hex_val h + hex_val l" by (rule code_byte)
      with eq have "16 * hex_val h + hex_val l = 64" by (simp add: code_def)
      moreover have "hex_val (CHR ''2'') = 2" "hex_val (CHR ''5'') = 5" by (simp_all add: hex_val_def code_def)
      ultimately show False using ok by auto
    qed
    moreover have "CHR ''@'' \<notin> set r"
      using "2.hyps"(1) [OF True s] r(1) "2.prems" True s hx ok by auto
    ultimately show ?thesis using r(2) by simp
  next
    case False
    with "2.prems" obtain r where "unescape Host_Mode s = Some r" "t = x # r" by (auto split: if_splits)
    with "2.hyps"(2) [OF False] "2.prems" False show ?thesis by (auto split: if_splits)
  qed
qed simp

subsection \<open>Parsing a URL\<close>

record go_url =
  u_scheme :: string
  u_user :: "(string \<times> string option) option"
  u_host :: string
  u_path :: string

definition is_scheme_char :: "char \<Rightarrow> bool" where
  "is_scheme_char c \<longleftrightarrow> is_alnum c \<or> c \<in> set ''+-.''"

definition get_scheme :: "string \<Rightarrow> (string \<times> string) option" where
  "get_scheme s =
     (let p = takeWhile is_scheme_char s in
      if p \<noteq> [] \<and> \<not> (is_upper (hd p) \<or> is_lower (hd p)) then Some ([], s)
      else case dropWhile is_scheme_char s of
        [] \<Rightarrow> Some ([], s)
      | c # r \<Rightarrow> if c \<noteq> CHR '':'' then Some ([], s) else if p = [] then None else Some (p, r))"

definition valid_optional_port :: "string \<Rightarrow> bool" where
  "valid_optional_port p \<longleftrightarrow> p = [] \<or> (hd p = CHR '':'' \<and> list_all is_digit (tl p))"

definition parse_host :: "string \<Rightarrow> string option" where
  "parse_host s =
     (if has_prefix s ''['' then
        (case cut_last (CHR '']'') s of
           None \<Rightarrow> None
         | Some (_, port) \<Rightarrow>
             if \<not> valid_optional_port port \<or> CHR ''['' \<in> set (tl s) then None else unescape Host_Mode s)
      else if CHR ''['' \<in> set s then None
      else case cut_last (CHR '':'') s of
        None \<Rightarrow> unescape Host_Mode s
      | Some (_, port) \<Rightarrow> if \<not> list_all is_digit port then None else unescape Host_Mode s)"

definition userinfo_char :: "char \<Rightarrow> bool" where
  "userinfo_char c \<longleftrightarrow> is_alnum c \<or> c \<in> set ''-._:~!$&()*+,;=%@'' \<or> c = CHR 0x27"

definition parse_userinfo :: "string \<Rightarrow> (string \<times> string option) option" where
  "parse_userinfo ui =
     (if \<not> list_all userinfo_char ui then None
      else case cut ui (CHR '':'') of (name, pass, has_pass) \<Rightarrow>
        (case unescape Path_Mode name of
           None \<Rightarrow> None
         | Some n \<Rightarrow> if \<not> has_pass then Some (n, None)
             else map_option (\<lambda>p. (n, Some p)) (unescape Path_Mode pass)))"

definition parse_authority :: "string \<Rightarrow> ((string \<times> string option) option \<times> string) option" where
  "parse_authority a =
     (case cut_last (CHR ''@'') a of
        None \<Rightarrow> map_option (\<lambda>h. (None, h)) (parse_host a)
      | Some (ui, hs) \<Rightarrow>
          (case parse_host hs of
             None \<Rightarrow> None
           | Some h \<Rightarrow> map_option (\<lambda>u. (Some u, h)) (parse_userinfo ui)))"

definition url_parse :: "string \<Rightarrow> go_url option" where
  "url_parse raw =
     (let u = before (CHR ''#'') raw; frag = tl (from_first (CHR ''#'') raw) in
      if frag \<noteq> [] \<and> unescape Path_Mode frag = None then None
      else if list_ex (\<lambda>c. code c < 32 \<or> code c = 127) u then None
      else if u = ''*'' then Some \<lparr>u_scheme = [], u_user = None, u_host = [], u_path = u\<rparr>
      else case get_scheme u of
        None \<Rightarrow> None
      | Some (scheme, rest) \<Rightarrow>
          let path = before (CHR ''?'') rest in
          if \<not> has_prefix path ''/'' \<and> scheme \<noteq> []
          then Some \<lparr>u_scheme = ascii_lower scheme, u_user = None, u_host = [], u_path = []\<rparr>
          else if \<not> has_prefix path ''/'' \<and> CHR '':'' \<in> set (before (CHR ''/'') path) then None
          else if has_prefix path ''//'' \<and> (scheme \<noteq> [] \<or> \<not> has_prefix path ''///'')
          then (case parse_authority (before (CHR ''/'') (drop 2 path)) of
              None \<Rightarrow> None
            | Some (user, host) \<Rightarrow>
                map_option (\<lambda>p. \<lparr>u_scheme = ascii_lower scheme, u_user = user, u_host = host, u_path = p\<rparr>)
                  (unescape Path_Mode (from_first (CHR ''/'') (drop 2 path))))
          else map_option (\<lambda>p. \<lparr>u_scheme = ascii_lower scheme, u_user = None, u_host = [], u_path = p\<rparr>)
                 (unescape Path_Mode path))"

lemma parse_host_unescape: "parse_host s = Some h \<Longrightarrow> unescape Host_Mode s = Some h"
  by (auto simp: parse_host_def split: if_splits option.splits)

lemma parse_authority_host:
  assumes "parse_authority a = Some (user, h)"
  shows "\<exists>s. unescape Host_Mode s = Some h \<and> CHR ''@'' \<notin> set s \<and> suffix s a \<and> (user \<noteq> None \<longrightarrow> length s < length a)
     \<and> (user = None \<longrightarrow> s = a)"
proof (cases "cut_last (CHR ''@'') a")
  case None
  with assms have "unescape Host_Mode a = Some h" "user = None"
    by (auto simp: parse_authority_def dest: parse_host_unescape)
  with None show ?thesis by (auto simp: cut_last_None)
next
  case (Some q)
  obtain ui hs where q: "q = (ui, hs)" by (cases q)
  from cut_last_Some [OF Some [unfolded q]] have a: "a = ui @ CHR ''@'' # hs" "CHR ''@'' \<notin> set hs" by blast+
  from assms Some q have "unescape Host_Mode hs = Some h" "user \<noteq> None"
    by (auto simp: parse_authority_def split: option.splits dest: parse_host_unescape)
  with a show ?thesis by (intro exI [of _ hs]) (auto simp: suffix_def)
qed

lemma before_prefix: "prefix (before c s) s"
  by (metis before_from prefixI)

text \<open>What the program relies on: a host never contains \<open>@\<close>, and host and path come out of what is
  behind the two slashes, no longer than it, and together equal to it when they are as long.\<close>

lemma url_parse_host:
  assumes "url_parse raw = Some u" and "u_host u \<noteq> []"
  shows "CHR ''@'' \<notin> set (u_host u)"
    and "\<exists>pre. prefix (pre @ ''//'') raw \<and>
       length (u_host u) + length (u_path u) \<le> length raw - length (pre @ ''//'') \<and>
       (length (u_host u) + length (u_path u) = length raw - length (pre @ ''//'') \<longrightarrow>
          raw = pre @ ''//'' @ u_host u @ u_path u) \<and> (pre = [] \<or> last pre = CHR '':'') \<and> CHR ''/'' \<notin> set pre"
proof -
  let ?u = "before (CHR ''#'') raw"
  obtain scheme rest where sch: "get_scheme ?u = Some (scheme, rest)"
    using assms by (auto simp: url_parse_def Let_def split: if_splits option.splits)
  define path where "path = before (CHR ''?'') rest"
  have slashes: "has_prefix path ''//''"
    using assms sch by (auto simp: url_parse_def Let_def path_def split: if_splits option.splits)
  obtain user where au: "parse_authority (before (CHR ''/'') (drop 2 path)) = Some (user, u_host u)"
    and pa: "unescape Path_Mode (from_first (CHR ''/'') (drop 2 path)) = Some (u_path u)"
    using assms sch slashes by (auto simp: url_parse_def Let_def path_def split: if_splits option.splits)
  obtain s where s: "unescape Host_Mode s = Some (u_host u)" "CHR ''@'' \<notin> set s"
    "suffix s (before (CHR ''/'') (drop 2 path))"
    "user \<noteq> None \<longrightarrow> length s < length (before (CHR ''/'') (drop 2 path))"
    "user = None \<longrightarrow> s = before (CHR ''/'') (drop 2 path)"
    using parse_authority_host [OF au] by blast
  from unescape_host_at [OF s(1,2)] show "CHR ''@'' \<notin> set (u_host u)" .
  obtain pre where pre: "?u = pre @ rest" "pre = [] \<or> last pre = CHR '':''" "CHR ''/'' \<notin> set pre"
  proof -
    have sc: "CHR ''/'' \<notin> set (takeWhile is_scheme_char t)" for t
      by (auto simp: is_scheme_char_def is_alnum_def is_digit_def is_upper_def is_lower_def code_def dest: set_takeWhileD)
    show ?thesis
    proof (cases "scheme = []")
      case True
      with sch have "rest = ?u" by (auto simp: get_scheme_def Let_def split: if_splits list.splits)
      with that [of "[]"] show ?thesis by simp
    next
      case False
      with sch have sr: "scheme = takeWhile is_scheme_char ?u" "dropWhile is_scheme_char ?u = CHR '':'' # rest"
        by (auto simp: get_scheme_def Let_def split: if_splits list.splits)
      then have "?u = (scheme @ '':'') @ rest" by (metis append.assoc append_Cons append_Nil takeWhile_dropWhile_id)
      moreover have "CHR ''/'' \<notin> set (scheme @ '':'')" using sc sr(1) by auto
      ultimately show ?thesis using that [of "scheme @ '':''"] by simp
    qed
  qed
  obtain t where path: "path = ''//'' @ t" using slashes by (auto simp: has_prefix_def prefix_def)
  then have t: "drop 2 path = t" by simp
  have lens: "length (u_host u) \<le> length s" "length (u_host u) = length s \<longrightarrow> u_host u = s"
    "length (u_path u) \<le> length (from_first (CHR ''/'') t)"
    "length (u_path u) = length (from_first (CHR ''/'') t) \<longrightarrow> u_path u = from_first (CHR ''/'') t"
    using unescape_length [OF s(1)] unescape_length [OF pa] t by auto
  have ls: "length s \<le> length (before (CHR ''/'') t)"
    "length s = length (before (CHR ''/'') t) \<longrightarrow> s = before (CHR ''/'') t"
    using s(3-5) t by (auto dest: suffix_length_le)
  have tl: "length (before (CHR ''/'') t) + length (from_first (CHR ''/'') t) = length t"
    by (metis before_from length_append)
  have raw: "prefix (pre @ ''//'' @ t) raw"
  proof -
    have "prefix path rest" by (simp add: path_def before_prefix)
    then have "prefix (pre @ path) ?u" using pre(1) by simp
    then have "prefix (pre @ path) raw" using before_prefix by (rule prefix_order.trans)
    then show ?thesis by (simp add: path)
  qed
  then obtain z where z: "raw = pre @ ''//'' @ t @ z" by (auto simp: prefix_def)
  show "\<exists>pre. prefix (pre @ ''//'') raw \<and>
       length (u_host u) + length (u_path u) \<le> length raw - length (pre @ ''//'') \<and>
       (length (u_host u) + length (u_path u) = length raw - length (pre @ ''//'') \<longrightarrow>
          raw = pre @ ''//'' @ u_host u @ u_path u) \<and> (pre = [] \<or> last pre = CHR '':'') \<and> CHR ''/'' \<notin> set pre"
  proof (intro exI [of _ pre] conjI impI)
    show "prefix (pre @ ''//'') raw" by (simp add: z)
    show "length (u_host u) + length (u_path u) \<le> length raw - length (pre @ ''//'')"
      using lens ls tl by (simp add: z)
    assume eq: "length (u_host u) + length (u_path u) = length raw - length (pre @ ''//'')"
    then have "length (u_host u) = length s" "length s = length (before (CHR ''/'') t)"
      "length (u_path u) = length (from_first (CHR ''/'') t)" "length z = 0"
      using lens ls tl by (auto simp: z)
    then have "u_host u = before (CHR ''/'') t" "u_path u = from_first (CHR ''/'') t" "z = []"
      using lens(2,4) ls(2) by simp_all
    then have "u_host u @ u_path u = t" "z = []" by simp_all
    then show "raw = pre @ ''//'' @ u_host u @ u_path u" by (simp add: z)
  qed (use pre in auto)
qed

lemma url_parse_path:
  assumes "url_parse raw = Some u" and "u_host u \<noteq> []"
  shows "u_path u = [] \<or> hd (u_path u) = CHR ''/''"
proof -
  obtain p where "unescape Path_Mode (from_first (CHR ''/'') p) = Some (u_path u)"
    using assms by (auto simp: url_parse_def Let_def split: if_splits option.splits)
  then show ?thesis using from_first_cases [of "CHR ''/''" p] by (cases "from_first (CHR ''/'') p") (auto simp: eq_commute [of _ "u_path u"])
qed

subsection \<open>Hosts and ports\<close>

definition split_host_port :: "string \<Rightarrow> (string \<times> string) option" where
  "split_host_port s =
     (case cut_last (CHR '':'') s of
        None \<Rightarrow> None
      | Some (h, port) \<Rightarrow>
          if has_prefix s ''['' then
            (let inner = before (CHR '']'') (tl s) in
             if h \<noteq> ''['' @ inner @ '']'' \<or> CHR ''['' \<in> set (tl s) \<or> CHR '']'' \<in> set port then None
             else Some (inner, port))
          else if CHR '':'' \<in> set h \<or> CHR ''['' \<in> set s \<or> CHR '']'' \<in> set s then None
          else Some (h, port))"

lemma split_host_port_parts:
  assumes "split_host_port s = Some (h, p)"
  shows "s = h @ '':'' @ p \<and> CHR '':'' \<notin> set h \<and> CHR '':'' \<notin> set p \<and> \<not> has_prefix s ''[''
     \<or> s = ''['' @ h @ '']'' @ '':'' @ p \<and> CHR '':'' \<notin> set p"
proof (cases "cut_last (CHR '':'') s")
  case (Some q)
  obtain a b where q: "q = (a, b)" by (cases q)
  from cut_last_Some [OF Some [unfolded q]] have s: "s = a @ CHR '':'' # b" "CHR '':'' \<notin> set b" by blast+
  show ?thesis
  proof (cases "has_prefix s ''[''")
    case True
    with assms Some q have "h = before (CHR '']'') (tl s)" "a = ''['' @ h @ '']''" "p = b"
      by (auto simp: split_host_port_def Let_def split: if_splits)
    with s show ?thesis by simp
  next
    case False
    with assms Some q have "h = a" "p = b" "CHR '':'' \<notin> set a"
      by (auto simp: split_host_port_def split: if_splits)
    with s False show ?thesis by simp
  qed
qed (use assms in \<open>simp add: split_host_port_def\<close>)

lemma split_host_port_plain:
  "CHR '':'' \<notin> set h \<Longrightarrow> CHR '':'' \<notin> set p \<Longrightarrow> CHR ''['' \<notin> set (h @ p) \<Longrightarrow> CHR '']'' \<notin> set (h @ p) \<Longrightarrow>
     split_host_port (h @ '':'' @ p) = Some (h, p)"
proof -
  assume a: "CHR '':'' \<notin> set h" "CHR '':'' \<notin> set p" "CHR ''['' \<notin> set (h @ p)" "CHR '']'' \<notin> set (h @ p)"
  have "cut_last (CHR '':'') (h @ '':'' @ p) \<noteq> None" by (simp add: cut_last_def)
  then obtain x y where c: "cut_last (CHR '':'') (h @ '':'' @ p) = Some (x, y)" by auto
  have xy: "h @ '':'' @ p = x @ CHR '':'' # y" "CHR '':'' \<notin> set y" using cut_last_Some [OF c] by blast+
  have "h = x \<and> p = y" using xy append_Cons_eq_iff [OF a(1,2), of x y] by simp
  moreover have "\<not> has_prefix (h @ '':'' @ p) ''[''" using a(3) by (cases h) (auto simp: has_prefix_def)
  ultimately show ?thesis using c a by (auto simp: split_host_port_def)
qed

end
