(* ===== verification/Repo_Url.thy ===== *)
theory Repo_Url
  imports Go_Url Go_Paths Path_Utils
begin

text \<open>
  Repository URLs and identities (\<open>internal/url/url.go\<close>, \<open>internal/url/identity.go\<close>): parsing a git
  remote, the canonical host/owner/name identity, its folding for comparison, and the paths of
  worktrees. A failed parse says which test refused it; the texts of the errors are not modelled.
\<close>

datatype url_error =
    Remote_Helper | Unsupported_Scheme | Bad_Userinfo | Parse_Failed | No_Host | Empty_Port
  | Bad_Component string | Short_Path

record repository_info =
  ri_host :: string
  ri_owner :: string
  ri_name :: string
  ri_full_path :: string

subsection \<open>Path components\<close>

definition validate_component :: "string \<Rightarrow> bool" where
  "validate_component c \<longleftrightarrow> c \<noteq> [] \<and> c \<noteq> ''.'' \<and> c \<noteq> ''..'' \<and> CHR ''/'' \<notin> set c \<and> CHR 0x5C \<notin> set c"

definition repository_info_from_parts :: "string \<Rightarrow> string list \<Rightarrow> url_error + repository_info" where
  "repository_info_from_parts authority parts =
     (if length parts < 2 then Inl Short_Path
      else let ps = butlast parts @ [trim_suffix (last parts) ''.git''] in
        case find (\<lambda>p. \<not> validate_component p) ps of
          Some p \<Rightarrow> Inl (Bad_Component p)
        | None \<Rightarrow> Inr \<lparr>ri_host = authority, ri_owner = hd ps, ri_name = last ps,
                    ri_full_path = authority @ ''/'' @ join ''/'' ps\<rparr>)"

subsection \<open>Recognizing remotes\<close>

fun cut_at :: "string \<Rightarrow> string \<Rightarrow> (string \<times> string) option" where
  "cut_at sep [] = (if sep = [] then Some ([], []) else None)"
| "cut_at sep (x # s) =
     (if prefix sep (x # s) then Some ([], drop (length sep) (x # s))
      else map_option (\<lambda>(a, b). (x # a, b)) (cut_at sep s))"

definition has_scheme_separator :: "string \<Rightarrow> bool" where
  "has_scheme_separator s \<longleftrightarrow> cut_at ''://'' s \<noteq> None"

definition is_remote_helper_url :: "string \<Rightarrow> bool" where
  "is_remote_helper_url s =
     (case cut_at ''::'' s of
        None \<Rightarrow> False
      | Some (p, _) \<Rightarrow> p = [] \<or> ((is_upper (hd p) \<or> is_lower (hd p)) \<and> list_all is_scheme_char (tl p)))"

definition is_network_scheme :: "string \<Rightarrow> bool" where
  "is_network_scheme s \<longleftrightarrow> to_lower s \<in> {''git'', ''git+ssh'', ''http'', ''https'', ''ssh''}"

text \<open>The scan of \<open>splitSCPLikeURL\<close>: the colon outside brackets, before any slash.\<close>

fun scp_delimiter :: "bool \<Rightarrow> string \<Rightarrow> (string \<times> string) option" where
  "scp_delimiter inside [] = None"
| "scp_delimiter inside (x # s) =
     (if x = CHR ''/'' then None
      else if x = CHR '':'' \<and> \<not> inside then Some ([], s)
      else map_option (\<lambda>(a, b). (x # a, b))
        (scp_delimiter (if x = CHR ''['' then True else if x = CHR '']'' then False else inside) s))"

definition split_scp_like_url :: "string \<Rightarrow> (string \<times> string \<times> string) option" where
  "split_scp_like_url raw =
     (if raw = [] \<or> has_scheme_separator raw then None
      else case scp_delimiter False raw of
        None \<Rightarrow> None
      | Some (authority, remote_path) \<Rightarrow>
          (case (case cut_last (CHR ''@'') authority of None \<Rightarrow> ([], authority) | Some (u, h) \<Rightarrow> (u, h)) of
             (user, host) \<Rightarrow> if host = [] \<or> remote_path = [] then None else Some (host, remote_path, user)))"

definition credential_bearing_scp_path :: "string \<Rightarrow> bool" where
  "credential_bearing_scp_path remote_path =
     (case from_first (CHR ''@'') (before (CHR ''/'') remote_path) of
        [] \<Rightarrow> False | _ # rest \<Rightarrow> CHR '':'' \<in> set rest)"

subsection \<open>Normalizing and parsing\<close>

text \<open>What \<open>normalizeURL\<close> hands to \<open>url.Parse\<close>: a text, or the text of a parsed URL without its user,
  which \<open>URL.String\<close> assembles and \<open>Parse\<close> takes apart into the same host and path.\<close>

datatype normalized = To_Parse string | Reassembled go_url

definition normalize_explicit_network_url :: "string \<Rightarrow> url_error + normalized" where
  "normalize_explicit_network_url raw =
     (case url_parse raw of
        None \<Rightarrow> Inl Parse_Failed
      | Some u \<Rightarrow>
          if \<not> is_network_scheme (u_scheme u) then Inl Unsupported_Scheme
          else if u_host u = [] then Inl No_Host
          else if to_lower (u_scheme u) \<in> {''http'', ''https''} then Inr (To_Parse raw)
          else if (\<exists>name pass. u_user u = Some (name, Some pass)) then Inl Bad_Userinfo
          else Inr (Reassembled (u\<lparr>u_scheme := ''https'', u_user := None\<rparr>)))"

definition normalize_url :: "string \<Rightarrow> url_error + normalized" where
  "normalize_url raw =
     (if is_remote_helper_url raw then Inl Remote_Helper
      else if has_scheme_separator raw then normalize_explicit_network_url raw
      else if has_prefix (to_lower raw) ''file:'' then Inl Unsupported_Scheme
      else case split_scp_like_url raw of
        Some (host, remote_path, user) \<Rightarrow>
          if CHR '':'' \<in> set user then Inl Bad_Userinfo
          else if credential_bearing_scp_path remote_path then Inl Bad_Userinfo
          else Inr (To_Parse (''https://'' @ host @ ''/'' @ trim_left_char (CHR ''/'') remote_path))
      | None \<Rightarrow>
          if has_prefix raw ''http://'' \<or> has_prefix raw ''https://'' then Inr (To_Parse raw)
          else Inr (To_Parse (''https://'' @ raw)))"

definition info_of_url :: "go_url \<Rightarrow> url_error + repository_info" where
  "info_of_url u =
     (if u_host u = [] then Inl No_Host
      else if has_suffix (u_host u) '':'' then Inl Empty_Port
      else if \<not> validate_component (u_host u) then Inl (Bad_Component (u_host u))
      else repository_info_from_parts (u_host u) (split_all (CHR ''/'') (trim_char (CHR ''/'') (u_path u))))"

definition parse_repository_url :: "string \<Rightarrow> url_error + repository_info" where
  "parse_repository_url raw =
     (case normalize_url raw of
        Inl e \<Rightarrow> Inl e
      | Inr (To_Parse s) \<Rightarrow> (case url_parse s of None \<Rightarrow> Inl Parse_Failed | Some u \<Rightarrow> info_of_url u)
      | Inr (Reassembled u) \<Rightarrow> info_of_url u)"

subsection \<open>Canonical identities\<close>

definition looks_like_windows_drive_path :: "string \<Rightarrow> bool" where
  "looks_like_windows_drive_path raw \<longleftrightarrow>
     length raw \<ge> 3 \<and> raw ! 1 = CHR '':'' \<and> (is_upper (raw ! 0) \<or> is_lower (raw ! 0))
     \<and> (raw ! 2 = CHR ''/'' \<or> raw ! 2 = CHR 0x5C)"

definition is_canonical_identity_candidate :: "string \<Rightarrow> bool" where
  "is_canonical_identity_candidate raw =
     (if raw = [] then False
      else if is_abs raw \<or> has_prefix raw ''.'' \<or> has_prefix raw ''~'' then False
      else if contains_char raw (CHR 0x5C) \<or> looks_like_windows_drive_path raw then False
      else case cut_at ''://'' raw of
        Some (scheme, _) \<Rightarrow> is_network_scheme scheme
      | None \<Rightarrow> if contains_char raw (CHR '':'') then True
                else before (CHR ''/'') raw \<noteq> ''local'')"

definition is_numeric_port :: "string \<Rightarrow> bool" where
  "is_numeric_port p \<longleftrightarrow> p \<noteq> [] \<and> list_all is_digit p"

definition has_credential_bearing_authority_slug :: "string \<Rightarrow> bool" where
  "has_credential_bearing_authority_slug raw \<longleftrightarrow>
     (case cut raw (CHR ''/'') of (authority, _, ok) \<Rightarrow>
        ok \<and> CHR ''@'' \<in> set authority
        \<and> (case split_host_port authority of None \<Rightarrow> False | Some (_, port) \<Rightarrow> is_numeric_port port))"

definition has_ambiguous_scp_credential_path :: "string \<Rightarrow> bool" where
  "has_ambiguous_scp_credential_path raw \<longleftrightarrow>
     (case split_scp_like_url raw of
        Some (_, remote_path, user) \<Rightarrow>
          user = [] \<and> CHR ''@'' \<in> set (before (CHR ''/'') (trim_left_char (CHR ''/'') remote_path))
      | None \<Rightarrow> False)"

definition passes_prechecks :: "string \<Rightarrow> bool" where
  "passes_prechecks raw \<longleftrightarrow> is_canonical_identity_candidate raw
     \<and> \<not> has_credential_bearing_authority_slug raw \<and> \<not> has_ambiguous_scp_credential_path raw"

definition is_canonical_authority_host :: "string \<Rightarrow> bool" where
  "is_canonical_authority_host h \<longleftrightarrow> trim_space h \<noteq> []
     \<and> CHR ''@'' \<notin> set h \<and> CHR ''/'' \<notin> set h \<and> CHR 0x5C \<notin> set h"

definition parse_canonical_authority_slug :: "string \<Rightarrow> repository_info option" where
  "parse_canonical_authority_slug raw =
     (case cut raw (CHR ''/'') of (authority, remainder, ok) \<Rightarrow>
        if \<not> ok \<or> remainder = [] then None
        else case split_host_port authority of
          None \<Rightarrow> None
        | Some (host, port) \<Rightarrow>
            if \<not> is_numeric_port port \<or> \<not> is_canonical_authority_host host then None
            else case repository_info_from_parts authority (split_all (CHR ''/'') remainder) of
              Inl _ \<Rightarrow> None | Inr info \<Rightarrow> Some info)"

text \<open>Each pass of \<open>CanonicalRepositoryInfo\<close> shortens the text, or trades a colon for a slash.\<close>

lemma join_trim_last:
  "ps \<noteq> [] \<Longrightarrow> prefix (join sep (butlast ps @ [trim_suffix (last ps) suf])) (join sep ps)"
proof (induction ps)
  case (Cons p ps)
  have t: "prefix (trim_suffix x suf) x" for x by (simp add: trim_suffix_def take_is_prefix)
  show ?case
  proof (cases "ps = []")
    case True
    with t show ?thesis by simp
  next
    case False
    with Cons show ?thesis by (simp add: join_Cons)
  qed
qed simp

lemma from_parts_Inr:
  assumes "repository_info_from_parts authority parts = Inr info"
  shows "ri_host info = authority" and "length parts \<ge> 2"
    and "prefix (ri_full_path info) (authority @ ''/'' @ join ''/'' parts)"
    and "\<exists>ps. ri_full_path info = authority @ ''/'' @ join ''/'' ps \<and> length ps = length parts \<and>
       (\<forall>p \<in> set ps. validate_component p)"
proof -
  let ?ps = "butlast parts @ [trim_suffix (last parts) ''.git'']"
  have len: "length parts \<ge> 2" and ok: "\<forall>p \<in> set ?ps. validate_component p"
    and full: "ri_full_path info = authority @ ''/'' @ join ''/'' ?ps" and h: "ri_host info = authority"
    using assms by (auto simp: repository_info_from_parts_def Let_def find_None_iff split: if_splits option.splits)
  show "ri_host info = authority" by (rule h)
  show "length parts \<ge> 2" by (rule len)
  have ne: "parts \<noteq> []" using len by auto
  show "prefix (ri_full_path info) (authority @ ''/'' @ join ''/'' parts)"
    unfolding full using join_trim_last [OF ne, of "''/''" "''.git''"] by simp
  have "length ?ps = length parts" using len by simp
  with full ok show "\<exists>ps. ri_full_path info = authority @ ''/'' @ join ''/'' ps \<and> length ps = length parts \<and>
       (\<forall>p \<in> set ps. validate_component p)" by blast
qed

lemma info_of_url_length:
  assumes "info_of_url u = Inr info" and "u_path u = [] \<or> hd (u_path u) = CHR ''/''"
  shows "length (ri_full_path info) \<le> length (u_host u) + length (u_path u)"
    and "length (ri_full_path info) = length (u_host u) + length (u_path u) \<Longrightarrow> ri_full_path info = u_host u @ u_path u"
proof -
  let ?s = "CHR ''/''"
  have fp: "repository_info_from_parts (u_host u) (split_all ?s (trim_char ?s (u_path u))) = Inr info"
    using assms(1) by (auto simp: info_of_url_def split: if_splits)
  have pre: "prefix (ri_full_path info) (u_host u @ ''/'' @ trim_char ?s (u_path u))"
    using from_parts_Inr(3) [OF fp] by simp
  have "u_path u \<noteq> []"
  proof
    assume "u_path u = []"
    then have "split_all ?s (trim_char ?s (u_path u)) = [[]]" by (simp add: trim_char_def trim_left_char_def)
    with from_parts_Inr(2) [OF fp] show False by simp
  qed
  then obtain t where t: "u_path u = ?s # t" using assms(2) by (cases "u_path u") auto
  have tl: "trim_left_char ?s (u_path u) = trim_left_char ?s t" by (simp add: t trim_left_char_def)
  have len: "length (trim_char ?s (u_path u)) \<le> length (trim_left_char ?s t)" "length (trim_left_char ?s t) \<le> length t"
    using trim_char_length [of ?s "u_path u"] trim_left_char_length [of ?s t] tl by simp_all
  have "length (ri_full_path info) \<le> length (u_host u) + 1 + length (trim_char ?s (u_path u))"
    using prefix_length_le [OF pre] by simp
  with len show le: "length (ri_full_path info) \<le> length (u_host u) + length (u_path u)" by (simp add: t)
  assume eq: "length (ri_full_path info) = length (u_host u) + length (u_path u)"
  have "length t \<le> length (trim_char ?s (u_path u))" using eq prefix_length_le [OF pre] t by simp
  with len have "length (trim_char ?s (u_path u)) = length (trim_left_char ?s (u_path u))"
    "length (trim_left_char ?s t) = length t" unfolding tl by simp_all
  then have "trim_char ?s (u_path u) = t" using trim_char_id trim_left_char_id tl by metis
  with pre have "prefix (ri_full_path info) (u_host u @ u_path u)" by (simp add: t)
  moreover have "length (ri_full_path info) = length (u_host u @ u_path u)" using eq by simp
  ultimately show "ri_full_path info = u_host u @ u_path u" by (metis prefix_def append_eq_append_conv append_Nil2)
qed

lemma cut_at_Some: "cut_at sep s = Some (a, b) \<Longrightarrow> s = a @ sep @ b"
proof (induction sep s arbitrary: a rule: cut_at.induct)
  case (2 sep x s)
  show ?case
  proof (cases "prefix sep (x # s)")
    case True
    with 2 show ?thesis by (auto simp: prefix_def)
  next
    case False
    with 2 show ?thesis by auto
  qed
qed (simp split: if_splits)

lemma scp_delimiter_Some: "scp_delimiter i s = Some (a, b) \<Longrightarrow> s = a @ CHR '':'' # b \<and> CHR ''/'' \<notin> set a"
  by (induction i s arbitrary: a rule: scp_delimiter.induct) (auto split: if_splits)

lemma split_scp_parts:
  assumes "split_scp_like_url raw = Some (host, rp, user)"
  shows "raw = host @ '':'' @ rp \<and> user = [] \<and> CHR ''@'' \<notin> set host \<or>
     raw = user @ ''@'' @ host @ '':'' @ rp \<and> CHR ''@'' \<notin> set host"
    and "host \<noteq> []" and "CHR ''/'' \<notin> set host"
proof -
  obtain a where d: "scp_delimiter False raw = Some (a, rp)"
    and uh: "(case cut_last (CHR ''@'') a of None \<Rightarrow> ([], a) | Some (u, h) \<Rightarrow> (u, h)) = (user, host)"
    and ne: "host \<noteq> []"
    using assms by (auto simp: split_scp_like_url_def split: if_splits option.splits prod.splits)
  show "host \<noteq> []" by (rule ne)
  have a: "raw = a @ CHR '':'' # rp" "CHR ''/'' \<notin> set a" using scp_delimiter_Some [OF d] by blast+
  have "user = [] \<and> host = a \<and> CHR ''@'' \<notin> set a \<or> a = user @ CHR ''@'' # host \<and> CHR ''@'' \<notin> set host"
    using uh cut_last_Some [of "CHR ''@''" a user host] by (auto simp: cut_last_None split: option.splits prod.splits)
  with a show "raw = host @ '':'' @ rp \<and> user = [] \<and> CHR ''@'' \<notin> set host \<or>
     raw = user @ ''@'' @ host @ '':'' @ rp \<and> CHR ''@'' \<notin> set host" and "CHR ''/'' \<notin> set host" by auto
qed

lemma info_of_parsed:
  assumes "url_parse s = Some u" and "info_of_url u = Inr info"
  shows "length (ri_full_path info) + 2 \<le> length s"
    and "s = ''https://'' @ x \<Longrightarrow> length (ri_full_path info) \<le> length x \<and>
       (length (ri_full_path info) = length x \<longrightarrow> ri_full_path info = x)"
proof -
  have h: "u_host u \<noteq> []" using assms(2) by (auto simp: info_of_url_def split: if_splits)
  note len = info_of_url_length [OF assms(2) url_parse_path [OF assms(1) h]]
  obtain pre where pre: "prefix (pre @ ''//'') s"
    "length (u_host u) + length (u_path u) \<le> length s - length (pre @ ''//'')"
    "length (u_host u) + length (u_path u) = length s - length (pre @ ''//'') \<longrightarrow>
          s = pre @ ''//'' @ u_host u @ u_path u"
    "CHR ''/'' \<notin> set pre" using url_parse_host(2) [OF assms(1) h] by blast
  have "length (pre @ ''//'') \<le> length s" using prefix_length_le [OF pre(1)] .
  with pre(2) len(1) show "length (ri_full_path info) + 2 \<le> length s" by simp
  assume s: "s = ''https://'' @ x"
  from pre(1) s obtain z where z: "pre @ CHR ''/'' # CHR ''/'' # z = ''https:'' @ CHR ''/'' # CHR ''/'' # x"
    by (auto simp: prefix_def)
  have tw: "takeWhile (\<lambda>c. c \<noteq> CHR ''/'') (p @ CHR ''/'' # r) = p" if "CHR ''/'' \<notin> set p" for p r
    using that by (induction p) auto
  have pe: "pre = ''https:''"
    using tw [of pre "CHR ''/'' # z"] tw [of "''https:''" "CHR ''/'' # x"] z pre(4) by simp
  have le: "length (u_host u) + length (u_path u) \<le> length x"
    using pre(2) unfolding pe s by simp
  have eq: "x = u_host u @ u_path u" if "length (u_host u) + length (u_path u) = length x"
  proof -
    have "length s - length (pre @ ''//'') = length x" unfolding pe s by simp
    with that pre(3) have "drop 8 s = drop 8 (pre @ ''//'' @ u_host u @ u_path u)" by simp
    then show ?thesis unfolding pe s by simp
  qed
  show "length (ri_full_path info) \<le> length x \<and>
       (length (ri_full_path info) = length x \<longrightarrow> ri_full_path info = x)"
  proof
    show "length (ri_full_path info) \<le> length x" using len(1) le by linarith
    show "length (ri_full_path info) = length x \<longrightarrow> ri_full_path info = x"
    proof
      assume f: "length (ri_full_path info) = length x"
      then have "length (u_host u) + length (u_path u) = length x" using len(1) le by linarith
      with len(2) eq f show "ri_full_path info = x" by metis
    qed
  qed
qed

definition colons :: "string \<Rightarrow> nat" where
  "colons s = count_list s (CHR '':'')"

lemma parse_to_parse:
  assumes "parse_repository_url raw = Inr info" and "normalize_url raw = Inr (To_Parse s)"
  shows "\<exists>u. url_parse s = Some u \<and> info_of_url u = Inr info"
  using assms by (simp add: parse_repository_url_def split: option.splits)

lemma parse_shortens:
  assumes "parse_repository_url raw = Inr info" and "ri_full_path info \<noteq> raw"
  shows "length (ri_full_path info) < length raw
     \<or> length (ri_full_path info) = length raw \<and> colons (ri_full_path info) < colons raw"
proof -
  let ?f = "ri_full_path info"
  obtain n where n: "normalize_url raw = Inr n" using assms(1)
    by (auto simp: parse_repository_url_def split: sum.splits)
  show ?thesis
  proof (cases "has_scheme_separator raw")
    case True
    then have "normalize_explicit_network_url raw = Inr n" using n
      by (auto simp: normalize_url_def split: if_splits)
    then obtain u where u: "url_parse raw = Some u"
      and shape: "n = To_Parse raw \<or> (\<exists>v. n = Reassembled v \<and> u_host v = u_host u \<and> u_path v = u_path u)"
      by (auto simp: normalize_explicit_network_url_def split: option.splits if_splits)
    have "info_of_url u = Inr info"
      using shape
    proof
      assume "n = To_Parse raw"
      with assms(1) n u show ?thesis unfolding parse_repository_url_def by simp
    next
      assume "\<exists>v. n = Reassembled v \<and> u_host v = u_host u \<and> u_path v = u_path u"
      then obtain v where v: "n = Reassembled v" "u_host v = u_host u" "u_path v = u_path u" by blast
      have "info_of_url v = Inr info" using assms(1) n v(1) unfolding parse_repository_url_def by simp
      then show ?thesis unfolding info_of_url_def v(2) v(3) .
    qed
    from info_of_parsed(1) [OF u this] show ?thesis by simp
  next
    case False
    show ?thesis
    proof (cases "split_scp_like_url raw")
      case None
      from n False None have "\<exists>s. n = To_Parse s \<and> (s = raw \<or> s = ''https://'' @ raw)"
        by (auto simp: normalize_url_def split: if_splits)
      then obtain s where ns: "n = To_Parse s" and s: "s = raw \<or> s = ''https://'' @ raw" by blast
      from parse_to_parse [OF assms(1) n [unfolded ns]] obtain u
        where u: "url_parse s = Some u" "info_of_url u = Inr info" by blast
      from s show ?thesis
      proof
        assume "s = raw"
        with info_of_parsed(1) [OF u] show ?thesis by simp
      next
        assume "s = ''https://'' @ raw"
        from info_of_parsed(2) [OF u this] assms(2) show ?thesis by (auto simp: le_less)
      qed
    next
      case (Some q)
      obtain host rp user where q: "q = (host, rp, user)" by (cases q)
      let ?x = "host @ ''/'' @ trim_left_char (CHR ''/'') rp"
      from n False Some q have "n = To_Parse (''https://'' @ ?x)"
        by (simp add: normalize_url_def split: if_splits)
      from parse_to_parse [OF assms(1) n [unfolded this]] obtain u
        where u: "url_parse (''https://'' @ ?x) = Some u" "info_of_url u = Inr info" by blast
      note bound = info_of_parsed(2) [OF u refl]
      note parts = split_scp_parts(1) [OF Some [unfolded q]]
      have tl: "length (trim_left_char (CHR ''/'') rp) \<le> length rp" by (rule trim_left_char_length)
      show ?thesis
      proof (cases "length ?f = length raw")
        case True
        with bound parts tl have "length ?x = length raw" by auto
        with True bound parts tl have f: "?f = ?x" "raw = host @ '':'' @ rp"
          "length (trim_left_char (CHR ''/'') rp) = length rp" by auto
        with trim_left_char_id have "?f = host @ ''/'' @ rp" by metis
        with f(2) True show ?thesis by (simp add: colons_def)
      next
        case False
        with bound parts tl show ?thesis by auto
      qed
    qed
  qed
qed

lemma trim_space_shrinks: "length (trim_space s) < length s \<or> trim_space s = s"
proof -
  have "length (trim_right_space (trim_left_space s)) = length (trim_left_space s) \<Longrightarrow>
      trim_right_space (trim_left_space s) = trim_left_space s"
    using trim_right_prefix by (metis append_eq_append_conv append_self_conv prefix_def)
  moreover have "length (trim_left_space s) = length s \<Longrightarrow> trim_left_space s = s"
    unfolding trim_left_space_def using strip_seqs_suffix [of space_seqs s]
    by (metis append_eq_append_conv append_self_conv2 suffix_def)
  moreover have "length (trim_left_space s) \<le> length s"
    unfolding trim_left_space_def using strip_seqs_suffix by (rule suffix_length_le)
  moreover have "length (trim_right_space (trim_left_space s)) \<le> length (trim_left_space s)"
    using trim_right_prefix by (rule prefix_length_le)
  ultimately show ?thesis unfolding trim_space_def by (metis le_less order_less_le_trans order_le_less_trans)
qed

function canonical_info :: "string \<Rightarrow> repository_info option" where
  "canonical_info raw =
     (let r = trim_space raw in
      if \<not> passes_prechecks r then None
      else case parse_canonical_authority_slug r of
        Some info \<Rightarrow> Some info
      | None \<Rightarrow>
          (case parse_repository_url r of
             Inl _ \<Rightarrow> None
           | Inr info \<Rightarrow>
               if trim_space (ri_full_path info) = [] then None
               else if ri_full_path info \<noteq> r
               then (case canonical_info (ri_full_path info) of
                       None \<Rightarrow> None
                     | Some again \<Rightarrow>
                         if ri_full_path again \<noteq> ri_full_path info then None else Some info)
               else Some info))"
  by pat_completeness auto
termination
proof (relation "measures [length, colons]")
  fix raw r info
  assume r: "r = trim_space raw" and i: "parse_repository_url r = Inr info" and "ri_full_path info \<noteq> r"
  from parse_shortens [OF i this(3)] trim_space_shrinks [of raw] r
  show "(ri_full_path info, raw) \<in> measures [length, colons]" by auto
qed simp

declare canonical_info.simps [simp del]

definition canonical_repository_identity :: "string \<Rightarrow> string option" where
  "canonical_repository_identity raw = map_option ri_full_path (canonical_info raw)"

definition has_explicit_remote_syntax :: "string \<Rightarrow> bool" where
  "has_explicit_remote_syntax raw \<longleftrightarrow> CHR '':'' \<in> set (before (CHR ''/'') raw)"

definition canonical_info_from_remote :: "string \<Rightarrow> repository_info option" where
  "canonical_info_from_remote raw =
     (let r = trim_space raw in
      if \<not> has_explicit_remote_syntax r \<or> \<not> passes_prechecks r then None
      else case parse_repository_url r of
        Inl _ \<Rightarrow> None
      | Inr info \<Rightarrow>
          if trim_space (ri_full_path info) = [] then None
          else (case canonical_info (ri_full_path info) of
                  None \<Rightarrow> None
                | Some again \<Rightarrow> if ri_full_path again \<noteq> ri_full_path info then None else Some info))"

definition canonical_identity_from_remote :: "string \<Rightarrow> string option" where
  "canonical_identity_from_remote raw = map_option ri_full_path (canonical_info_from_remote raw)"

subsection \<open>Folding\<close>

definition host_without_port :: "string \<Rightarrow> string" where
  "host_without_port authority =
     (case split_host_port authority of Some (host, _) \<Rightarrow> host | None \<Rightarrow> authority)"

definition case_insensitive_hosts :: "string set" where
  "case_insensitive_hosts = {''bitbucket.org'', ''codeberg.org'', ''github.com'', ''gitlab.com''}"

definition fold_repository_identity :: "string \<Rightarrow> string" where
  "fold_repository_identity identity =
     (let i = trim_space identity in
      if i = [] then []
      else case cut i (CHR ''/'') of (authority, remainder, ok) \<Rightarrow>
        let a = to_lower authority in
        if \<not> ok then a
        else if host_without_port a \<in> case_insensitive_hosts then a @ ''/'' @ to_lower remainder
        else a @ ''/'' @ remainder)"

subsection \<open>Fallback identities and paths of worktrees\<close>

definition is_local_fallback_identity :: "string \<Rightarrow> bool" where
  "is_local_fallback_identity v \<longleftrightarrow>
     (let t = trim_space v in t = ''local'' \<or> has_prefix t ''local/'')"

definition is_absolute_slash_path :: "string \<Rightarrow> bool" where
  "is_absolute_slash_path v =
     (let t = trim_space v; slashed = map (\<lambda>c. if c = CHR 0x5C then CHR ''/'' else c) t in
      if t = [] then False
      else is_abs t \<or> has_prefix slashed ''/'' \<or> looks_like_windows_drive_path slashed)"

definition is_path_fallback_identity :: "string \<Rightarrow> bool" where
  "is_path_fallback_identity v \<longleftrightarrow> is_local_fallback_identity v \<or> is_absolute_slash_path v"

definition upper_hex :: "nat \<Rightarrow> char" where
  "upper_hex n = (if n < 10 then byte (48 + n) else byte (55 + n))"

definition filesystem_safe :: "char \<Rightarrow> bool" where
  "filesystem_safe c \<longleftrightarrow> is_alnum c \<or> c \<in> set ''-._~''"

definition encode_filesystem_component :: "string \<Rightarrow> string" where
  "encode_filesystem_component s =
     concat (map (\<lambda>c. if filesystem_safe c then [c]
                      else [CHR ''%'', upper_hex (code c div 16), upper_hex (code c mod 16)]) s)"

definition repository_info_for_filesystem :: "repository_info \<Rightarrow> repository_info" where
  "repository_info_for_filesystem info =
     info\<lparr>ri_host := encode_filesystem_component (ri_host info),
          ri_full_path :=
            (case cut (ri_full_path info) (CHR ''/'') of (authority, remainder, ok) \<Rightarrow>
               if ok then encode_filesystem_component authority @ ''/'' @ remainder
               else encode_filesystem_component (ri_full_path info))\<rparr>"

definition generate_worktree_path :: "string \<Rightarrow> repository_info \<Rightarrow> string \<Rightarrow> string" where
  "generate_worktree_path base info branch =
     join_elems [base, ri_full_path (repository_info_for_filesystem info), sanitize_for_filesystem branch]"

definition parse_worktree_path :: "string \<Rightarrow> string \<Rightarrow> (repository_info \<times> string) option" where
  "parse_worktree_path worktree base =
     (case rel_path base worktree of
        None \<Rightarrow> None
      | Some rel \<Rightarrow>
          let parts = split_all (CHR ''/'') rel in
          if length parts < 4 then None
          else let ps = butlast parts in
            Some (\<lparr>ri_host = hd ps, ri_owner = ps ! 1, ri_name = last ps,
                   ri_full_path = join_elems ps\<rparr>, last parts))"

end
