(* ===== verification/Fleet.thy ===== *)
theory Fleet
  imports Repo_Url "HOL-Library.AList" "HOL-Library.Multiset" "HOL-Library.Product_Lexorder"
begin

text \<open>
  The fleet hub: the store of host manifests (\<open>internal/fleet/store.go\<close>), the state it groups them
  into, the identifiers of hosts (\<open>identity.go\<close>) and the status table (\<open>render.go\<close>). The file is what
  its JSON decodes to; a map from host ids is an association list whose order stands for the iteration
  order. Strings are compared bytewise, as in Go.
\<close>

subsection \<open>Manifests\<close>

record host_info =
  hi_hostname :: string
  hi_platform :: string

record project_manifest =
  pm_identity :: string
  pm_name :: string
  pm_local_root :: string

record change_status =
  ch_modified :: int
  ch_added :: int
  ch_deleted :: int
  ch_untracked :: int
  ch_staged :: int
  ch_conflicts :: int

record worktree_manifest =
  wm_project :: string
  wm_kind :: string
  wm_ref :: string
  wm_branch :: string
  wm_path :: string
  wm_head :: string
  wm_head_time :: gtime
  wm_upstream :: string
  wm_ahead :: int
  wm_behind :: int
  wm_status :: change_status
  wm_last_activity :: gtime
  wm_is_main :: bool

record manifest =
  mf_schema :: int
  mf_host_id :: string
  mf_host :: host_info
  mf_observed_at :: gtime
  mf_projects :: "project_manifest list"
  mf_worktrees :: "worktree_manifest list"

record warning =
  wn_code :: string
  wn_host_id :: string
  wn_message :: string

record store_file =
  sf_hosts :: "(string \<times> manifest) list"
  sf_warnings :: "warning list"

definition new_store_file :: store_file where
  "new_store_file = \<lparr>sf_hosts = [], sf_warnings = []\<rparr>"

definition manifest_schema_version :: int where "manifest_schema_version = 1"

definition state_schema_version :: int where "state_schema_version = 1"

subsection \<open>Validation\<close>

definition host_id_char :: "char \<Rightarrow> bool" where
  "host_id_char c \<longleftrightarrow> is_lower c \<or> is_digit c \<or> c \<in> set ''._-''"

definition normalize_host_id :: "string \<Rightarrow> string + string" where
  "normalize_host_id raw =
     (let h = to_lower (trim_space raw) in
      if h = [] then Inl ''host ID is required''
      else if \<not> list_all host_id_char h then Inl (''invalid host ID '' @ go_quote h)
      else Inr h)"

text \<open>\<open>DefaultHostID\<close>; the argument is what the hostname function returns.\<close>

definition default_host_id :: "string + string \<Rightarrow> string + string" where
  "default_host_id hostname = (case hostname of Inl e \<Rightarrow> Inl e | Inr name \<Rightarrow> normalize_host_id name)"

definition normalize_identity :: "string \<Rightarrow> string + string" where
  "normalize_identity raw =
     (case canonical_repository_identity raw of
        None \<Rightarrow> Inl ''repository identity is required''
      | Some i \<Rightarrow> Inr i)"

definition validate_canonical_identity :: "string \<Rightarrow> string \<Rightarrow> string option" where
  "validate_canonical_identity field identity =
     (if trim_space identity = [] then Some (field @ '' is required'')
      else if normalize_identity identity \<noteq> Inr identity
      then Some (field @ '' must be a canonical repository identity such as github.com/owner/repo'')
      else None)"

definition supported_kind :: "string \<Rightarrow> bool" where
  "supported_kind k \<longleftrightarrow> k = ''branch'' \<or> k = ''detached''"

definition check_host_id :: "string \<Rightarrow> string option" where
  "check_host_id h =
     (case normalize_host_id h of
        Inl e \<Rightarrow> Some e
      | Inr n \<Rightarrow> if n \<noteq> h
          then Some (''host ID '' @ go_quote h @ '' must be normalized as '' @ go_quote n) else None)"

definition validate_project :: "nat \<Rightarrow> project_manifest \<Rightarrow> string option" where
  "validate_project i p = validate_canonical_identity (''project '' @ itoa_nat i @ '' identity'') (pm_identity p)"

definition validate_worktree :: "nat \<Rightarrow> worktree_manifest \<Rightarrow> string option" where
  "validate_worktree i w =
     (case validate_canonical_identity (''worktree '' @ itoa_nat i @ '' project identity'') (wm_project w) of
        Some e \<Rightarrow> Some e
      | None \<Rightarrow>
          if trim_space (wm_kind w) = [] then Some (''worktree '' @ itoa_nat i @ '' kind is required'')
          else if \<not> supported_kind (wm_kind w)
          then Some (''worktree '' @ itoa_nat i @ '' kind '' @ go_quote (wm_kind w) @ '' is unsupported'')
          else if trim_space (wm_ref w) = [] then Some (''worktree '' @ itoa_nat i @ '' ref is required'')
          else None)"

text \<open>A loop that returns the first error of its elements.\<close>

fun first_error :: "(nat \<Rightarrow> 'a \<Rightarrow> string option) \<Rightarrow> nat \<Rightarrow> 'a list \<Rightarrow> string option" where
  "first_error f i [] = None"
| "first_error f i (x # xs) = (case f i x of Some e \<Rightarrow> Some e | None \<Rightarrow> first_error f (i + 1) xs)"

definition validate_store_manifest :: "manifest \<Rightarrow> string option" where
  "validate_store_manifest m =
     (if mf_schema m \<noteq> manifest_schema_version
      then Some (''unsupported manifest schema version '' @ itoa (mf_schema m))
      else case check_host_id (mf_host_id m) of
        Some e \<Rightarrow> Some e
      | None \<Rightarrow>
          (case first_error validate_project 0 (mf_projects m) of
             Some e \<Rightarrow> Some e
           | None \<Rightarrow> first_error validate_worktree 0 (mf_worktrees m)))"

subsection \<open>Warnings\<close>

definition warning_key :: "warning \<Rightarrow> string \<times> string \<times> string" where
  "warning_key w = (wn_code w, wn_host_id w, wn_message w)"

definition sort_warnings :: "warning list \<Rightarrow> warning list" where
  "sort_warnings ws = sort_key warning_key ws"

definition same_warning :: "warning \<Rightarrow> warning \<Rightarrow> bool" where
  "same_warning v w \<longleftrightarrow> wn_code v = wn_code w \<and> wn_host_id v = wn_host_id w"

fun replace_warning :: "warning list \<Rightarrow> warning \<Rightarrow> warning list" where
  "replace_warning [] w = [w]"
| "replace_warning (v # vs) w = (if same_warning v w then w # vs else v # replace_warning vs w)"

definition upsert_warning :: "warning list \<Rightarrow> warning \<Rightarrow> warning list" where
  "upsert_warning ws w = sort_warnings (replace_warning ws w)"

text \<open>\<open>Warning.String\<close>.\<close>

definition warning_text :: "warning \<Rightarrow> string" where
  "warning_text w =
     (let m = trim_space (wn_message w); text = (if m = [] then wn_code w else m); h = trim_space (wn_host_id w) in
      if h \<noteq> [] then text @ '' (host '' @ h @ '')'' else text)"

subsection \<open>The store\<close>

text \<open>What reading the file finds, and what the surroundings of one call answer: whether its context is
  over at the \<open>n\<close>-th time it is asked, and the first failure of writing the temporary file and of the
  rename that replaces the store.\<close>

datatype fleet_disk = Missing | Unreadable string | Malformed string | Stored store_file

record store_env =
  se_ctx :: "nat \<Rightarrow> string option"
  se_write :: "string option"
  se_rename :: "string option"

definition read_store :: "store_env \<Rightarrow> nat \<Rightarrow> fleet_disk \<Rightarrow> string + store_file" where
  "read_store env k disk =
     (case se_ctx env k of
        Some e \<Rightarrow> Inl e
      | None \<Rightarrow>
          (case disk of
             Missing \<Rightarrow> Inr new_store_file
           | Unreadable e \<Rightarrow> Inl e
           | Malformed e \<Rightarrow> (case se_ctx env (k + 1) of Some c \<Rightarrow> Inl c | None \<Rightarrow> Inl (''read fleet store: '' @ e))
           | Stored f \<Rightarrow> (case se_ctx env (k + 1) of
                 Some c \<Rightarrow> Inl c
               | None \<Rightarrow> Inr (f\<lparr>sf_warnings := sort_warnings (sf_warnings f)\<rparr>))))"

definition write_store :: "store_env \<Rightarrow> nat \<Rightarrow> store_file \<Rightarrow> fleet_disk \<Rightarrow> fleet_disk \<times> string option" where
  "write_store env k f disk =
     (case se_ctx env k of
        Some e \<Rightarrow> (disk, Some e)
      | None \<Rightarrow>
      (case se_ctx env (k + 1) of
        Some e \<Rightarrow> (disk, Some e)
      | None \<Rightarrow>
      (case se_write env of
        Some e \<Rightarrow> (disk, Some e)
      | None \<Rightarrow>
      (case se_ctx env (k + 2) of
        Some e \<Rightarrow> (disk, Some e)
      | None \<Rightarrow>
      (case se_rename env of
        Some e \<Rightarrow> (disk, Some e)
      | None \<Rightarrow> (Stored (f\<lparr>sf_warnings := sort_warnings (sf_warnings f)\<rparr>), None))))))"

definition host_info_changed :: "manifest \<Rightarrow> manifest \<Rightarrow> bool" where
  "host_info_changed l r \<longleftrightarrow> hi_hostname (mf_host l) \<noteq> hi_hostname (mf_host r)
     \<or> hi_platform (mf_host l) \<noteq> hi_platform (mf_host r)"

definition collision_warning :: "manifest \<Rightarrow> manifest \<Rightarrow> warning" where
  "collision_warning existing m = \<lparr>wn_code = ''host_id_collision'', wn_host_id = mf_host_id m,
     wn_message = ''host ID '' @ go_quote (mf_host_id m) @ '' changed host identity from ''
       @ go_quote (hi_hostname (mf_host existing)) @ ''/'' @ go_quote (hi_platform (mf_host existing)) @ '' to ''
       @ go_quote (hi_hostname (mf_host m)) @ ''/'' @ go_quote (hi_platform (mf_host m))\<rparr>"

definition put_manifest :: "manifest \<Rightarrow> store_file \<Rightarrow> store_file" where
  "put_manifest m f =
     (let ws = (case map_of (sf_hosts f) (mf_host_id m) of
                  Some existing \<Rightarrow>
                    if host_info_changed existing m
                    then upsert_warning (sf_warnings f) (collision_warning existing m) else sf_warnings f
                | None \<Rightarrow> sf_warnings f)
      in \<lparr>sf_hosts = AList.update (mf_host_id m) m (sf_hosts f), sf_warnings = ws\<rparr>)"

definition store_put :: "store_env \<Rightarrow> manifest \<Rightarrow> fleet_disk \<Rightarrow> fleet_disk \<times> string option" where
  "store_put env m disk =
     (case se_ctx env 0 of
        Some e \<Rightarrow> (disk, Some e)
      | None \<Rightarrow>
      (case validate_store_manifest m of
        Some e \<Rightarrow> (disk, Some e)
      | None \<Rightarrow>
      (case se_ctx env 1 of
        Some e \<Rightarrow> (disk, Some e)
      | None \<Rightarrow>
      (case read_store env 2 disk of
        Inl e \<Rightarrow> (disk, Some e)
      | Inr f \<Rightarrow> write_store env 4 (put_manifest m f) disk))))"

definition store_delete :: "store_env \<Rightarrow> string \<Rightarrow> fleet_disk \<Rightarrow> fleet_disk \<times> string option" where
  "store_delete env host disk =
     (case se_ctx env 0 of
        Some e \<Rightarrow> (disk, Some e)
      | None \<Rightarrow>
      (case check_host_id host of
        Some e \<Rightarrow> (disk, Some e)
      | None \<Rightarrow>
      (case se_ctx env 1 of
        Some e \<Rightarrow> (disk, Some e)
      | None \<Rightarrow>
      (case read_store env 2 disk of
        Inl e \<Rightarrow> (disk, Some e)
      | Inr f \<Rightarrow>
          let changed = (map_of (sf_hosts f) host \<noteq> None \<or> list_ex (\<lambda>w. wn_host_id w = host) (sf_warnings f)) in
          if \<not> changed then (disk, None)
          else write_store env 4
                 \<lparr>sf_hosts = AList.delete host (sf_hosts f),
                  sf_warnings = filter (\<lambda>w. wn_host_id w \<noteq> host) (sf_warnings f)\<rparr> disk))))"

subsection \<open>The grouped state\<close>

record host_state =
  hs_host_id :: string
  hs_hostname :: string
  hs_platform :: string
  hs_observed_at :: gtime

record observation =
  ob_host_id :: string
  ob_path :: string
  ob_head :: string
  ob_head_time :: gtime
  ob_upstream :: string
  ob_ahead :: int
  ob_behind :: int
  ob_status :: change_status
  ob_last_activity :: gtime
  ob_observed_at :: gtime
  ob_is_main :: bool

record fleet_row =
  fr_project_identity :: string
  fr_project_name :: string
  fr_kind :: string
  fr_ref :: string
  fr_branch :: string
  fr_observations :: "observation list"

record fleet_state =
  fs_schema :: int
  fs_version :: string
  fs_hosts :: "host_state list"
  fs_rows :: "fleet_row list"
  fs_warnings :: "warning list"

text \<open>\<open>rowKey\<close>, ordered by \<open>compareRowKey\<close>.\<close>

datatype row_key = Row_Key string string string

fun compare_row_key :: "row_key \<Rightarrow> row_key \<Rightarrow> int" where
  "compare_row_key (Row_Key p k r) (Row_Key p' k' r') =
     (let cmp = (\<lambda>s t :: string. if s < t then - 1 else if t < s then 1 else 0) in
      if p \<noteq> p' then cmp p p' else if k \<noteq> k' then cmp k k' else cmp r r')"

instantiation row_key :: linorder
begin

definition less_row_key :: "row_key \<Rightarrow> row_key \<Rightarrow> bool" where
  "less_row_key x y \<longleftrightarrow> compare_row_key x y < 0"

definition less_eq_row_key :: "row_key \<Rightarrow> row_key \<Rightarrow> bool" where
  "less_eq_row_key x y \<longleftrightarrow> compare_row_key x y \<le> 0"

instance
proof
  fix x y z :: row_key
  show "x < y \<longleftrightarrow> x \<le> y \<and> \<not> y \<le> x"
    by (cases x; cases y) (auto simp: less_row_key_def less_eq_row_key_def Let_def split: if_splits)
  show "x \<le> x" by (cases x) (simp add: less_eq_row_key_def)
  show "x \<le> y \<Longrightarrow> y \<le> z \<Longrightarrow> x \<le> z"
    by (cases x; cases y; cases z) (auto simp: less_eq_row_key_def Let_def split: if_splits)
  show "x \<le> y \<Longrightarrow> y \<le> x \<Longrightarrow> x = y"
    by (cases x; cases y) (auto simp: less_eq_row_key_def Let_def split: if_splits)
  show "x \<le> y \<or> y \<le> x"
    by (cases x; cases y) (auto simp: less_eq_row_key_def Let_def split: if_splits)
qed

end

definition key_of_worktree :: "worktree_manifest \<Rightarrow> row_key" where
  "key_of_worktree w = Row_Key (fold_repository_identity (wm_project w)) (wm_kind w) (wm_ref w)"

fun project_names :: "project_manifest list \<Rightarrow> (string \<Rightarrow> string) \<Rightarrow> (string \<Rightarrow> string)" where
  "project_names [] names = names"
| "project_names (p # ps) names =
     (let name = trim_space (pm_name p) in
      if name = [] then project_names ps names
      else let current = names (pm_identity p) in
        project_names ps (if current = [] \<or> name < current then names(pm_identity p := name) else names))"

definition project_name_or_identity :: "string \<Rightarrow> string \<Rightarrow> string" where
  "project_name_or_identity identity name = (let n = trim_space name in if n = [] then identity else n)"

definition update_row_project_name :: "string \<Rightarrow> fleet_row \<Rightarrow> fleet_row" where
  "update_row_project_name name row =
     (let n = trim_space name in
      if n = [] then row
      else if fr_project_name row = fr_project_identity row \<or> n < fr_project_name row
      then row\<lparr>fr_project_name := n\<rparr> else row)"

definition observe :: "manifest \<Rightarrow> worktree_manifest \<Rightarrow> observation" where
  "observe m w = \<lparr>ob_host_id = mf_host_id m, ob_path = wm_path w, ob_head = wm_head w,
     ob_head_time = wm_head_time w, ob_upstream = wm_upstream w, ob_ahead = wm_ahead w,
     ob_behind = wm_behind w, ob_status = wm_status w, ob_last_activity = wm_last_activity w,
     ob_observed_at = mf_observed_at m, ob_is_main = wm_is_main w\<rparr>"

definition row_for :: "(string \<Rightarrow> string) \<Rightarrow> worktree_manifest \<Rightarrow> fleet_row option \<Rightarrow> fleet_row" where
  "row_for names w existing =
     (case existing of
        None \<Rightarrow> \<lparr>fr_project_identity = wm_project w,
                 fr_project_name = project_name_or_identity (wm_project w) (names (wm_project w)),
                 fr_kind = wm_kind w, fr_ref = wm_ref w, fr_branch = wm_branch w, fr_observations = []\<rparr>
      | Some row \<Rightarrow>
          let r = update_row_project_name (names (wm_project w)) row in
          if wm_branch w \<noteq> [] \<and> (fr_branch r = [] \<or> wm_branch w < fr_branch r)
          then r\<lparr>fr_branch := wm_branch w\<rparr> else r)"

definition add_worktree ::
    "manifest \<Rightarrow> (string \<Rightarrow> string) \<Rightarrow> worktree_manifest \<Rightarrow> (row_key \<times> fleet_row) list \<Rightarrow> (row_key \<times> fleet_row) list" where
  "add_worktree m names w rows =
     (let k = key_of_worktree w; row = row_for names w (map_of rows k) in
      AList.update k (row\<lparr>fr_observations := fr_observations row @ [observe m w]\<rparr>) rows)"

definition add_manifest :: "manifest \<Rightarrow> (row_key \<times> fleet_row) list \<Rightarrow> (row_key \<times> fleet_row) list" where
  "add_manifest m rows = fold (add_worktree m (project_names (mf_projects m) (\<lambda>_. []))) (mf_worktrees m) rows"

definition sorted_hosts :: "store_file \<Rightarrow> manifest list" where
  "sorted_hosts f = map (\<lambda>h. the (map_of (sf_hosts f) h)) (sort (map fst (sf_hosts f)))"

definition observation_key :: "observation \<Rightarrow> string \<times> string" where
  "observation_key ob = (ob_host_id ob, ob_path ob)"

definition rows_of :: "store_file \<Rightarrow> (row_key \<times> fleet_row) list" where
  "rows_of f = fold add_manifest (sorted_hosts f) []"

text \<open>The rows in the order of their keys, the observations of each by host and path (\<open>sort.Slice\<close> may
  order equal ones in any way; the model keeps their order). \<open>digest\<close> is the hash of the encoded state.\<close>

definition finish_row :: "fleet_row \<Rightarrow> fleet_row" where
  "finish_row row = row\<lparr>fr_observations := sort_key observation_key (fr_observations row)\<rparr>"

definition build_fleet_state :: "(fleet_state \<Rightarrow> string) \<Rightarrow> store_file \<Rightarrow> fleet_state" where
  "build_fleet_state digest f =
     (let rows = rows_of f;
          state = \<lparr>fs_schema = state_schema_version, fs_version = [],
            fs_hosts = map (\<lambda>m. \<lparr>hs_host_id = mf_host_id m, hs_hostname = hi_hostname (mf_host m),
                hs_platform = hi_platform (mf_host m), hs_observed_at = mf_observed_at m\<rparr>) (sorted_hosts f),
            fs_rows = map (\<lambda>k. finish_row (the (map_of rows k))) (sort (map fst rows)),
            fs_warnings = sort_warnings (sf_warnings f)\<rparr>
      in state\<lparr>fs_version := digest state\<rparr>)"

definition store_state ::
    "(fleet_state \<Rightarrow> string) \<Rightarrow> store_env \<Rightarrow> fleet_disk \<Rightarrow> string + fleet_state" where
  "store_state digest env disk =
     (case se_ctx env 0 of
        Some e \<Rightarrow> Inl e
      | None \<Rightarrow>
      (case read_store env 1 disk of
        Inl e \<Rightarrow> Inl e
      | Inr f \<Rightarrow> (case se_ctx env 3 of Some e \<Rightarrow> Inl e | None \<Rightarrow> Inr (build_fleet_state digest f))))"

end
