(* ===== verification/Fleet_Render.thy ===== *)
theory Fleet_Render
  imports Fleet
begin

text \<open>
  The rows of the fleet status table (\<open>internal/fleet/render.go\<close>). A duration is cut to 64 bits, as
  \<open>Time.Sub\<close> does; the floating-point division of an age into minutes, hours, days and weeks is the
  exact one (they differ only within a rounding error of a boundary). \<open>clock\<close> is the current time,
  asked for only when \<open>now\<close> is the zero time.
\<close>

record status_row =
  sr_project :: string
  sr_ref :: string
  sr_local :: string
  sr_hosts :: string
  sr_sync :: string
  sr_dirty :: string
  sr_freshness :: string

definition render_project :: "fleet_row \<Rightarrow> string" where
  "render_project row =
     (let n = trim_space (fr_project_name row) in if n \<noteq> [] then n else trim_space (fr_project_identity row))"

definition render_ref :: "fleet_row \<Rightarrow> string" where
  "render_ref row = (let b = trim_space (fr_branch row) in if b \<noteq> [] then b else trim_space (fr_ref row))"

definition render_local :: "observation list \<Rightarrow> string \<Rightarrow> string" where
  "render_local obs current =
     (if list_ex (\<lambda>ob. ob_host_id ob = trim_space current) obs then ''present'' else ''missing'')"

definition unique_hosts :: "observation list \<Rightarrow> string list" where
  "unique_hosts obs = sort (remdups (filter (\<lambda>h. h \<noteq> []) (map (\<lambda>ob. trim_space (ob_host_id ob)) obs)))"

definition render_hosts :: "observation list \<Rightarrow> string" where
  "render_hosts obs = (let hs = unique_hosts obs in if hs = [] then ''-'' else join '', '' hs)"

definition base_head :: "observation list \<Rightarrow> string \<Rightarrow> string option" where
  "base_head obs current =
     (let c = trim_space current in
      case (if c \<noteq> [] then find (\<lambda>ob. ob_host_id ob = c) obs else None) of
        Some ob \<Rightarrow> Some (ob_head ob)
      | None \<Rightarrow> (case obs of [] \<Rightarrow> None | ob # _ \<Rightarrow> Some (ob_head ob)))"

definition second :: int where "second = 1000000000"

text \<open>\<open>Time.Sub\<close> saturates at the ends of the 64-bit range.\<close>

definition time_sub :: "gtime \<Rightarrow> gtime \<Rightarrow> int" where
  "time_sub t u = max (- (2 ^ 63)) (min (2 ^ 63 - 1) (t - u))"

definition plural :: "int \<Rightarrow> string \<Rightarrow> string \<Rightarrow> string" where
  "plural n one many = (if n = 1 then ''1 '' @ one @ '' ago'' else itoa n @ '' '' @ many @ '' ago'')"

definition render_age :: "gtime \<Rightarrow> gtime \<Rightarrow> gtime \<Rightarrow> string" where
  "render_age clock observed now =
     (if time_is_zero observed then ''unknown''
      else
        let d = max 0 (time_sub (if time_is_zero now then clock else now) observed);
            minute = 60 * second; hour = 60 * minute; day = 24 * hour; week = 7 * day
        in if d < minute then ''just now''
           else if d < hour then plural (d div minute) ''min'' ''mins''
           else if d < day then plural (d div hour) ''hour'' ''hours''
           else if d < week then plural (d div day) ''day'' ''days''
           else plural (d div week) ''week'' ''weeks'')"

definition render_sync :: "gtime \<Rightarrow> observation list \<Rightarrow> string \<Rightarrow> gtime \<Rightarrow> string" where
  "render_sync clock obs current now =
     (if length obs \<le> 1 then ''same''
      else case base_head obs current of
        None \<Rightarrow> ''same''
      | Some h \<Rightarrow>
          (case find (\<lambda>ob. ob_head ob \<noteq> h) obs of
             None \<Rightarrow> ''same''
           | Some ob \<Rightarrow> ''different: '' @ ob_host_id ob @ '' '' @ render_age clock (ob_observed_at ob) now))"

definition format_count :: "int \<Rightarrow> string \<Rightarrow> string" where
  "format_count n label =
     (if label = ''conflict'' \<and> n \<noteq> 1 then itoa n @ '' conflicts'' else itoa n @ '' '' @ label)"

definition render_change_status :: "change_status \<Rightarrow> string" where
  "render_change_status s =
     join '', '' (map (\<lambda>(n, label). format_count n label) (filter (\<lambda>(n, label). n > 0)
       [(ch_staged s, ''staged''), (ch_modified s, ''modified''), (ch_added s, ''added''),
        (ch_deleted s, ''deleted''), (ch_untracked s, ''untracked''), (ch_conflicts s, ''conflict'')]))"

definition render_dirty :: "observation list \<Rightarrow> string" where
  "render_dirty obs =
     (let ds = map (\<lambda>ob. ob_host_id ob @ '' ('' @ render_change_status (ob_status ob) @ '')'')
                 (filter (\<lambda>ob. render_change_status (ob_status ob) \<noteq> []) obs)
      in if ds = [] then ''clean'' else join '', '' (sort ds))"

fun newest_from :: "gtime \<Rightarrow> observation list \<Rightarrow> gtime" where
  "newest_from newest [] = newest"
| "newest_from newest (ob # obs) =
     (if time_is_zero (ob_observed_at ob) then newest_from newest obs
      else if time_is_zero newest \<or> ob_observed_at ob > newest then newest_from (ob_observed_at ob) obs
      else newest_from newest obs)"

definition newest_observation :: "observation list \<Rightarrow> gtime option" where
  "newest_observation obs = (let n = newest_from 0 obs in if time_is_zero n then None else Some n)"

definition render_freshness :: "gtime \<Rightarrow> observation list \<Rightarrow> gtime \<Rightarrow> string" where
  "render_freshness clock obs now =
     (case newest_observation obs of None \<Rightarrow> ''unknown'' | Some t \<Rightarrow> render_age clock t now)"

definition build_status_row :: "gtime \<Rightarrow> fleet_row \<Rightarrow> string \<Rightarrow> gtime \<Rightarrow> status_row" where
  "build_status_row clock row current now =
     (let obs = fr_observations row in
      \<lparr>sr_project = render_project row, sr_ref = render_ref row, sr_local = render_local obs current,
       sr_hosts = render_hosts obs, sr_sync = render_sync clock obs current now,
       sr_dirty = render_dirty obs, sr_freshness = render_freshness clock obs now\<rparr>)"

definition build_status_rows :: "gtime \<Rightarrow> fleet_state \<Rightarrow> string \<Rightarrow> gtime \<Rightarrow> status_row list" where
  "build_status_rows clock state current now =
     map (\<lambda>row. build_status_row clock row current now) (fs_rows state)"

end
