(* ===== verification/Repo_Url_Spec.thy ===== *)
theory Repo_Url_Spec
  imports Repo_Url
begin

text \<open>
  What canonical repository identities promise: their shape, that they carry no credentials, that
  canonicalizing one again changes nothing (with the exception the code has), and that the file name of
  an authority can be decoded.
\<close>

subsection \<open>Shape\<close>

text \<open>An identity: an authority without user information, and at least two proper components.\<close>

definition identity_shape :: "string \<Rightarrow> bool" where
  "identity_shape i \<longleftrightarrow>
     (\<exists>authority ps. i = authority @ ''/'' @ join ''/'' ps \<and> CHR ''@'' \<notin> set authority \<and>
        CHR ''/'' \<notin> set authority \<and> authority \<noteq> [] \<and> length ps \<ge> 2 \<and> (\<forall>p \<in> set ps. validate_component p))"

lemma shape_intro:
  assumes "repository_info_from_parts a parts = Inr info" and "CHR ''@'' \<notin> set a" and "CHR ''/'' \<notin> set a" and "a \<noteq> []"
  shows "identity_shape (ri_full_path info)"
proof -
  obtain ps where "ri_full_path info = a @ ''/'' @ join ''/'' ps" "length ps = length parts"
    "\<forall>p \<in> set ps. validate_component p" using from_parts_Inr(4) [OF assms(1)] by blast
  with from_parts_Inr(2) [OF assms(1)] assms(2-4) show ?thesis unfolding identity_shape_def by metis
qed

lemma info_shape:
  assumes "info_of_url v = Inr info" and "CHR ''@'' \<notin> set (u_host v)"
  shows "identity_shape (ri_full_path info)"
proof -
  have "u_host v \<noteq> []" "validate_component (u_host v)"
    "repository_info_from_parts (u_host v) (split_all (CHR ''/'') (trim_char (CHR ''/'') (u_path v))) = Inr info"
    using assms(1) by (auto simp: info_of_url_def split: if_splits)
  with assms(2) show ?thesis by (intro shape_intro) (auto simp: validate_component_def)
qed

lemma parsed_shape:
  assumes "parse_repository_url raw = Inr info"
  shows "identity_shape (ri_full_path info)"
proof -
  obtain n where n: "normalize_url raw = Inr n"
    using assms by (cases "normalize_url raw") (auto simp: parse_repository_url_def)
  show ?thesis
  proof (cases n)
    case (To_Parse s)
    with n have ns: "normalize_url raw = Inr (To_Parse s)" by simp
    obtain u where u: "url_parse s = Some u" "info_of_url u = Inr info" using parse_to_parse [OF assms ns] by blast
    then have "u_host u \<noteq> []" by (auto simp: info_of_url_def)
    with u url_parse_host(1) info_shape show ?thesis by blast
  next
    case (Reassembled v)
    with n have "normalize_explicit_network_url raw = Inr (Reassembled v)"
      by (auto simp: normalize_url_def split: if_splits option.splits prod.splits)
    then have "\<exists>u. url_parse raw = Some u \<and> u_host u \<noteq> [] \<and> u_host v = u_host u"
      by (auto simp: normalize_explicit_network_url_def split: option.splits if_splits)
    then have "CHR ''@'' \<notin> set (u_host v)" using url_parse_host(1) by metis
    moreover have "info_of_url v = Inr info" using assms n Reassembled by (simp add: parse_repository_url_def)
    ultimately show ?thesis by (rule info_shape [rotated])
  qed
qed

lemma slug_shape:
  assumes "parse_canonical_authority_slug raw = Some info"
  shows "identity_shape (ri_full_path info)"
proof -
  obtain a rest ok where c: "cut raw (CHR ''/'') = (a, rest, ok)" by (cases "cut raw (CHR ''/'')")
  with assms have ok: "ok" by (simp add: parse_canonical_authority_slug_def split: if_splits)
  obtain h p where hp: "split_host_port a = Some (h, p)" "is_numeric_port p" "is_canonical_authority_host h"
    using assms c by (auto simp: parse_canonical_authority_slug_def split: option.splits if_splits)
  have fp: "repository_info_from_parts a (split_all (CHR ''/'') rest) = Inr info"
    using assms c hp by (auto simp: parse_canonical_authority_slug_def split: if_splits sum.splits)
  have dig: "CHR ''@'' \<notin> set p" using hp(2) by (auto simp: is_numeric_port_def list_all_iff is_digit_def code_def)
  have "CHR ''/'' \<notin> set a" using cut_ok [of raw "CHR ''/''" a rest] c ok by simp
  moreover have "CHR ''@'' \<notin> set a \<and> a \<noteq> []"
    using split_host_port_parts [OF hp(1)] hp(3) dig by (auto simp: is_canonical_authority_host_def)
  ultimately show ?thesis using fp by (intro shape_intro) auto
qed

text \<open>The ways a configured value and a remote get their identity.\<close>

lemma canonical_info_cases:
  assumes "canonical_info raw = Some info"
  obtains (slug) "parse_canonical_authority_slug (trim_space raw) = Some info"
  | (parsed) "parse_canonical_authority_slug (trim_space raw) = None"
      "parse_repository_url (trim_space raw) = Inr info"
      "ri_full_path info = trim_space raw \<or> map_option ri_full_path (canonical_info (ri_full_path info)) = Some (ri_full_path info)"
proof (cases "parse_canonical_authority_slug (trim_space raw)")
  case (Some x)
  with assms have "x = info" by (subst (asm) canonical_info.simps) (simp add: Let_def split: if_splits)
  with Some show ?thesis using slug by blast
next
  case None
  with assms obtain i where i: "parse_repository_url (trim_space raw) = Inr i"
    by (subst (asm) canonical_info.simps) (auto simp: Let_def split: if_splits sum.splits)
  with assms None have "i = info \<and> (ri_full_path info = trim_space raw \<or>
      map_option ri_full_path (canonical_info (ri_full_path info)) = Some (ri_full_path info))"
    by (subst (asm) canonical_info.simps) (auto simp: Let_def split: if_splits option.splits)
  with i None show ?thesis using parsed by blast
qed

lemma canonical_info_from_remote_Some:
  assumes "canonical_info_from_remote raw = Some info"
  shows "parse_repository_url (trim_space raw) = Inr info"
    and "map_option ri_full_path (canonical_info (ri_full_path info)) = Some (ri_full_path info)"
proof -
  obtain i where i: "parse_repository_url (trim_space raw) = Inr i"
    using assms by (auto simp: canonical_info_from_remote_def Let_def split: if_splits sum.splits)
  with assms have "i = info \<and> map_option ri_full_path (canonical_info (ri_full_path info)) = Some (ri_full_path info)"
    by (auto simp: canonical_info_from_remote_def Let_def split: if_splits option.splits)
  with i show "parse_repository_url (trim_space raw) = Inr info"
    "map_option ri_full_path (canonical_info (ri_full_path info)) = Some (ri_full_path info)" by simp_all
qed

text \<open>
  No credentials and no path tricks: every canonical identity, of a configured value or of a git
  remote, is an authority without \<open>@\<close> (so no user, password or token of any remote form survives in
  it) followed by at least two components, none of them empty, a dot, two dots or containing a
  separator.
\<close>

theorem canonical_shape:
  assumes "canonical_repository_identity raw = Some i \<or> canonical_identity_from_remote raw = Some i"
  shows "identity_shape i"
  using assms
proof
  assume "canonical_repository_identity raw = Some i"
  then obtain info where c: "canonical_info raw = Some info" "i = ri_full_path info"
    by (auto simp: canonical_repository_identity_def)
  from c(1) show ?thesis by (cases rule: canonical_info_cases) (simp_all add: c(2) slug_shape parsed_shape)
next
  assume "canonical_identity_from_remote raw = Some i"
  then obtain info where c: "canonical_info_from_remote raw = Some info" "i = ri_full_path info"
    by (auto simp: canonical_identity_from_remote_def)
  from canonical_info_from_remote_Some(1) [OF c(1)] show ?thesis by (simp add: c(2) parsed_shape)
qed

subsection \<open>Canonicalizing again\<close>

text \<open>
  C34. Canonicalization is idempotent where the code checks it: the identity of a remote, and that of a
  configured value that is not already an authority with a port, is accepted again and canonicalizes to
  itself.
\<close>

theorem canonical_idempotent:
  assumes "canonical_identity_from_remote raw = Some i
    \<or> canonical_repository_identity raw = Some i \<and> parse_canonical_authority_slug (trim_space raw) = None"
  shows "canonical_repository_identity i = Some i"
  using assms
proof
  assume "canonical_identity_from_remote raw = Some i"
  then obtain info where c: "canonical_info_from_remote raw = Some info" "i = ri_full_path info"
    by (auto simp: canonical_identity_from_remote_def)
  from canonical_info_from_remote_Some(2) [OF c(1)] show ?thesis
    by (simp add: c(2) canonical_repository_identity_def)
next
  assume a: "canonical_repository_identity raw = Some i \<and> parse_canonical_authority_slug (trim_space raw) = None"
  then obtain info where c: "canonical_info raw = Some info" "i = ri_full_path info"
    by (auto simp: canonical_repository_identity_def)
  from c(1) show ?thesis
  proof (cases rule: canonical_info_cases)
    case slug
    with a show ?thesis by simp
  next
    case parsed
    from parsed(3) show ?thesis
    proof
      assume t: "ri_full_path info = trim_space raw"
      have "canonical_info (trim_space raw) = canonical_info raw"
        by (subst (1 2) canonical_info.simps) simp
      with c t show ?thesis by (simp add: canonical_repository_identity_def)
    next
      assume "map_option ri_full_path (canonical_info (ri_full_path info)) = Some (ri_full_path info)"
      with c(2) show ?thesis by (simp add: canonical_repository_identity_def)
    qed
  qed
qed

subsection \<open>Plain slugs\<close>

definition name_char :: "char \<Rightarrow> bool" where
  "name_char c \<longleftrightarrow> is_alnum c \<or> c \<in> set ''-_.''"

definition slug_char :: "char \<Rightarrow> bool" where
  "slug_char c \<longleftrightarrow> name_char c \<or> c = CHR '':''"

text \<open>A host and at least two path components of ordinary characters, colons allowed in the path.\<close>

definition plain_slug :: "string \<Rightarrow> string list \<Rightarrow> bool" where
  "plain_slug a ps \<longleftrightarrow> a \<noteq> [] \<and> hd a \<noteq> CHR ''.'' \<and> (\<forall>c \<in> set a. name_char c) \<and> length ps \<ge> 2 \<and>
     (\<forall>p \<in> set ps. p \<noteq> [] \<and> p \<noteq> ''.'' \<and> p \<noteq> ''..'' \<and> (\<forall>c \<in> set p. slug_char c)) \<and>
     \<not> has_suffix (last ps) ''.git''"

definition slug_text :: "string \<Rightarrow> string list \<Rightarrow> string" where
  "slug_text a ps = a @ CHR ''/'' # join ''/'' ps"

lemmas char_defs = name_char_def slug_char_def is_alnum_def is_digit_def is_upper_def is_lower_def code_def

lemma name_char_facts:
  assumes "name_char c"
  shows "c \<noteq> CHR ''/''" "c \<noteq> CHR '':''" "c \<noteq> CHR ''@''" "c \<noteq> CHR ''%''" "c \<noteq> CHR ''[''" "c \<noteq> CHR ''~''" "host_char c"
    "slug_char c"
  using assms by (auto simp: char_defs host_char_def)

lemma slug_char_facts:
  assumes "slug_char c"
  shows "c \<noteq> CHR ''/''" "c \<noteq> CHR ''@''" "c \<noteq> CHR ''%''" "c \<noteq> CHR ''#''" "c \<noteq> CHR ''?''" "c \<noteq> CHR 0x5C" "is_graphic c"
  using assms by (auto simp: char_defs is_graphic_def)

lemma join_chars: "set (join sep ps) \<subseteq> \<Union> (set ` set ps) \<union> set sep"
  by (induction sep ps rule: join.induct) auto

lemma split_all_append: "split_all c (x @ c # s) = split_all c x @ split_all c s"
proof (induction x)
  case (Cons y x)
  then show ?case by (cases "split_all c x") (auto split: list.split)
qed simp

lemma plain_facts:
  assumes "plain_slug a ps"
  shows "CHR ''/'' \<notin> set a" "CHR '':'' \<notin> set a" "CHR ''@'' \<notin> set a" "CHR ''['' \<notin> set a" "CHR ''%'' \<notin> set a"
    "CHR ''~'' \<notin> set a" "a \<noteq> []" "ps \<noteq> []" "\<forall>p \<in> set ps. CHR ''/'' \<notin> set p"
    "\<forall>c \<in> set (slug_text a ps). slug_char c \<or> c = CHR ''/''"
proof -
  have a: "\<forall>c \<in> set a. name_char c" and p: "\<forall>p \<in> set ps. \<forall>c \<in> set p. slug_char c"
    using assms by (simp_all add: plain_slug_def)
  show "CHR ''/'' \<notin> set a" using name_char_facts(1) a by blast
  show "CHR '':'' \<notin> set a" using name_char_facts(2) a by blast
  show "CHR ''@'' \<notin> set a" using name_char_facts(3) a by blast
  show "CHR ''['' \<notin> set a" using name_char_facts(5) a by blast
  show "CHR ''%'' \<notin> set a" using name_char_facts(4) a by blast
  show "CHR ''~'' \<notin> set a" using name_char_facts(6) a by blast
  show "a \<noteq> []" using assms by (simp add: plain_slug_def)
  show "ps \<noteq> []" using assms by (auto simp: plain_slug_def)
  show "\<forall>p \<in> set ps. CHR ''/'' \<notin> set p" using slug_char_facts(1) p by blast
  show "\<forall>c \<in> set (slug_text a ps). slug_char c \<or> c = CHR ''/''"
    using a p name_char_facts(8) join_chars [of "''/''" ps] by (fastforce simp: slug_text_def)
qed

lemma slug_text_absent:
  assumes "plain_slug a ps"
  shows "CHR ''@'' \<notin> set (slug_text a ps)" "CHR ''%'' \<notin> set (slug_text a ps)" "CHR ''#'' \<notin> set (slug_text a ps)"
    "CHR ''?'' \<notin> set (slug_text a ps)" "CHR 0x5C \<notin> set (slug_text a ps)" "\<forall>c \<in> set (slug_text a ps). is_graphic c"
proof -
  have g: "is_graphic (CHR ''/'')" by (simp add: is_graphic_def code_def)
  show "CHR ''@'' \<notin> set (slug_text a ps)" using slug_char_facts(2) plain_facts(10) [OF assms] by force
  show "CHR ''%'' \<notin> set (slug_text a ps)" using slug_char_facts(3) plain_facts(10) [OF assms] by force
  show "CHR ''#'' \<notin> set (slug_text a ps)" using slug_char_facts(4) plain_facts(10) [OF assms] by force
  show "CHR ''?'' \<notin> set (slug_text a ps)" using slug_char_facts(5) plain_facts(10) [OF assms] by force
  show "CHR 0x5C \<notin> set (slug_text a ps)" using slug_char_facts(6) plain_facts(10) [OF assms] by force
  show "\<forall>c \<in> set (slug_text a ps). is_graphic c" using slug_char_facts(7) plain_facts(10) [OF assms] g by blast
qed

lemma no_double_slash:
  assumes "plain_slug a ps"
  shows "slug_text a ps \<noteq> x @ CHR ''/'' # CHR ''/'' # y"
proof
  let ?s = "CHR ''/''"
  assume eq: "slug_text a ps = x @ ?s # ?s # y"
  have all: "\<forall>p \<in> set (a # ps). ?s \<notin> set p \<and> p \<noteq> []" and ne: "ps \<noteq> []"
    using assms plain_facts(1,8,9) [OF assms] by (auto simp: plain_slug_def)
  have "slug_text a ps = join ''/'' (a # ps)" using ne by (simp add: slug_text_def join_Cons)
  then have "split_all ?s (slug_text a ps) = a # ps" using all by (simp add: split_all_join)
  moreover have "[] \<in> set (split_all ?s (x @ ?s # ?s # y))" by (simp add: split_all_append)
  ultimately show False using eq all by (metis)
qed

lemma cut_slug: "CHR ''/'' \<notin> set a \<Longrightarrow> cut (slug_text a ps) (CHR ''/'') = (a, join ''/'' ps, True)"
  by (simp add: slug_text_def cut_append)

lemma before_slug: "CHR ''/'' \<notin> set a \<Longrightarrow> before (CHR ''/'') (slug_text a ps) = a"
  and from_first_slug: "CHR ''/'' \<notin> set a \<Longrightarrow> from_first (CHR ''/'') (slug_text a ps) = CHR ''/'' # join ''/'' ps"
  by (induction a) (auto simp: slug_text_def before_def from_first_def)

lemma scp_slug: "CHR '':'' \<notin> set a \<Longrightarrow> scp_delimiter i (a @ CHR ''/'' # s) = None"
  by (induction a arbitrary: i) auto

lemma unescape_same:
  "\<forall>c \<in> set s. c \<noteq> CHR ''%'' \<and> (m = Host_Mode \<longrightarrow> host_char c) \<Longrightarrow> unescape m s = Some s"
  by (induction s) auto

lemma before_absent: "c \<notin> set s \<Longrightarrow> before c s = s" and from_first_absent: "c \<notin> set s \<Longrightarrow> from_first c s = []"
  by (induction s) (auto simp: before_def from_first_def)

lemma slug_trim: "plain_slug a ps \<Longrightarrow> trim_space (slug_text a ps) = slug_text a ps"
proof (rule trim_space_graphic)
  assume p: "plain_slug a ps"
  show ne: "slug_text a ps \<noteq> []" by (simp add: slug_text_def)
  show "is_graphic (hd (slug_text a ps))" "is_graphic (last (slug_text a ps))"
    using slug_text_absent(6) [OF p] ne by auto
qed

lemma slug_no_scheme: "plain_slug a ps \<Longrightarrow> cut_at ''://'' (slug_text a ps) = None"
proof (rule ccontr)
  assume p: "plain_slug a ps" and "cut_at ''://'' (slug_text a ps) \<noteq> None"
  then obtain x y where "cut_at ''://'' (slug_text a ps) = Some (x, y)" by auto
  then have "slug_text a ps = (x @ '':'') @ CHR ''/'' # CHR ''/'' # y" using cut_at_Some by fastforce
  with no_double_slash [OF p] show False by blast
qed

lemma slug_not_scp: "plain_slug a ps \<Longrightarrow> split_scp_like_url (slug_text a ps) = None"
  using scp_slug [OF plain_facts(2)] by (simp add: split_scp_like_url_def slug_text_def)

lemma slug_no_port: "plain_slug a ps \<Longrightarrow> split_host_port a = None"
  using plain_facts(2) by (simp add: split_host_port_def cut_last_def)

lemma slug_candidate:
  assumes "plain_slug a ps" and "a \<noteq> ''local'' \<or> CHR '':'' \<in> set (slug_text a ps)"
  shows "passes_prechecks (slug_text a ps)"
proof -
  note f = plain_facts [OF assms(1)]
  obtain x as where a: "a = x # as" using f(7) by (cases a) auto
  have "x \<noteq> CHR ''.''" using assms(1) a by (simp add: plain_slug_def)
  have drive: "\<not> looks_like_windows_drive_path (slug_text a ps)"
    using f(1,2) a by (cases as) (auto simp: looks_like_windows_drive_path_def slug_text_def)
  have "is_canonical_identity_candidate (slug_text a ps)"
    using slug_text_absent(5) [OF assms(1)] f(1,6) a \<open>x \<noteq> CHR ''.''\<close> assms(2) drive
      before_slug [OF f(1), of ps] slug_no_scheme [OF assms(1)]
    by (auto simp: is_canonical_identity_candidate_def is_abs_def has_prefix_def contains_char_def slug_text_def)
  moreover have "\<not> has_credential_bearing_authority_slug (slug_text a ps)"
    by (simp add: has_credential_bearing_authority_slug_def cut_slug [OF f(1)] f(3))
  moreover have "\<not> has_ambiguous_scp_credential_path (slug_text a ps)"
    by (simp add: has_ambiguous_scp_credential_path_def slug_not_scp [OF assms(1)])
  ultimately show ?thesis by (simp add: passes_prechecks_def)
qed

lemma slug_not_helper:
  assumes "plain_slug a ps"
  shows "\<not> is_remote_helper_url (slug_text a ps)"
proof (cases "cut_at ''::'' (slug_text a ps)")
  case (Some q)
  obtain x y where q: "q = (x, y)" by (cases q)
  have eq: "a @ CHR ''/'' # join ''/'' ps = x @ CHR '':'' # CHR '':'' # y"
    using cut_at_Some [OF Some [unfolded q]] by (simp add: slug_text_def)
  note f = plain_facts [OF assms]
  have "CHR ''/'' \<in> set (tl x) \<and> x \<noteq> []"
  proof -
    from eq obtain us where "a = x @ us \<and> us @ CHR ''/'' # join ''/'' ps = CHR '':'' # CHR '':'' # y \<or>
        a @ us = x \<and> CHR ''/'' # join ''/'' ps = us @ CHR '':'' # CHR '':'' # y"
      by (auto simp: append_eq_append_conv2)
    then show ?thesis
    proof
      assume l: "a = x @ us \<and> us @ CHR ''/'' # join ''/'' ps = CHR '':'' # CHR '':'' # y"
      then have "us = [] \<or> CHR '':'' \<in> set us" by (cases us) auto
      with l f(2) show ?thesis by auto
    next
      assume r: "a @ us = x \<and> CHR ''/'' # join ''/'' ps = us @ CHR '':'' # CHR '':'' # y"
      then have "CHR ''/'' \<in> set us" by (cases us) auto
      with r f(7) show ?thesis by (cases a) auto
    qed
  qed
  moreover have "\<not> is_scheme_char (CHR ''/'')" by (simp add: is_scheme_char_def char_defs)
  ultimately have "\<not> list_all is_scheme_char (tl x)" and "x \<noteq> []" by (auto simp: list_all_iff)
  with Some q show ?thesis by (simp add: is_remote_helper_url_def)
qed (simp add: is_remote_helper_url_def)

lemma slug_not_file:
  assumes "plain_slug a ps"
  shows "\<not> has_prefix (to_lower (slug_text a ps)) ''file:''"
proof
  assume pre: "has_prefix (to_lower (slug_text a ps)) ''file:''"
  note f = plain_facts [OF assms]
  have "\<forall>c \<in> set (slug_text a ps). code c < 128"
    using slug_text_absent(6) [OF assms] by (auto simp: is_graphic_def)
  then have low: "to_lower (slug_text a ps) = map lower_char (slug_text a ps)"
    by (simp add: to_lower_ascii ascii_lower_def)
  have lc: "lower_char c = CHR '':'' \<longleftrightarrow> c = CHR '':''" for c
  proof
    assume l: "lower_char c = CHR '':''"
    then have "\<not> is_upper c" by (auto simp: lower_char_def is_upper_def byte_def dest!: arg_cong [of _ _ code] simp: code_def)
    with l show "c = CHR '':''" by (simp add: lower_char_def)
  qed (simp add: lower_char_def char_defs)
  have ls: "lower_char (CHR ''/'') = CHR ''/''" by (simp add: lower_char_def char_defs)
  obtain z where z: "map lower_char (slug_text a ps) = ''file:'' @ z"
    using pre unfolding low has_prefix_def prefix_def by blast
  have "set (take 5 (map lower_char (slug_text a ps))) = set ''file:''" unfolding z by simp
  then have st: "lower_char ` set (take 5 (slug_text a ps)) = set ''file:''" by (simp only: take_map list.set_map)
  have no: "CHR ''/'' \<notin> lower_char ` set (take 5 (slug_text a ps))"
    and col: "CHR '':'' \<in> lower_char ` set (take 5 (slug_text a ps))" unfolding st by simp_all
  from no ls have "CHR ''/'' \<notin> set (take 5 (slug_text a ps))" by force
  then have "5 \<le> length a"
  proof (rule contrapos_np)
    assume "\<not> 5 \<le> length a"
    then obtain k where "5 - length a = Suc k" by (cases "5 - length a") auto
    then show "CHR ''/'' \<in> set (take 5 (slug_text a ps))" by (simp add: slug_text_def)
  qed
  then have "take 5 (slug_text a ps) = take 5 a" by (simp add: slug_text_def)
  then have sub: "set (take 5 (slug_text a ps)) \<subseteq> set a" by (simp add: set_take_subset)
  from col obtain c where c: "CHR '':'' = lower_char c" "c \<in> set (take 5 (slug_text a ps))" by (rule imageE)
  have "c = CHR '':''" using lc [THEN iffD1, OF c(1) [symmetric]] .
  moreover have "c \<in> set a" using sub c(2) by (rule subsetD)
  ultimately show False using f(2) by simp
qed

lemma slug_url:
  assumes "plain_slug a ps"
  shows "url_parse (''https://'' @ slug_text a ps) =
     Some \<lparr>u_scheme = ''https'', u_user = None, u_host = a, u_path = CHR ''/'' # join ''/'' ps\<rparr>"
proof -
  note f = plain_facts [OF assms] and g = slug_text_absent [OF assms]
  let ?t = "slug_text a ps" and ?u = "''https://'' @ slug_text a ps"
  have b: "before (CHR ''#'') ?u = ?u" "from_first (CHR ''#'') ?u = []"
    using g(3) by (simp_all add: before_absent from_first_absent)
  have ctl: "\<not> list_ex (\<lambda>c. code c < 32 \<or> code c = 127) ?u"
    using g(6) by (auto simp: list_ex_iff is_graphic_def code_def)
  have star: "?u \<noteq> ''*''" by simp
  have sch: "get_scheme ?u = Some (''https'', ''//'' @ ?t)"
    by (simp add: get_scheme_def is_scheme_char_def char_defs Let_def)
  have q: "before (CHR ''?'') (''//'' @ ?t) = ''//'' @ ?t" using g(4) by (simp add: before_absent)
  have au: "parse_authority a = Some (None, a)"
  proof -
    have "\<forall>c \<in> set a. c \<noteq> CHR ''%'' \<and> host_char c"
      using assms name_char_facts(4,7) by (auto simp: plain_slug_def)
    then have "unescape Host_Mode a = Some a" by (simp add: unescape_same)
    moreover have "\<not> has_prefix a ''[''" using f(4,7) by (cases a) (auto simp: has_prefix_def)
    ultimately have "parse_host a = Some a" using f(2,4) by (simp add: parse_host_def cut_last_def)
    then show ?thesis using f(3) by (simp add: parse_authority_def cut_last_def)
  qed
  have pa: "unescape Path_Mode (CHR ''/'' # join ''/'' ps) = Some (CHR ''/'' # join ''/'' ps)"
    using g(2) by (intro unescape_same) (auto simp: slug_text_def)
  have low: "ascii_lower ''https'' = ''https''" by (simp add: ascii_lower_def lower_char_def char_defs)
  have sl: "has_prefix (''//'' @ ?t) ''/''" "has_prefix (''//'' @ ?t) ''//''" by (simp_all add: has_prefix_def)
  have dr: "drop 2 (''//'' @ ?t) = ?t" by simp
  show ?thesis
    unfolding url_parse_def Let_def b sch option.case prod.case q dr before_slug [OF f(1)] from_first_slug [OF f(1)] au pa
    using ctl star sl by (simp add: low)
qed

lemma trim_char_same:
  assumes "s \<noteq> []" and "hd s \<noteq> c" and "last s \<noteq> c"
  shows "trim_char c (c # s) = s"
proof -
  have drop: "dropWhile (\<lambda>x. x = c) t = t" if "t \<noteq> []" "hd t \<noteq> c" for t
    using that by (cases t) simp_all
  have "hd (rev s) \<noteq> c" using assms by (simp add: hd_rev)
  then show ?thesis using drop [of s] drop [of "rev s"] assms by (simp add: trim_char_def trim_left_char_def)
qed

lemma slug_parse:
  assumes "plain_slug a ps"
  shows "\<exists>info. parse_repository_url (slug_text a ps) = Inr info \<and> ri_full_path info = slug_text a ps"
proof -
  note f = plain_facts [OF assms]
  let ?t = "slug_text a ps" and ?u = "\<lparr>u_scheme = ''https'', u_user = None, u_host = a, u_path = CHR ''/'' # join ''/'' ps\<rparr>"
  have sep: "\<not> has_scheme_separator ?t" using slug_no_scheme [OF assms] by (simp add: has_scheme_separator_def)
  have http: "\<not> (has_prefix ?t ''http://'' \<or> has_prefix ?t ''https://'')"
    using no_double_slash [OF assms, of "''http:''"] no_double_slash [OF assms, of "''https:''"]
    by (auto simp: has_prefix_def prefix_def)
  have norm: "normalize_url ?t = Inr (To_Parse (''https://'' @ ?t))"
    using sep http slug_not_helper [OF assms] slug_not_file [OF assms] slug_not_scp [OF assms]
    by (simp add: normalize_url_def)
  have comp: "\<forall>p \<in> set ps. p \<noteq> [] \<and> p \<noteq> ''.'' \<and> p \<noteq> ''..'' \<and> (\<forall>c \<in> set p. slug_char c)"
    and len: "length ps \<ge> 2" and git: "\<not> has_suffix (last ps) ''.git''"
    using assms by (simp_all add: plain_slug_def)
  have val: "validate_component p" if "p \<in> set ps" for p
    using comp that slug_char_facts(1,6) by (auto simp: validate_component_def)
  have same: "butlast ps @ [trim_suffix (last ps) ''.git''] = ps" using git f(8) by (simp add: trim_suffix_def)
  have ends: "join ''/'' ps \<noteq> [] \<and> hd (join ''/'' ps) \<noteq> CHR ''/'' \<and> last (join ''/'' ps) \<noteq> CHR ''/''"
    using f(8) f(9) comp
  proof (induction ps)
    case (Cons p qs)
    then have p: "p \<noteq> []" "CHR ''/'' \<notin> set p" by auto
    then have "hd p \<noteq> CHR ''/''" "last p \<noteq> CHR ''/''" by (metis hd_in_set, metis last_in_set)
    with Cons p show ?case by (cases "qs = []") (simp_all add: join_Cons)
  qed simp
  have parts: "split_all (CHR ''/'') (trim_char (CHR ''/'') (CHR ''/'' # join ''/'' ps)) = ps"
    using ends f(8,9) by (simp add: trim_char_same split_all_join)
  have fp: "repository_info_from_parts a ps = Inr \<lparr>ri_host = a, ri_owner = hd ps, ri_name = last ps, ri_full_path = ?t\<rparr>"
    using len val same by (simp add: repository_info_from_parts_def Let_def find_None_iff slug_text_def split: option.split)
  have va: "validate_component a"
  proof -
    have "CHR 0x5C \<notin> set a" using slug_text_absent(5) [OF assms] by (simp add: slug_text_def)
    moreover have "hd a \<noteq> CHR ''.''" using assms by (simp add: plain_slug_def)
    ultimately show ?thesis using f(1,7) by (auto simp: validate_component_def)
  qed
  have "\<not> has_suffix a '':''"
  proof
    assume "has_suffix a '':''"
    then have "CHR '':'' \<in> set (rev a)" by (auto simp: has_suffix_def prefix_def)
    with f(2) show False by simp
  qed
  with va f(7) parts fp have "info_of_url ?u = Inr \<lparr>ri_host = a, ri_owner = hd ps, ri_name = last ps, ri_full_path = ?t\<rparr>"
    by (simp add: info_of_url_def)
  then show ?thesis
    unfolding parse_repository_url_def norm sum.case normalized.case slug_url [OF assms] option.case by simp
qed

lemma slug_fixed:
  assumes "plain_slug a ps" and "a \<noteq> ''local'' \<or> CHR '':'' \<in> set (slug_text a ps)"
  shows "canonical_repository_identity (slug_text a ps) = Some (slug_text a ps)"
proof -
  obtain info where i: "parse_repository_url (slug_text a ps) = Inr info" "ri_full_path info = slug_text a ps"
    using slug_parse [OF assms(1)] by blast
  have none: "parse_canonical_authority_slug (slug_text a ps) = None"
    by (simp add: parse_canonical_authority_slug_def cut_slug [OF plain_facts(1) [OF assms(1)]] slug_no_port [OF assms(1)])
  have "slug_text a ps \<noteq> []" by (simp add: slug_text_def)
  then have "canonical_info (slug_text a ps) = Some info"
    using slug_candidate [OF assms] none i slug_trim [OF assms(1)]
    by (subst canonical_info.simps) (simp add: Let_def)
  with i(2) show ?thesis by (simp add: canonical_repository_identity_def)
qed

text \<open>
  A plain slug is its own identity: a host name without a colon and at least two components of
  ordinary characters, the last one not ending in \<open>.git\<close>, is accepted and canonicalizes to exactly itself,
  unless the host is the reserved \<open>local\<close> and the text has no colon.
\<close>

theorem canonical_slug_fixed:
  assumes "plain_slug a ps" and "a \<noteq> ''local'' \<or> CHR '':'' \<in> set (slug_text a ps)"
  shows "canonical_repository_identity (slug_text a ps) = Some (slug_text a ps)"
  using assms by (rule slug_fixed)

theorem canonical_slug_fixed_witness:
  "canonical_repository_identity ''gitlab.com/g/s/r'' = Some ''gitlab.com/g/s/r''"
proof -
  have "plain_slug ''gitlab.com'' [''g'', ''s'', ''r'']" by (simp add: plain_slug_def char_defs has_suffix_def)
  from canonical_slug_fixed [OF this] show ?thesis by (simp add: slug_text_def)
qed

text \<open>
  The reserved namespace is not kept: the identity \<open>local/a:b/c\<close>, which is a fallback identity of a
  local path, passes as a canonical one, because a text with a colon skips the test of the namespace.
\<close>

theorem canonical_local_collision:
  "canonical_repository_identity ''local/a:b/c'' = Some ''local/a:b/c'' \<and> is_local_fallback_identity ''local/a:b/c''"
proof -
  have p: "plain_slug ''local'' [''a:b'', ''c'']" by (simp add: plain_slug_def char_defs has_suffix_def)
  have t: "slug_text ''local'' [''a:b'', ''c''] = ''local/a:b/c''" by (simp add: slug_text_def)
  have "trim_space ''local/a:b/c'' = ''local/a:b/c''" using slug_trim [OF p] by (simp add: t)
  then have "is_local_fallback_identity ''local/a:b/c''" by (simp add: is_local_fallback_identity_def has_prefix_def)
  with slug_fixed [OF p] show ?thesis by (simp add: t)
qed

lemma demo_slug: "canonical_repository_identity ''github.com/o/r'' = Some ''github.com/o/r''"
proof -
  have "plain_slug ''github.com'' [''o'', ''r'']" by (simp add: plain_slug_def char_defs has_suffix_def)
  from slug_fixed [OF this] show ?thesis by (simp add: slug_text_def)
qed

theorem canonical_shape_witness: "identity_shape ''github.com/o/r''"
  using canonical_shape demo_slug by blast

theorem canonical_idempotent_witness:
  "parse_canonical_authority_slug (trim_space ''github.com/o/r'') = None
   \<and> canonical_repository_identity ''github.com/o/r'' = Some ''github.com/o/r''"
proof -
  have p: "plain_slug ''github.com'' [''o'', ''r'']" by (simp add: plain_slug_def char_defs has_suffix_def)
  have t: "slug_text ''github.com'' [''o'', ''r''] = ''github.com/o/r''" by (simp add: slug_text_def)
  have "parse_canonical_authority_slug (trim_space ''github.com/o/r'') = None"
    using cut_slug [OF plain_facts(1) [OF p], of "[''o'', ''r'']"] slug_no_port [OF p] slug_trim [OF p]
    by (simp add: parse_canonical_authority_slug_def t)
  with canonical_idempotent [of "''github.com/o/r''" "''github.com/o/r''"] demo_slug show ?thesis by blast
qed

subsection \<open>Authorities with a port\<close>

text \<open>
  For an authority with a port the identity is returned without the fixed-point check, so
  canonicalizing twice can differ: \<open>host:80/o/r.git.git\<close> gives \<open>host:80/o/r.git\<close>, which gives
  \<open>host:80/o/r\<close>.
\<close>

theorem canonical_not_closed:
  "canonical_repository_identity ''host:80/o/r.git.git'' = Some ''host:80/o/r.git''
   \<and> canonical_repository_identity ''host:80/o/r.git'' = Some ''host:80/o/r''"
proof -
  have trim: "trim_space s = s" if "\<forall>c \<in> set s. is_graphic c" "s \<noteq> []" for s
    using that by (intro trim_space_graphic) auto
  have g: "\<forall>c \<in> set ''host:80/o/r.git.git''. is_graphic c" "\<forall>c \<in> set ''host:80/o/r.git''. is_graphic c"
    "\<forall>c \<in> set ''host''. is_graphic c"
    by (simp_all add: is_graphic_def code_def)
  have pre: "passes_prechecks ''host:80/o/r.git.git''" "passes_prechecks ''host:80/o/r.git''"
    by code_simp+
  have h: "is_canonical_authority_host ''host''" using trim [OF g(3)] by (simp add: is_canonical_authority_host_def)
  have sp: "split_host_port ''host:80'' = Some (''host'', ''80'')" by code_simp
  have port: "is_numeric_port ''80''" by (simp add: is_numeric_port_def is_digit_def code_def)
  have parts: "repository_info_from_parts ''host:80'' [''o'', ''r.git.git''] =
      Inr \<lparr>ri_host = ''host:80'', ri_owner = ''o'', ri_name = ''r.git'', ri_full_path = ''host:80/o/r.git''\<rparr>"
    "repository_info_from_parts ''host:80'' [''o'', ''r.git''] =
      Inr \<lparr>ri_host = ''host:80'', ri_owner = ''o'', ri_name = ''r'', ri_full_path = ''host:80/o/r''\<rparr>"
    by (simp_all add: repository_info_from_parts_def trim_suffix_def has_suffix_def validate_component_def)
  have slug: "parse_canonical_authority_slug ''host:80/o/r.git.git'' =
      Some \<lparr>ri_host = ''host:80'', ri_owner = ''o'', ri_name = ''r.git'', ri_full_path = ''host:80/o/r.git''\<rparr>"
    "parse_canonical_authority_slug ''host:80/o/r.git'' =
      Some \<lparr>ri_host = ''host:80'', ri_owner = ''o'', ri_name = ''r'', ri_full_path = ''host:80/o/r''\<rparr>"
    by (simp_all add: parse_canonical_authority_slug_def sp port h parts)
  have "canonical_info ''host:80/o/r.git.git'' =
      Some \<lparr>ri_host = ''host:80'', ri_owner = ''o'', ri_name = ''r.git'', ri_full_path = ''host:80/o/r.git''\<rparr>"
    using trim [OF g(1)] pre(1) slug(1) by (subst canonical_info.simps) simp
  moreover have "canonical_info ''host:80/o/r.git'' =
      Some \<lparr>ri_host = ''host:80'', ri_owner = ''o'', ri_name = ''r'', ri_full_path = ''host:80/o/r''\<rparr>"
    using trim [OF g(2)] pre(2) slug(2) by (subst canonical_info.simps) simp
  ultimately show ?thesis by (simp add: canonical_repository_identity_def)
qed

subsection \<open>File names of authorities\<close>

lemma hex_round: "n < 16 \<Longrightarrow> is_hex (upper_hex n) \<and> hex_val (upper_hex n) = n"
  by (auto simp: upper_hex_def is_hex_def is_digit_def hex_val_def code_byte Let_def)

text \<open>
  The file name of an authority loses nothing and is harmless: percent-decoding it gives the
  authority back, so different authorities never share a directory, and it consists of letters, digits
  and \<open>-._~%\<close> only.
\<close>

theorem encode_filesystem_roundtrip:
  "unescape Path_Mode (encode_filesystem_component s) = Some s
   \<and> set (encode_filesystem_component s) \<subseteq> Collect filesystem_safe \<union> {CHR ''%''}"
proof (induction s)
  case Nil
  then show ?case by (simp add: encode_filesystem_component_def)
next
  case (Cons c s)
  have tail: "encode_filesystem_component (c # s) =
      (if filesystem_safe c then [c] else [CHR ''%'', upper_hex (code c div 16), upper_hex (code c mod 16)])
        @ encode_filesystem_component s" by (simp add: encode_filesystem_component_def)
  have lt: "code c div 16 < 16" "code c mod 16 < 16"
    using less_mult_imp_div_less [of "code c" 16 16] code_less_256 [of c] by simp_all
  have hexsafe: "filesystem_safe (upper_hex n)" if "n < 16" for n
    using that by (auto simp: filesystem_safe_def is_alnum_def is_digit_def is_upper_def upper_hex_def code_byte)
  show ?case
  proof (cases "filesystem_safe c")
    case True
    then have "c \<noteq> CHR ''%''" by (auto simp: filesystem_safe_def char_defs)
    with True Cons show ?thesis by (simp add: tail)
  next
    case False
    have "byte (16 * (code c div 16) + code c mod 16) = c" by (simp add: byte_def code_def)
    with False Cons hex_round [OF lt(1)] hex_round [OF lt(2)] hexsafe [OF lt(1)] hexsafe [OF lt(2)]
    show ?thesis by (simp add: tail)
  qed
qed

end
