(* ===== verification/Fleet_Spec.thy ===== *)
theory Fleet_Spec
  imports Fleet_Render Repo_Url_Spec
begin

text \<open>
  What the fleet store promises: its invariant, what putting and deleting a host do to the map it is,
  that the grouped state shows every worktree of every host exactly once and in order, and what the
  status table says of it.
\<close>

subsection \<open>Validation\<close>

definition host_id_ok :: "string \<Rightarrow> bool" where
  "host_id_ok h \<longleftrightarrow> check_host_id h = None"

definition worktree_ok :: "worktree_manifest \<Rightarrow> bool" where
  "worktree_ok w \<longleftrightarrow> canonical_repository_identity (wm_project w) = Some (wm_project w)
     \<and> wm_kind w \<in> {''branch'', ''detached''} \<and> trim_space (wm_ref w) \<noteq> []"

definition manifest_ok :: "manifest \<Rightarrow> bool" where
  "manifest_ok m \<longleftrightarrow> mf_schema m = 1 \<and> host_id_ok (mf_host_id m)
     \<and> (\<forall>p \<in> set (mf_projects m). canonical_repository_identity (pm_identity p) = Some (pm_identity p))
     \<and> (\<forall>w \<in> set (mf_worktrees m). worktree_ok w)"

lemma first_error_None: "first_error f i xs = None \<longleftrightarrow> (\<forall>j < length xs. f (i + j) (xs ! j) = None)"
proof (induction xs arbitrary: i)
  case (Cons x xs)
  show ?case
  proof (cases "f i x")
    case None
    have "(\<forall>j < length (x # xs). f (i + j) ((x # xs) ! j) = None) \<longleftrightarrow>
        (\<forall>j < length xs. f (i + 1 + j) (xs ! j) = None)"
    proof
      assume a: "\<forall>j < length (x # xs). f (i + j) ((x # xs) ! j) = None"
      show "\<forall>j < length xs. f (i + 1 + j) (xs ! j) = None"
      proof (intro allI impI)
        fix j assume "j < length xs"
        then show "f (i + 1 + j) (xs ! j) = None" using a [THEN spec, of "Suc j"] by simp
      qed
    next
      assume a: "\<forall>j < length xs. f (i + 1 + j) (xs ! j) = None"
      show "\<forall>j < length (x # xs). f (i + j) ((x # xs) ! j) = None"
      proof (intro allI impI)
        fix j assume "j < length (x # xs)"
        then show "f (i + j) ((x # xs) ! j) = None" using a None by (cases j) auto
      qed
    qed
    with Cons.IH [of "i + 1"] None show ?thesis by simp
  next
    case (Some e)
    then show ?thesis by (auto intro!: exI [of _ 0])
  qed
qed simp

lemma first_error_const:
  "(\<And>i x. f i x = None \<longleftrightarrow> P x) \<Longrightarrow> first_error f i xs = None \<longleftrightarrow> (\<forall>x \<in> set xs. P x)"
  unfolding first_error_None by (auto simp: all_set_conv_all_nth)

lemma canonical_nonblank: "canonical_repository_identity i = Some i \<Longrightarrow> trim_space i \<noteq> []"
proof
  assume c: "canonical_repository_identity i = Some i" and t: "trim_space i = []"
  have "\<not> passes_prechecks []" by (simp add: passes_prechecks_def is_canonical_identity_candidate_def)
  then have "canonical_info i = None" by (subst canonical_info.simps) (simp add: t Let_def)
  with c show False by (simp add: canonical_repository_identity_def)
qed

lemma validate_canonical_None:
  "validate_canonical_identity field i = None \<longleftrightarrow> canonical_repository_identity i = Some i"
  using canonical_nonblank [of i]
  by (auto simp: validate_canonical_identity_def normalize_identity_def split: option.splits)

lemma validate_store_manifest_None: "validate_store_manifest m = None \<longleftrightarrow> manifest_ok m"
proof -
  have p: "validate_project i p = None \<longleftrightarrow> canonical_repository_identity (pm_identity p) = Some (pm_identity p)" for i p
    by (simp add: validate_project_def validate_canonical_None)
  have kinds: "trim_space ''branch'' \<noteq> []" "trim_space ''detached'' \<noteq> []"
    by (simp_all add: trim_space_graphic is_graphic_def code_def)
  have w: "validate_worktree i w = None \<longleftrightarrow> worktree_ok w" for i w
  proof (cases "canonical_repository_identity (wm_project w) = Some (wm_project w)")
    case True
    then have "validate_canonical_identity field (wm_project w) = None" for field by (simp add: validate_canonical_None)
    with True kinds show ?thesis by (auto simp: validate_worktree_def worktree_ok_def supported_kind_def)
  next
    case False
    then have "\<exists>e. validate_canonical_identity (''worktree '' @ itoa_nat i @ '' project identity'') (wm_project w) = Some e"
      using validate_canonical_None by (simp flip: not_None_eq)
    then obtain e where "validate_canonical_identity (''worktree '' @ itoa_nat i @ '' project identity'') (wm_project w) = Some e"
      by blast
    with False show ?thesis unfolding validate_worktree_def worktree_ok_def by simp
  qed
  have seq: "(case x of Some e \<Rightarrow> Some e | None \<Rightarrow> y) = None \<longleftrightarrow> x = None \<and> y = None" for x y :: "string option"
    by (simp split: option.split)
  show ?thesis
    unfolding validate_store_manifest_def manifest_ok_def host_id_ok_def manifest_schema_version_def seq
    by (simp add: seq first_error_const [OF p] first_error_const [OF w])
qed

subsection \<open>The invariant of the store\<close>

definition warnings_ok :: "warning list \<Rightarrow> bool" where
  "warnings_ok ws \<longleftrightarrow> sorted (map warning_key ws) \<and> distinct (map (\<lambda>w. (wn_code w, wn_host_id w)) ws)"

definition store_ok :: "store_file \<Rightarrow> bool" where
  "store_ok f \<longleftrightarrow> distinct (map fst (sf_hosts f)) \<and> warnings_ok (sf_warnings f)
     \<and> (\<forall>(h, m) \<in> set (sf_hosts f). mf_host_id m = h \<and> manifest_ok m)"

definition disk_ok :: "fleet_disk \<Rightarrow> bool" where
  "disk_ok d \<longleftrightarrow> (case d of Stored f \<Rightarrow> store_ok f | _ \<Rightarrow> True)"

lemma sort_warnings_ok: "distinct (map (\<lambda>w. (wn_code w, wn_host_id w)) ws) \<Longrightarrow> warnings_ok (sort_warnings ws)"
proof -
  assume "distinct (map (\<lambda>w. (wn_code w, wn_host_id w)) ws)"
  moreover have "mset (sort_warnings ws) = mset ws" by (simp add: sort_warnings_def)
  ultimately have "distinct (map (\<lambda>w. (wn_code w, wn_host_id w)) (sort_warnings ws))"
    by (metis mset_map mset_eq_imp_distinct_iff)
  then show ?thesis by (simp add: warnings_ok_def sort_warnings_def)
qed

lemma sorted_warnings_same: "warnings_ok ws \<Longrightarrow> sort_warnings ws = ws"
  by (simp add: warnings_ok_def sort_warnings_def sort_key_id_if_sorted)

lemma replace_warning_keys:
  "map (\<lambda>w. (wn_code w, wn_host_id w)) (replace_warning ws w) =
     (if (wn_code w, wn_host_id w) \<in> set (map (\<lambda>w. (wn_code w, wn_host_id w)) ws)
      then map (\<lambda>w. (wn_code w, wn_host_id w)) ws
      else map (\<lambda>w. (wn_code w, wn_host_id w)) ws @ [(wn_code w, wn_host_id w)])"
  by (induction ws) (auto simp: same_warning_def)

lemma upsert_ok: "warnings_ok ws \<Longrightarrow> warnings_ok (upsert_warning ws w)"
  unfolding upsert_warning_def
  by (rule sort_warnings_ok) (simp add: replace_warning_keys warnings_ok_def)

lemma put_ok [kwt_inv]: "store_ok f \<Longrightarrow> manifest_ok m \<Longrightarrow> store_ok (put_manifest m f)"
proof -
  assume f: "store_ok f" and m: "manifest_ok m"
  have upd: "set (AList.update (mf_host_id m) m hs) \<subseteq> insert (mf_host_id m, m) (set hs)" for hs by (induction hs) auto
  have "\<forall>(h, m') \<in> set (AList.update (mf_host_id m) m (sf_hosts f)). mf_host_id m' = h \<and> manifest_ok m'"
    using f m upd [of "sf_hosts f"] unfolding store_ok_def by blast
  moreover have "warnings_ok (sf_warnings (put_manifest m f))"
    using f by (auto simp: store_ok_def put_manifest_def Let_def upsert_ok split: option.split)
  ultimately show "store_ok (put_manifest m f)"
    using f by (simp add: store_ok_def put_manifest_def Let_def distinct_update)
qed

lemma delete_ok [kwt_inv]:
  "store_ok f \<Longrightarrow> store_ok \<lparr>sf_hosts = AList.delete h (sf_hosts f), sf_warnings = filter P (sf_warnings f)\<rparr>"
proof -
  assume f: "store_ok f"
  have "sorted (map warning_key (filter P (sf_warnings f)))" using f by (simp add: store_ok_def warnings_ok_def sorted_filter)
  moreover have "distinct (map (\<lambda>w. (wn_code w, wn_host_id w)) (filter P (sf_warnings f)))"
    using f by (simp add: store_ok_def warnings_ok_def distinct_map_filter)
  ultimately show ?thesis
    using f by (auto simp: store_ok_def warnings_ok_def AList.delete_eq distinct_fst_filter)
qed

lemma new_store_ok [kwt_inv]: "store_ok new_store_file"
  by (simp add: store_ok_def new_store_file_def warnings_ok_def)

text \<open>What a call that reads, changes and writes the store does.\<close>

lemma read_store_ok:
  assumes "disk_ok d" and "read_store env k d = Inr f"
  shows "store_ok f" and "d = Stored f \<or> d = Missing \<and> f = new_store_file"
proof -
  have "store_ok f \<and> (d = Stored f \<or> d = Missing \<and> f = new_store_file)"
  proof (cases d)
    case (Stored g)
    with assms have g: "store_ok g" by (simp add: disk_ok_def)
    with assms(2) Stored have "f = g"
      by (simp add: read_store_def store_ok_def sorted_warnings_same split: option.splits)
    with Stored g show ?thesis by simp
  qed (use assms in \<open>auto simp: read_store_def new_store_ok split: option.splits\<close>)
  then show "store_ok f" "d = Stored f \<or> d = Missing \<and> f = new_store_file" by blast+
qed

lemma write_store_cases:
  assumes "store_ok f"
  shows "(\<exists>e. write_store env k f d = (d, Some e)) \<or> write_store env k f d = (Stored f, None)"
  using assms by (auto simp: write_store_def store_ok_def sorted_warnings_same split: option.split)

definition hosts_of :: "fleet_disk \<Rightarrow> string \<rightharpoonup> manifest" where
  "hosts_of d = (case d of Stored f \<Rightarrow> map_of (sf_hosts f) | _ \<Rightarrow> Map.empty)"

definition warnings_of :: "fleet_disk \<Rightarrow> warning list" where
  "warnings_of d = (case d of Stored f \<Rightarrow> sf_warnings f | _ \<Rightarrow> [])"

lemma put_outcome:
  assumes "disk_ok d"
  shows "(\<exists>e. store_put env m d = (d, Some e)) \<or>
     (\<exists>f. store_put env m d = (Stored (put_manifest m f), None) \<and> manifest_ok m \<and> store_ok f \<and>
        (d = Stored f \<or> d = Missing \<and> f = new_store_file))"
proof (cases "se_ctx env 0 = None \<and> validate_store_manifest m = None \<and> se_ctx env 1 = None")
  case True
  then have m: "manifest_ok m" by (simp add: validate_store_manifest_None)
  show ?thesis
  proof (cases "read_store env 2 d")
    case (Inl e)
    with True show ?thesis by (simp add: store_put_def)
  next
    case (Inr f)
    note f = read_store_ok [OF assms Inr]
    from write_store_cases [OF put_ok [OF f(1) m], of env 4 d] True Inr m f show ?thesis
      by (auto simp: store_put_def)
  qed
next
  case False
  then show ?thesis by (auto simp: store_put_def split: option.split)
qed

definition without_host :: "string \<Rightarrow> store_file \<Rightarrow> store_file" where
  "without_host h f = \<lparr>sf_hosts = AList.delete h (sf_hosts f), sf_warnings = filter (\<lambda>w. wn_host_id w \<noteq> h) (sf_warnings f)\<rparr>"

lemma delete_outcome:
  assumes "disk_ok d"
  shows "(\<exists>e. store_delete env h d = (d, Some e)) \<or>
     (store_delete env h d = (d, None) \<and> hosts_of d h = None \<and> (\<forall>w \<in> set (warnings_of d). wn_host_id w \<noteq> h)) \<or>
     (\<exists>f. store_delete env h d = (Stored (without_host h f), None) \<and> d = Stored f \<and> store_ok f)"
proof (cases "se_ctx env 0 = None \<and> check_host_id h = None \<and> se_ctx env 1 = None")
  case True
  show ?thesis
  proof (cases "read_store env 2 d")
    case (Inl e)
    with True show ?thesis by (simp add: store_delete_def)
  next
    case (Inr f)
    note f = read_store_ok [OF assms Inr]
    let ?changed = "map_of (sf_hosts f) h \<noteq> None \<or> list_ex (\<lambda>w. wn_host_id w = h) (sf_warnings f)"
    show ?thesis
    proof (cases ?changed)
      case False
      then have "store_delete env h d = (d, None)" using True Inr by (simp add: store_delete_def Let_def)
      moreover have "hosts_of d h = None \<and> (\<forall>w \<in> set (warnings_of d). wn_host_id w \<noteq> h)"
        using False f(2) by (auto simp: hosts_of_def warnings_of_def list_ex_iff new_store_file_def)
      ultimately show ?thesis by blast
    next
      case changed: True
      then have "store_delete env h d = write_store env 4 (without_host h f) d"
        using True Inr by (auto simp: store_delete_def Let_def without_host_def)
      moreover have "d = Stored f" using changed f(2) by (auto simp: new_store_file_def)
      moreover have "store_ok (without_host h f)" unfolding without_host_def using f(1) by (rule delete_ok)
      ultimately show ?thesis using write_store_cases [of "without_host h f" env 4 d] f(1) by auto
    qed
  qed
next
  case False
  then show ?thesis by (auto simp: store_delete_def split: option.split)
qed

text \<open>
  C35. The store's invariant survives every call, however its I/O and its context end: each manifest is
  valid and filed under its own normalized host id, and the warnings are sorted and one for each code
  and host. A put that reports success leaves exactly the map of hosts with that manifest under its id,
  a delete that does leaves the map without the host and no warning that names it; after an error the
  file is what it was.
\<close>

theorem fleet_store_refines:
  assumes "disk_ok d"
  shows "(case store_put env m d of (d', err) \<Rightarrow>
       disk_ok d' \<and> (if err = None then manifest_ok m \<and> hosts_of d' = (hosts_of d)(mf_host_id m \<mapsto> m) else d' = d))
     \<and> (case store_delete env h d of (d', err) \<Rightarrow>
       disk_ok d' \<and> (if err = None
         then hosts_of d' = (hosts_of d)(h := None)
            \<and> warnings_of d' = filter (\<lambda>w. wn_host_id w \<noteq> h) (warnings_of d)
         else d' = d))"
proof
  show "case store_put env m d of (d', err) \<Rightarrow>
       disk_ok d' \<and> (if err = None then manifest_ok m \<and> hosts_of d' = (hosts_of d)(mf_host_id m \<mapsto> m) else d' = d)"
    using put_outcome [OF assms, of env m]
  proof
    assume "\<exists>e. store_put env m d = (d, Some e)"
    with assms show ?thesis by auto
  next
    assume "\<exists>f. store_put env m d = (Stored (put_manifest m f), None) \<and> manifest_ok m \<and> store_ok f \<and>
        (d = Stored f \<or> d = Missing \<and> f = new_store_file)"
    then obtain f where f: "store_put env m d = (Stored (put_manifest m f), None)" "manifest_ok m" "store_ok f"
      "d = Stored f \<or> d = Missing \<and> f = new_store_file" by blast
    have "hosts_of d = map_of (sf_hosts f)" using f(4) by (auto simp: hosts_of_def new_store_file_def)
    moreover have "hosts_of (Stored (put_manifest m f)) = (map_of (sf_hosts f))(mf_host_id m \<mapsto> m)"
      by (simp add: hosts_of_def put_manifest_def Let_def update_conv')
    ultimately show ?thesis using f put_ok [OF f(3,2)] by (simp add: disk_ok_def)
  qed
  show "case store_delete env h d of (d', err) \<Rightarrow>
       disk_ok d' \<and> (if err = None
         then hosts_of d' = (hosts_of d)(h := None)
            \<and> warnings_of d' = filter (\<lambda>w. wn_host_id w \<noteq> h) (warnings_of d)
         else d' = d)"
    using delete_outcome [OF assms, of env h]
  proof (elim disjE)
    assume "\<exists>e. store_delete env h d = (d, Some e)"
    with assms show ?thesis by auto
  next
    assume "store_delete env h d = (d, None) \<and> hosts_of d h = None \<and> (\<forall>w \<in> set (warnings_of d). wn_host_id w \<noteq> h)"
    with assms show ?thesis by (auto simp: fun_eq_iff filter_id_conv)
  next
    assume "\<exists>f. store_delete env h d = (Stored (without_host h f), None) \<and> d = Stored f \<and> store_ok f"
    then obtain f where f: "store_delete env h d = (Stored (without_host h f), None)" "d = Stored f" "store_ok f" by blast
    have "store_ok (without_host h f)" unfolding without_host_def using f(3) by (rule delete_ok)
    with f show ?thesis
      by (simp add: disk_ok_def hosts_of_def warnings_of_def without_host_def delete_conv')
  qed
qed

definition demo_store_env :: store_env where
  "demo_store_env = \<lparr>se_ctx = (\<lambda>_. None), se_write = None, se_rename = None\<rparr>"

definition demo_manifest :: "string \<Rightarrow> worktree_manifest list \<Rightarrow> manifest" where
  "demo_manifest h ws = \<lparr>mf_schema = 1, mf_host_id = h, mf_host = \<lparr>hi_hostname = h, hi_platform = ''linux''\<rparr>,
     mf_observed_at = 5, mf_projects = [], mf_worktrees = ws\<rparr>"

lemma demo_manifest_ok: "manifest_ok (demo_manifest ''h'' [])" "manifest_ok (demo_manifest ''g'' [])"
proof -
  have "trim_space ''h'' = ''h''" "trim_space ''g'' = ''g''" by (simp_all add: trim_space_graphic is_graphic_def code_def)
  then have "check_host_id ''h'' = None" "check_host_id ''g'' = None"
    by (simp_all add: check_host_id_def normalize_host_id_def lower_char_def host_id_char_def is_upper_def is_lower_def code_def)
  then show "manifest_ok (demo_manifest ''h'' [])" "manifest_ok (demo_manifest ''g'' [])"
    by (simp_all add: manifest_ok_def demo_manifest_def host_id_ok_def)
qed

theorem fleet_store_refines_witness:
  "\<exists>d. store_put demo_store_env (demo_manifest ''h'' []) Missing = (d, None) \<and>
     hosts_of d = [''h'' \<mapsto> demo_manifest ''h'' []]"
proof -
  have "snd (store_put demo_store_env (demo_manifest ''h'' []) Missing) = None"
    using demo_manifest_ok(1) unfolding validate_store_manifest_None [symmetric]
    by (simp add: store_put_def read_store_def write_store_def demo_store_env_def)
  then obtain d where d: "store_put demo_store_env (demo_manifest ''h'' []) Missing = (d, None)"
    by (cases "store_put demo_store_env (demo_manifest ''h'' []) Missing") simp
  have "disk_ok Missing" by (simp add: disk_ok_def)
  from fleet_store_refines [OF this, of "demo_manifest ''h'' []" demo_store_env] d show ?thesis
    by (simp add: hosts_of_def demo_manifest_def)
qed

subsection \<open>The grouped state\<close>

definition row_key_of :: "fleet_row \<Rightarrow> row_key" where
  "row_key_of row = Row_Key (fold_repository_identity (fr_project_identity row)) (fr_kind row) (fr_ref row)"

definition row_entries :: "(row_key \<times> fleet_row) \<Rightarrow> (row_key \<times> observation) multiset" where
  "row_entries p = mset (map (Pair (fst p)) (fr_observations (snd p)))"

definition all_entries :: "(row_key \<times> fleet_row) list \<Rightarrow> (row_key \<times> observation) multiset" where
  "all_entries rows = sum_list (map row_entries rows)"

definition host_entries :: "manifest \<Rightarrow> (row_key \<times> observation) list" where
  "host_entries m = map (\<lambda>w. (key_of_worktree w, observe m w)) (mf_worktrees m)"

definition rows_ok :: "(row_key \<times> fleet_row) list \<Rightarrow> bool" where
  "rows_ok rows \<longleftrightarrow> distinct (map fst rows) \<and>
     (\<forall>(k, row) \<in> set rows. row_key_of row = k \<and> fr_observations row \<noteq> [])"

lemma entries_update:
  "distinct (map fst rows) \<Longrightarrow>
     all_entries (AList.update k r rows) + (case map_of rows k of None \<Rightarrow> {#} | Some q \<Rightarrow> row_entries (k, q)) =
     all_entries rows + row_entries (k, r)"
proof (induction rows)
  case (Cons p rows)
  obtain l q where p: "p = (l, q)" by (cases p)
  show ?case
  proof (cases "l = k")
    case True
    with p show ?thesis by (simp add: all_entries_def add.commute add.left_commute)
  next
    case False
    with Cons p show ?thesis by (simp add: all_entries_def add.assoc)
  qed
qed (simp add: all_entries_def)

lemma row_for_key:
  "row_key_of (row_for names w None) = key_of_worktree w"
  "row_key_of (row_for names w (Some row)) = row_key_of row"
  by (simp_all add: row_for_def row_key_of_def key_of_worktree_def update_row_project_name_def Let_def)

lemma row_for_observations:
  "fr_observations (row_for names w x) = (case x of None \<Rightarrow> [] | Some row \<Rightarrow> fr_observations row)"
  by (simp add: row_for_def update_row_project_name_def Let_def split: option.split)

lemma add_worktree_ok:
  assumes "rows_ok rows"
  shows "rows_ok (add_worktree m names w rows)"
    and "all_entries (add_worktree m names w rows) = all_entries rows + {#(key_of_worktree w, observe m w)#}"
proof -
  let ?k = "key_of_worktree w"
  let ?r = "row_for names w (map_of rows ?k)"
  let ?r' = "?r\<lparr>fr_observations := fr_observations ?r @ [observe m w]\<rparr>"
  have upd: "add_worktree m names w rows = AList.update ?k ?r' rows" by (simp add: add_worktree_def Let_def)
  have key: "row_key_of ?r' = ?k"
  proof (cases "map_of rows ?k")
    case None
    then show ?thesis using row_for_key(1) [of names w] by (simp add: row_key_of_def)
  next
    case (Some row)
    with assms have "row_key_of row = ?k" by (auto simp: rows_ok_def dest: map_of_SomeD)
    with Some row_for_key(2) [of names w row] show ?thesis by (simp add: row_key_of_def)
  qed
  have sub: "set (AList.update k r rs) \<subseteq> insert (k, r) (set rs)" for k r and rs :: "(row_key \<times> fleet_row) list"
    by (induction rs) auto
  have "\<forall>(k, row) \<in> set (AList.update ?k ?r' rows). row_key_of row = k \<and> fr_observations row \<noteq> []"
    using assms key sub [of ?k ?r' rows] unfolding rows_ok_def by auto
  then show "rows_ok (add_worktree m names w rows)"
    using assms by (simp add: upd rows_ok_def distinct_update)
  have d: "distinct (map fst rows)" using assms by (simp add: rows_ok_def)
  have "row_entries (?k, ?r') = (case map_of rows ?k of None \<Rightarrow> {#} | Some q \<Rightarrow> row_entries (?k, q)) +
      {#(?k, observe m w)#}"
    by (simp add: row_entries_def row_for_observations split: option.split)
  with entries_update [OF d, of ?k ?r'] show "all_entries (add_worktree m names w rows) = all_entries rows + {#(?k, observe m w)#}"
    by (simp add: upd)
qed

lemma add_manifest_ok:
  assumes "rows_ok rows"
  shows "rows_ok (add_manifest m rows)" and "all_entries (add_manifest m rows) = all_entries rows + mset (host_entries m)"
proof -
  have "rows_ok (fold (add_worktree m names) ws rows) \<and>
      all_entries (fold (add_worktree m names) ws rows) =
        all_entries rows + mset (map (\<lambda>w. (key_of_worktree w, observe m w)) ws)" for ws names
    using assms
  proof (induction ws arbitrary: rows)
    case (Cons w ws)
    from Cons.IH [OF add_worktree_ok(1) [OF Cons.prems]] add_worktree_ok(2) [OF Cons.prems] show ?case by simp
  qed simp
  then show "rows_ok (add_manifest m rows)" "all_entries (add_manifest m rows) = all_entries rows + mset (host_entries m)"
    by (simp_all add: add_manifest_def host_entries_def)
qed

lemma rows_of_ok: "rows_ok (rows_of f) \<and> all_entries (rows_of f) = mset (concat (map host_entries (sorted_hosts f)))"
proof -
  have "rows_ok (fold add_manifest ms rows) \<and>
      all_entries (fold add_manifest ms rows) = all_entries rows + mset (concat (map host_entries ms))"
    if "rows_ok rows" for ms rows
    using that
  proof (induction ms arbitrary: rows)
    case (Cons m ms)
    from Cons.IH [OF add_manifest_ok(1) [OF Cons.prems]] add_manifest_ok(2) [OF Cons.prems] show ?case
      by (simp add: add.assoc)
  qed simp
  moreover have "rows_ok []" by (simp add: rows_ok_def)
  ultimately show ?thesis by (simp add: rows_of_def all_entries_def)
qed

lemma map_the_map_of: "distinct (map fst ps) \<Longrightarrow> map (\<lambda>k. the (map_of ps k)) (map fst ps) = map snd ps"
proof -
  assume "distinct (map fst ps)"
  then have "map_of ps (fst p) = Some (snd p)" if "p \<in> set ps" for p
    using that by (simp add: map_of_eq_Some_iff)
  then show ?thesis by simp
qed

lemma sorted_hosts_mset:
  assumes "distinct (map fst (sf_hosts f))"
  shows "mset (sorted_hosts f) = mset (map snd (sf_hosts f))"
proof -
  have "mset (sorted_hosts f) = image_mset (\<lambda>h. the (map_of (sf_hosts f) h)) (mset (map fst (sf_hosts f)))"
    by (simp add: sorted_hosts_def)
  also have "\<dots> = mset (map (\<lambda>h. the (map_of (sf_hosts f) h)) (map fst (sf_hosts f)))" by (simp only: mset_map)
  finally show ?thesis by (simp only: map_the_map_of [OF assms])
qed

lemma mset_concat_perm: "mset xs = mset ys \<Longrightarrow> mset (concat (map f xs)) = mset (concat (map f ys))"
proof -
  assume "mset xs = mset ys"
  moreover have "mset (concat (map f zs)) = sum_mset (image_mset (\<lambda>z. mset (f z)) (mset zs))" for zs
    by (induction zs) auto
  ultimately show ?thesis by simp
qed

text \<open>The entries the rows of a state show.\<close>

definition shown_entries :: "fleet_row list \<Rightarrow> (row_key \<times> observation) list" where
  "shown_entries rows = concat (map (\<lambda>row. map (Pair (row_key_of row)) (fr_observations row)) rows)"

lemma state_rows:
  assumes "rows_ok rows"
  defines "out \<equiv> map (\<lambda>k. finish_row (the (map_of rows k))) (sort (map fst rows))"
  shows "map row_key_of out = sort (map fst rows)" and "mset (shown_entries out) = all_entries rows"
    and "\<forall>row \<in> set out. fr_observations row \<noteq> [] \<and> sorted (map observation_key (fr_observations row))"
proof -
  have d: "distinct (map fst rows)" using assms(1) by (simp add: rows_ok_def)
  have row: "row_key_of (the (map_of rows k)) = k \<and> fr_observations (the (map_of rows k)) \<noteq> []"
    if "k \<in> set (map fst rows)" for k
  proof -
    from that obtain r where "map_of rows k = Some r" by (cases "map_of rows k") (auto simp: map_of_eq_None_iff)
    moreover from this have "(k, r) \<in> set rows" by (rule map_of_SomeD)
    ultimately show ?thesis using assms(1) by (auto simp: rows_ok_def)
  qed
  have fin: "row_key_of (finish_row r) = row_key_of r" for r by (simp add: finish_row_def row_key_of_def)
  show "map row_key_of out = sort (map fst rows)"
    unfolding out_def by (simp add: fin o_def) (rule map_idI, use row in auto)
  show "\<forall>row \<in> set out. fr_observations row \<noteq> [] \<and> sorted (map observation_key (fr_observations row))"
  proof
    fix r assume "r \<in> set out"
    then obtain k where k: "k \<in> set (map fst rows)" "r = finish_row (the (map_of rows k))"
      unfolding out_def by auto
    have "mset (fr_observations r) = mset (fr_observations (the (map_of rows k)))" by (simp add: k(2) finish_row_def)
    with row [OF k(1)] have "fr_observations r \<noteq> []" by auto
    then show "fr_observations r \<noteq> [] \<and> sorted (map observation_key (fr_observations r))"
      by (simp add: k(2) finish_row_def)
  qed
  let ?g = "\<lambda>k. map (Pair (row_key_of (finish_row (the (map_of rows k))))) (fr_observations (finish_row (the (map_of rows k))))"
  have "mset (shown_entries out) = mset (concat (map ?g (sort (map fst rows))))"
    by (simp add: shown_entries_def out_def o_def)
  also have "\<dots> = mset (concat (map ?g (map fst rows)))" by (rule mset_concat_perm) simp
  also have "\<dots> = all_entries rows"
    using assms(1)
  proof (induction rows)
    case (Cons p rows)
    have key: "row_key_of (snd p) = fst p" and rest: "rows_ok rows" and fresh: "fst p \<notin> set (map fst rows)"
      using Cons.prems by (auto simp: rows_ok_def)
    have same: "map_of (p # rows) k = map_of rows k" if "k \<in> set (map fst rows)" for k
      using that fresh by (cases p) auto
    let ?h = "\<lambda>rs k. map (Pair (row_key_of (finish_row (the (map_of rs k))))) (fr_observations (finish_row (the (map_of rs k))))"
    have "map (?h (p # rows)) (map fst rows) = map (?h rows) (map fst rows)"
      by (rule map_cong [OF refl]) (simp only: same)
    moreover have "mset (?h (p # rows) (fst p)) = row_entries p"
    proof -
      have "the (map_of (p # rows) (fst p)) = snd p" by (cases p) simp
      then have "mset (?h (p # rows) (fst p)) = image_mset (Pair (fst p)) (mset (fr_observations (finish_row (snd p))))"
        by (simp add: fin key)
      then show ?thesis by (simp add: row_entries_def finish_row_def)
    qed
    ultimately have "mset (concat (map (?h (p # rows)) (map fst (p # rows)))) =
        row_entries p + mset (concat (map (?h rows) (map fst rows)))"
      by (simp only: list.map concat.simps mset_append)
    then show ?case unfolding Cons.IH [OF rest] by (simp only: all_entries_def list.map sum_list.Cons)
  qed (simp add: all_entries_def)
  finally show "mset (shown_entries out) = all_entries rows" .
qed

text \<open>
  C36. The grouped state shows every worktree of every host exactly once: the hosts are listed by their
  ids in order; the rows are in the strict order of their keys (folded project, kind, ref), so no two
  rows are about one worktree; the observations of all rows, with the keys of their rows, are exactly
  the worktrees of the manifests with theirs, each row's by host and path; and the order in which the
  map of hosts is iterated does not matter.
\<close>

theorem fleet_state_groups:
  assumes "store_ok f"
  shows "map hs_host_id (fs_hosts (build_fleet_state digest f)) = sort (map fst (sf_hosts f))
     \<and> sorted_wrt (<) (map row_key_of (fs_rows (build_fleet_state digest f)))
     \<and> mset (shown_entries (fs_rows (build_fleet_state digest f))) =
         mset (concat (map (\<lambda>(h, m). host_entries m) (sf_hosts f)))
     \<and> (\<forall>row \<in> set (fs_rows (build_fleet_state digest f)).
         fr_observations row \<noteq> [] \<and> sorted (map observation_key (fr_observations row)))
     \<and> (\<forall>g. mset (sf_hosts g) = mset (sf_hosts f) \<and> sf_warnings g = sf_warnings f \<longrightarrow>
         build_fleet_state digest g = build_fleet_state digest f)"
proof -
  have d: "distinct (map fst (sf_hosts f))" and h: "\<forall>(h, m) \<in> set (sf_hosts f). mf_host_id m = h"
    using assms by (auto simp: store_ok_def)
  have ids: "mf_host_id (the (map_of (sf_hosts f) k)) = k" if "k \<in> set (map fst (sf_hosts f))" for k
  proof -
    from that obtain m where "map_of (sf_hosts f) k = Some m"
      by (cases "map_of (sf_hosts f) k") (auto simp: map_of_eq_None_iff)
    with map_of_SomeD [OF this] h show ?thesis by auto
  qed
  have hosts: "map hs_host_id (fs_hosts (build_fleet_state digest f)) = sort (map fst (sf_hosts f))"
    unfolding build_fleet_state_def Let_def
    by (simp add: sorted_hosts_def o_def) (rule map_idI, use ids in auto)
  have fs_rows: "fs_rows (build_fleet_state digest f) =
      map (\<lambda>k. finish_row (the (map_of (rows_of f) k))) (sort (map fst (rows_of f)))"
    by (simp add: build_fleet_state_def Let_def)
  have ok: "rows_ok (rows_of f)" using rows_of_ok by blast
  note sr = state_rows [OF ok, folded fs_rows]
  have "distinct (sort (map fst (rows_of f)))" using ok by (simp add: rows_ok_def)
  then have strict: "sorted_wrt (<) (map row_key_of (fs_rows (build_fleet_state digest f)))"
    unfolding sr(1) by (simp add: strict_sorted_iff)
  have "mset (shown_entries (fs_rows (build_fleet_state digest f))) = mset (concat (map host_entries (sorted_hosts f)))"
    unfolding sr(2) using rows_of_ok by simp
  also have "\<dots> = mset (concat (map host_entries (map snd (sf_hosts f))))"
    by (rule mset_concat_perm) (rule sorted_hosts_mset [OF d])
  finally have entries: "mset (shown_entries (fs_rows (build_fleet_state digest f))) =
      mset (concat (map (\<lambda>(h, m). host_entries m) (sf_hosts f)))" by (simp add: o_def split_def)
  have perm: "build_fleet_state digest g = build_fleet_state digest f"
    if g: "mset (sf_hosts g) = mset (sf_hosts f)" "sf_warnings g = sf_warnings f" for g
  proof -
    have mf: "mset (map fst (sf_hosts g)) = mset (map fst (sf_hosts f))" using g(1) by (simp only: mset_map)
    then have "sort (map fst (sf_hosts g)) = sort (map fst (sf_hosts f))"
      by (metis mset_sort properties_for_sort sorted_sort)
    moreover have "map_of (sf_hosts g) = map_of (sf_hosts f)"
      using map_of_eqI g(1) d mf by (metis map_of_inject_set mset_eq_imp_distinct_iff mset_eq_setD)
    ultimately have "sorted_hosts g = sorted_hosts f" by (simp add: sorted_hosts_def)
    then show ?thesis using g(2) by (simp add: build_fleet_state_def rows_of_def Let_def)
  qed
  from hosts strict entries sr(3) perm show ?thesis by blast
qed

definition demo_worktree :: "string \<Rightarrow> worktree_manifest" where
  "demo_worktree path = \<lparr>wm_project = ''github.com/o/r'', wm_kind = ''branch'', wm_ref = ''x'', wm_branch = ''x'',
     wm_path = path, wm_head = ''abc'', wm_head_time = 1, wm_upstream = [], wm_ahead = 0, wm_behind = 0,
     wm_status = \<lparr>ch_modified = 0, ch_added = 0, ch_deleted = 0, ch_untracked = 0, ch_staged = 0, ch_conflicts = 0\<rparr>,
     wm_last_activity = 1, wm_is_main = False\<rparr>"

theorem fleet_state_groups_witness:
  "\<exists>row. fs_rows (build_fleet_state (\<lambda>_. []) \<lparr>sf_hosts = [(''h'', demo_manifest ''h'' [demo_worktree ''/a'']),
       (''g'', demo_manifest ''g'' [])], sf_warnings = []\<rparr>) = [row] \<and> map ob_path (fr_observations row) = [''/a'']"
proof -
  let ?m = "demo_manifest ''h'' [demo_worktree ''/a'']"
  let ?f = "\<lparr>sf_hosts = [(''h'', ?m), (''g'', demo_manifest ''g'' [])], sf_warnings = []\<rparr>"
  have ref: "trim_space ''x'' = ''x''" by (simp add: trim_space_graphic is_graphic_def code_def)
  have "worktree_ok (demo_worktree ''/a'')" using demo_slug by (simp add: worktree_ok_def demo_worktree_def ref)
  then have "manifest_ok ?m"
    using demo_manifest_ok(1) by (simp add: manifest_ok_def demo_manifest_def)
  then have "store_ok ?f" using demo_manifest_ok(2) by (simp add: store_ok_def warnings_ok_def demo_manifest_def)
  note g = fleet_state_groups [OF this, of "\<lambda>_. []", THEN conjunct2, THEN conjunct2]
  have "concat (map (\<lambda>(h, m). host_entries m) (sf_hosts ?f)) =
      [(key_of_worktree (demo_worktree ''/a''), observe ?m (demo_worktree ''/a''))]"
    by (simp add: host_entries_def demo_manifest_def)
  from g [THEN conjunct1, unfolded this]
  have m: "mset (shown_entries (fs_rows (build_fleet_state (\<lambda>_. []) ?f))) =
        {#(key_of_worktree (demo_worktree ''/a''), observe ?m (demo_worktree ''/a''))#}" by simp
  have ne: "\<forall>row \<in> set (fs_rows (build_fleet_state (\<lambda>_. []) ?f)). fr_observations row \<noteq> []"
    using g [THEN conjunct2, THEN conjunct1] by blast
  from m have s: "shown_entries (fs_rows (build_fleet_state (\<lambda>_. []) ?f)) =
      [(key_of_worktree (demo_worktree ''/a''), observe ?m (demo_worktree ''/a''))]" by simp
  show ?thesis
  proof (cases "fs_rows (build_fleet_state (\<lambda>_. []) ?f)")
    case Nil
    with s show ?thesis by (simp add: shown_entries_def)
  next
    case (Cons row rows)
    obtain ob obs where ob: "fr_observations row = ob # obs" using ne Cons by (cases "fr_observations row") auto
    have rest: "rows = []"
    proof (cases rows)
      case (Cons r rs)
      with ne \<open>fs_rows _ = row # rows\<close> have "fr_observations r \<noteq> []" by simp
      with s \<open>fs_rows _ = row # rows\<close> Cons ob show ?thesis by (simp add: shown_entries_def)
    qed simp
    from s Cons ob rest show ?thesis by (simp add: shown_entries_def observe_def demo_worktree_def)
  qed
qed

end
