(* ===== verification/Porcelain.thy ===== *)
theory Porcelain
  imports Go_Strings
begin

text \<open>
  The parser of \<open>git status --porcelain=v2 -z\<close> (\<open>internal/status/porcelain_v2.go\<close>). The empty
  \<open>FileState\<close> is \<open>No_State\<close>. A byte in an error message is quoted as \<open>%q\<close> quotes a rune.
\<close>

datatype file_state =
    No_State | Modified | Added | Deleted | Renamed | Copied | Conflicted | Untracked

record file_change =
  fc_path :: string
  fc_original :: string
  fc_index :: file_state
  fc_worktree :: file_state

abbreviation nul :: char where "nul \<equiv> CHR 0x00"
abbreviation blank :: char where "blank \<equiv> CHR '' ''"

definition quote_rune :: "char \<Rightarrow> string" where
  "quote_rune c =
     (let n = code c in
      [CHR 0x27] @
      (if n = 39 then [CHR 0x5C, c]
       else if n = 34 then [c]
       else if n < 128 then quote_byte c
       else if n \<le> 160 \<or> n = 173 then CHR 0x5C # ''u00'' @ [hex_digit (n div 16), hex_digit (n mod 16)]
       else [byte (192 + n div 64), byte (128 + n mod 64)])
      @ [CHR 0x27])"

subsection \<open>Fields\<close>

definition is_submodule :: "string \<Rightarrow> bool" where
  "is_submodule f \<longleftrightarrow> f = ''N...'' \<or>
     (length f = 4 \<and> f ! 0 = CHR ''S'' \<and> f ! 1 \<in> set ''.C'' \<and> f ! 2 \<in> set ''.M'' \<and> f ! 3 \<in> set ''.U'')"

definition is_mode :: "string \<Rightarrow> bool" where
  "is_mode f \<longleftrightarrow> length f = 6 \<and> list_all (\<lambda>c. 48 \<le> code c \<and> code c \<le> 55) f"

definition is_object_id :: "string \<Rightarrow> bool" where
  "is_object_id f \<longleftrightarrow> (length f = 40 \<or> length f = 64) \<and> list_all is_hex f"

definition is_unmerged_code :: "string \<Rightarrow> bool" where
  "is_unmerged_code f \<longleftrightarrow> f \<in> {''DD'', ''AU'', ''UD'', ''UA'', ''DU'', ''AA'', ''UU''}"

definition is_score :: "string \<Rightarrow> string \<Rightarrow> bool" where
  "is_score score state \<longleftrightarrow>
     2 \<le> length score \<and> length score \<le> 4 \<and> length state = 2 \<and>
     (score ! 0 = CHR ''R'' \<or> score ! 0 = CHR ''C'') \<and>
     (state ! 0 = score ! 0 \<or> state ! 1 = score ! 0) \<and>
     list_all is_digit (tl score) \<and> digits_val 0 (tl score) \<le> 100"

definition parse_state :: "char \<Rightarrow> string + file_state" where
  "parse_state c =
     (if c = CHR ''.'' then Inr No_State
      else if c = CHR ''M'' \<or> c = CHR ''T'' then Inr Modified
      else if c = CHR ''A'' then Inr Added
      else if c = CHR ''D'' then Inr Deleted
      else if c = CHR ''R'' then Inr Renamed
      else if c = CHR ''C'' then Inr Copied
      else Inl (''unknown porcelain v2 state '' @ quote_rune c))"

definition parse_states :: "string \<Rightarrow> string + file_state \<times> file_state" where
  "parse_states xy =
     (case parse_state (xy ! 0) of
        Inl e \<Rightarrow> Inl e
      | Inr i \<Rightarrow> (case parse_state (xy ! 1) of Inl e \<Rightarrow> Inl e | Inr w \<Rightarrow> Inr (i, w)))"

subsection \<open>Records\<close>

definition parse_rename_or_copy :: "string \<Rightarrow> string \<Rightarrow> string + file_change" where
  "parse_rename_or_copy record original =
     (let fs = split_n record blank 10 in
      if length fs \<noteq> 10 \<or> fs ! 0 \<noteq> ''2'' \<or> length (fs ! 1) \<noteq> 2 \<or> \<not> is_submodule (fs ! 2)
         \<or> \<not> list_all is_mode (take 3 (drop 3 fs)) \<or> \<not> list_all is_object_id (take 2 (drop 6 fs))
         \<or> fs ! 9 = [] \<or> original = [] \<or> \<not> is_score (fs ! 8) (fs ! 1)
      then Inl ''malformed porcelain v2 rename or copy record''
      else (case parse_states (fs ! 1) of
         Inl e \<Rightarrow> Inl e
       | Inr (i, w) \<Rightarrow> Inr \<lparr>fc_path = fs ! 9, fc_original = original, fc_index = i, fc_worktree = w\<rparr>))"

definition parse_ordinary :: "string \<Rightarrow> string + file_change" where
  "parse_ordinary record =
     (let fs = split_n record blank 9 in
      if length fs \<noteq> 9 \<or> fs ! 0 \<noteq> ''1'' \<or> length (fs ! 1) \<noteq> 2 \<or> \<not> is_submodule (fs ! 2)
         \<or> \<not> list_all is_mode (take 3 (drop 3 fs)) \<or> \<not> list_all is_object_id (take 2 (drop 6 fs))
         \<or> fs ! 8 = []
      then Inl ''malformed porcelain v2 ordinary record''
      else (case parse_states (fs ! 1) of
         Inl e \<Rightarrow> Inl e
       | Inr (i, w) \<Rightarrow> Inr \<lparr>fc_path = fs ! 8, fc_original = [], fc_index = i, fc_worktree = w\<rparr>))"

definition parse_untracked :: "string \<Rightarrow> string + file_change" where
  "parse_untracked record =
     (if length record < 3 \<or> record ! 1 \<noteq> blank then Inl ''malformed porcelain v2 untracked record''
      else Inr \<lparr>fc_path = drop 2 record, fc_original = [], fc_index = No_State, fc_worktree = Untracked\<rparr>)"

definition parse_unmerged :: "string \<Rightarrow> string + file_change" where
  "parse_unmerged record =
     (let fs = split_n record blank 11 in
      if length fs \<noteq> 11 \<or> fs ! 0 \<noteq> ''u'' \<or> \<not> is_unmerged_code (fs ! 1) \<or> \<not> is_submodule (fs ! 2)
         \<or> \<not> list_all is_mode (take 4 (drop 3 fs)) \<or> \<not> list_all is_object_id (take 3 (drop 7 fs))
         \<or> fs ! 10 = []
      then Inl ''malformed porcelain v2 unmerged record''
      else Inr \<lparr>fc_path = fs ! 10, fc_original = [], fc_index = Conflicted, fc_worktree = Conflicted\<rparr>)"

definition parse_record :: "string \<Rightarrow> string + file_change" where
  "parse_record record =
     (if record ! 0 = CHR ''1'' then parse_ordinary record
      else if record ! 0 = CHR ''?'' then parse_untracked record
      else if record ! 0 = CHR ''u'' then parse_unmerged record
      else Inl (''unknown porcelain v2 record type '' @ quote_rune (record ! 0)))"

text \<open>The loop; what it has collected is the front of the result, and an error drops it.\<close>

definition add_change :: "string + file_change \<Rightarrow> string + file_change list \<Rightarrow> string + file_change list" where
  "add_change c rest =
     (case c of Inl e \<Rightarrow> Inl e | Inr ch \<Rightarrow> (case rest of Inl e \<Rightarrow> Inl e | Inr chs \<Rightarrow> Inr (ch # chs)))"

lemma cut_length_le: "length (fst (snd (cut s c))) \<le> length s - 1"
proof -
  obtain b a ok where eq: "cut s c = (b, a, ok)" by (cases "cut s c") auto
  show ?thesis
  proof (cases ok)
    case True
    with cut_ok [of s c b a] eq have "s = b @ c # a" by simp
    with eq show ?thesis by simp
  next
    case False
    with cut_not_ok [of s c b a] eq show ?thesis by simp
  qed
qed

lemma cut_length: "s \<noteq> [] \<Longrightarrow> length (fst (snd (cut s c))) < length s"
  using cut_length_le [of s c] by (cases s) auto

lemma cut_cut_length: "s \<noteq> [] \<Longrightarrow> length (fst (snd (cut (fst (snd (cut s c))) c))) < length s"
  using cut_length_le [of "fst (snd (cut s c))" c] cut_length [of s c] by linarith

function parse_changes :: "string \<Rightarrow> string + file_change list" where
  "parse_changes input =
     (if input = [] then Inr []
      else let r = cut input nul; record = fst r; rest = fst (snd r) in
        if \<not> snd (snd r) then Inl ''porcelain v2 record is not NUL terminated''
        else if record = [] then Inl ''porcelain v2 contains an empty record''
        else if record ! 0 = CHR ''2'' then
          (let q = cut rest nul in
           if \<not> snd (snd q) then Inl ''porcelain v2 rename or copy record has no original path''
           else add_change (parse_rename_or_copy record (fst q)) (parse_changes (fst (snd q))))
        else if record ! 0 \<in> set ''1?u'' then add_change (parse_record record) (parse_changes rest)
        else parse_changes rest)"
  by pat_completeness auto

termination
  by (relation "measure length") (simp_all add: cut_length cut_cut_length)

declare parse_changes.simps [simp del]

end
