(* ===== verification/Status_Changes.thy ===== *)
theory Status_Changes
  imports Porcelain "HOL-Library.List_Lexorder" "HOL-Library.Char_ord" "HOL-Library.Product_Lexorder" "HOL-Library.Multiset"
begin

text \<open>
  The semantic view of local changes (\<open>internal/status/changes.go\<close>): records of one path are
  coalesced, sorted by path, counted and summed up. What running git gives is an argument.
\<close>

datatype change_state = State_Clean | State_Modified | State_Staged | State_Conflicted

record change_summary =
  cs_modified :: int
  cs_added :: int
  cs_deleted :: int
  cs_untracked :: int
  cs_staged :: int
  cs_conflicts :: int

record change_set =
  ct_state :: change_state
  ct_summary :: change_summary
  ct_files :: "file_change list"

subsection \<open>One change per path\<close>

definition merge_change :: "file_change \<Rightarrow> file_change \<Rightarrow> string + file_change" where
  "merge_change current file =
     (if fc_index current \<noteq> No_State \<and> fc_index file \<noteq> No_State \<and> fc_index current \<noteq> fc_index file
      then Inl (''incompatible index states for path '' @ go_quote (fc_path file))
      else if fc_worktree current \<noteq> No_State \<and> fc_worktree file \<noteq> No_State \<and> fc_worktree current \<noteq> fc_worktree file
      then Inl (''incompatible worktree states for path '' @ go_quote (fc_path file))
      else if fc_original current \<noteq> [] \<and> fc_original file \<noteq> [] \<and> fc_original current \<noteq> fc_original file
      then Inl (''incompatible original path values for path '' @ go_quote (fc_path file))
      else Inr (current\<lparr>
        fc_index := (if fc_index current = No_State then fc_index file else fc_index current),
        fc_worktree := (if fc_worktree current = No_State then fc_worktree file else fc_worktree current),
        fc_original := (if fc_original current = [] then fc_original file else fc_original current)\<rparr>))"

definition replace_change :: "file_change \<Rightarrow> file_change list \<Rightarrow> file_change list" where
  "replace_change m cs = map (\<lambda>c. if fc_path c = fc_path m then m else c) cs"

fun coalesce_into :: "file_change list \<Rightarrow> file_change list \<Rightarrow> string + file_change list" where
  "coalesce_into acc [] = Inr acc"
| "coalesce_into acc (f # fs) =
     (case find (\<lambda>c. fc_path c = fc_path f) acc of
        None \<Rightarrow> coalesce_into (acc @ [f]) fs
      | Some c \<Rightarrow>
          (case merge_change c f of
             Inl e \<Rightarrow> Inl e
           | Inr m \<Rightarrow> coalesce_into (replace_change m acc) fs))"

definition coalesce_file_changes :: "file_change list \<Rightarrow> string + file_change list" where
  "coalesce_file_changes fs = coalesce_into [] fs"

subsection \<open>Counting\<close>

definition primary_file_state :: "file_change \<Rightarrow> file_state" where
  "primary_file_state f =
     (let states = [fc_index f, fc_worktree f] in
      case find (\<lambda>c. c \<in> set states) [Conflicted, Untracked, Added, Deleted, Renamed, Copied, Modified] of
        Some c \<Rightarrow> c | None \<Rightarrow> No_State)"

definition count_file :: "file_change \<Rightarrow> change_summary \<Rightarrow> change_summary" where
  "count_file f s =
     (let s1 = (if fc_index f \<noteq> No_State \<and> fc_index f \<noteq> Conflicted then s\<lparr>cs_staged := cs_staged s + 1\<rparr> else s) in
      case primary_file_state f of
        Conflicted \<Rightarrow> s1\<lparr>cs_conflicts := cs_conflicts s1 + 1\<rparr>
      | Untracked \<Rightarrow> s1\<lparr>cs_untracked := cs_untracked s1 + 1\<rparr>
      | Added \<Rightarrow> s1\<lparr>cs_added := cs_added s1 + 1\<rparr>
      | Deleted \<Rightarrow> s1\<lparr>cs_deleted := cs_deleted s1 + 1\<rparr>
      | No_State \<Rightarrow> s1
      | _ \<Rightarrow> s1\<lparr>cs_modified := cs_modified s1 + 1\<rparr>)"

definition empty_summary :: change_summary where
  "empty_summary = \<lparr>cs_modified = 0, cs_added = 0, cs_deleted = 0, cs_untracked = 0, cs_staged = 0, cs_conflicts = 0\<rparr>"

text \<open>\<open>sort.Slice\<close> may order changes of equal path and original path in any way; the model keeps their
  order (after coalescing there are none).\<close>

definition derive_change_set :: "file_change list \<Rightarrow> change_set" where
  "derive_change_set files =
     (let ordered = sort_key (\<lambda>f. (fc_path f, fc_original f)) files;
          summary = fold count_file ordered empty_summary
      in \<lparr>ct_state =
            (if cs_conflicts summary > 0 then State_Conflicted
             else if cs_staged summary > 0 then State_Staged
             else if ordered \<noteq> [] then State_Modified else State_Clean),
          ct_summary = summary, ct_files = ordered\<rparr>)"

text \<open>\<open>CollectChanges\<close>: what git printed, or its error and whether the context was over by then.\<close>

definition collect_changes :: "(string \<times> string option) + string \<Rightarrow> string + change_set" where
  "collect_changes output =
     (case output of
        Inl (e, over) \<Rightarrow> Inl (''collect local changes: '' @ (case over of Some c \<Rightarrow> c | None \<Rightarrow> e))
      | Inr text \<Rightarrow>
          (case parse_changes text of
             Inl e \<Rightarrow> Inl (''parse local changes: '' @ e)
           | Inr files \<Rightarrow>
               (case coalesce_file_changes files of
                  Inl e \<Rightarrow> Inl (''coalesce local changes: '' @ e)
                | Inr cs \<Rightarrow> Inr (derive_change_set cs))))"

end
