(* ===== verification/Porcelain_Spec.thy ===== *)
theory Porcelain_Spec
  imports Porcelain
begin

text \<open>
  The language of the porcelain parser: the output git documents, entry by entry, and that the parser
  accepts exactly the concatenations of such entries and reads them as they were meant.
\<close>

subsection \<open>Fields\<close>

lemma split_n_join:
  "fs \<noteq> [] \<Longrightarrow> \<forall>f \<in> set (butlast fs). c \<notin> set f \<Longrightarrow> split_n (join [c] fs) c (length fs) = fs"
proof (induction "[c]" fs rule: join.induct)
  case (3 s t ss)
  then have "c \<notin> set s" by simp
  with cut_append [of c s "join [c] (t # ss)"] 3 show ?case by simp
qed simp_all

lemma split_n_known:
  "r = join [c] fs \<Longrightarrow> fs \<noteq> [] \<Longrightarrow> length fs = n \<Longrightarrow> \<forall>f \<in> set (butlast fs). c \<notin> set f \<Longrightarrow> split_n r c n = fs"
  using split_n_join by blast

lemma split_n_fields:
  "length (split_n s c n) = n \<Longrightarrow> 0 < n \<Longrightarrow>
     s = join [c] (split_n s c n) \<and> (\<forall>f \<in> set (butlast (split_n s c n)). c \<notin> set f)"
proof (induction s c n rule: split_n.induct)
  case (3 s c n)
  obtain b a ok where cut: "cut s c = (b, a, ok)" by (cases "cut s c") auto
  show ?case
  proof (cases ok)
    case True
    with cut_ok [of s c b a] cut have s: "s = b @ c # a" "c \<notin> set b" by simp_all
    from 3 cut True have IH: "a = join [c] (split_n a c (Suc n))" "\<forall>f \<in> set (butlast (split_n a c (Suc n))). c \<notin> set f"
      and len: "length (split_n a c (Suc n)) = Suc n" by auto
    then obtain t ts where ts: "split_n a c (Suc n) = t # ts" by (cases "split_n a c (Suc n)") auto
    have "split_n s c (Suc (Suc n)) = b # t # ts" using cut True ts by simp
    with s IH ts show ?thesis by simp
  next
    case False
    with 3 cut show ?thesis by simp
  qed
qed simp_all

definition state_char :: "char \<Rightarrow> bool" where
  "state_char c \<longleftrightarrow> c \<in> set ''.MTADRC''"

definition states_ok :: "string \<Rightarrow> bool" where
  "states_ok xy \<longleftrightarrow> length xy = 2 \<and> list_all state_char xy"

definition state_of :: "char \<Rightarrow> file_state" where
  "state_of c =
     (if c = CHR ''M'' \<or> c = CHR ''T'' then Modified else if c = CHR ''A'' then Added
      else if c = CHR ''D'' then Deleted else if c = CHR ''R'' then Renamed
      else if c = CHR ''C'' then Copied else No_State)"

lemma parse_state_eq:
  "parse_state c = (if state_char c then Inr (state_of c) else Inl (''unknown porcelain v2 state '' @ quote_rune c))"
  by (simp add: parse_state_def state_of_def state_char_def)

lemma parse_states_Inr:
  assumes "length xy = 2"
  shows "parse_states xy = Inr (i, w) \<longleftrightarrow> states_ok xy \<and> i = state_of (xy ! 0) \<and> w = state_of (xy ! 1)"
proof -
  from assms obtain x y where "xy = [x, y]" by (auto simp: numeral_eq_Suc length_Suc_conv)
  then show ?thesis by (auto simp: parse_states_def states_ok_def parse_state_eq)
qed

text \<open>No field but the path has a blank in it, and none has a NUL.\<close>

definition plain :: "string \<Rightarrow> bool" where "plain f \<longleftrightarrow> blank \<notin> set f \<and> nul \<notin> set f"

lemma plain_states: "states_ok xy \<Longrightarrow> plain xy"
proof -
  assume "states_ok xy"
  then have "\<forall>c \<in> set xy. c \<in> set ''.MTADRC''"
    unfolding states_ok_def list_all_iff state_char_def by blast
  moreover have "blank \<notin> set ''.MTADRC''" "nul \<notin> set ''.MTADRC''" by simp_all
  ultimately show ?thesis unfolding plain_def by blast
qed

lemma plain_mode: "is_mode f \<Longrightarrow> plain f"
  by (auto simp: is_mode_def plain_def list_all_iff code_def)

lemma plain_id: "is_object_id f \<Longrightarrow> plain f"
  by (auto simp: is_object_id_def plain_def list_all_iff is_hex_def is_digit_def code_def)

lemma plain_submodule: "is_submodule f \<Longrightarrow> plain f"
proof -
  assume a: "is_submodule f"
  show "plain f"
  proof (cases "f = ''N...''")
    case False
    with a have "length f = 4" by (simp add: is_submodule_def)
    then obtain a0 b c d where "f = [a0, b, c, d]" by (auto simp: numeral_eq_Suc length_Suc_conv)
    with a False show ?thesis by (auto simp: is_submodule_def plain_def)
  qed (simp add: plain_def)
qed

lemma plain_unmerged: "is_unmerged_code f \<Longrightarrow> plain f"
  unfolding is_unmerged_code_def plain_def by (elim insertE emptyE; simp)

lemma plain_score: "is_score f xy \<Longrightarrow> plain f"
  by (cases f) (auto simp: is_score_def plain_def list_all_iff is_digit_def code_def)

lemmas plain_fields = plain_states plain_mode plain_id plain_submodule plain_unmerged plain_score

subsection \<open>Entries\<close>

datatype status_entry =
    Ordinary_Entry string string "string list" "string list" string
  | Rename_Entry string string "string list" "string list" string string string
  | Unmerged_Entry string string "string list" "string list" string
  | Untracked_Entry string
  | Other_Entry string

fun entry_fields :: "status_entry \<Rightarrow> string list" where
  "entry_fields (Ordinary_Entry xy sub modes ids path) = [''1'', xy, sub] @ modes @ ids @ [path]"
| "entry_fields (Rename_Entry xy sub modes ids score path orig) = [''2'', xy, sub] @ modes @ ids @ [score, path]"
| "entry_fields (Unmerged_Entry xy sub modes ids path) = [''u'', xy, sub] @ modes @ ids @ [path]"
| "entry_fields (Untracked_Entry path) = [''?'', path]"
| "entry_fields (Other_Entry s) = [s]"

fun entry_original :: "status_entry \<Rightarrow> string" where
  "entry_original (Rename_Entry xy sub modes ids score path orig) = orig @ [nul]"
| "entry_original _ = []"

definition print_entry :: "status_entry \<Rightarrow> string" where
  "print_entry e = join [blank] (entry_fields e) @ [nul] @ entry_original e"

definition path_ok :: "string \<Rightarrow> bool" where
  "path_ok p \<longleftrightarrow> p \<noteq> [] \<and> nul \<notin> set p"

fun entry_ok :: "status_entry \<Rightarrow> bool" where
  "entry_ok (Ordinary_Entry xy sub modes ids path) \<longleftrightarrow> states_ok xy \<and> is_submodule sub
     \<and> length modes = 3 \<and> list_all is_mode modes \<and> length ids = 2 \<and> list_all is_object_id ids \<and> path_ok path"
| "entry_ok (Rename_Entry xy sub modes ids score path orig) \<longleftrightarrow> states_ok xy \<and> is_submodule sub
     \<and> length modes = 3 \<and> list_all is_mode modes \<and> length ids = 2 \<and> list_all is_object_id ids
     \<and> is_score score xy \<and> path_ok path \<and> path_ok orig"
| "entry_ok (Unmerged_Entry xy sub modes ids path) \<longleftrightarrow> is_unmerged_code xy \<and> is_submodule sub
     \<and> length modes = 4 \<and> list_all is_mode modes \<and> length ids = 3 \<and> list_all is_object_id ids \<and> path_ok path"
| "entry_ok (Untracked_Entry path) \<longleftrightarrow> path_ok path"
| "entry_ok (Other_Entry s) \<longleftrightarrow> path_ok s \<and> s ! 0 \<notin> set ''12?u''"

text \<open>What an entry says; header lines and ignored paths say nothing.\<close>

fun entry_changes :: "status_entry \<Rightarrow> file_change list" where
  "entry_changes (Ordinary_Entry xy sub modes ids path) =
     [\<lparr>fc_path = path, fc_original = [], fc_index = state_of (xy ! 0), fc_worktree = state_of (xy ! 1)\<rparr>]"
| "entry_changes (Rename_Entry xy sub modes ids score path orig) =
     [\<lparr>fc_path = path, fc_original = orig, fc_index = state_of (xy ! 0), fc_worktree = state_of (xy ! 1)\<rparr>]"
| "entry_changes (Unmerged_Entry xy sub modes ids path) =
     [\<lparr>fc_path = path, fc_original = [], fc_index = Conflicted, fc_worktree = Conflicted\<rparr>]"
| "entry_changes (Untracked_Entry path) =
     [\<lparr>fc_path = path, fc_original = [], fc_index = No_State, fc_worktree = Untracked\<rparr>]"
| "entry_changes (Other_Entry s) = []"

lemma entry_record_no_nul: "entry_ok e \<Longrightarrow> nul \<notin> set (join [blank] (entry_fields e))"
proof -
  have j: "nul \<notin> set (join [blank] fs)" if "\<forall>f \<in> set fs. nul \<notin> set f" for fs
    using that by (induction "[blank]" fs rule: join.induct) auto
  assume "entry_ok e"
  then have "\<forall>f \<in> set (entry_fields e). nul \<notin> set f"
    by (cases e; auto simp: path_ok_def list_all_iff dest: plain_fields simp: plain_def; metis plain_def plain_mode plain_id)
  then show ?thesis by (rule j)
qed

subsection \<open>Records\<close>

lemma fields_9: "length xs = 9 \<Longrightarrow> \<exists>a b c d e f g h i. xs = [a, b, c, d, e, f, g, h, i]"
  by (auto simp: numeral_eq_Suc length_Suc_conv)

lemma fields_10: "length xs = 10 \<Longrightarrow> \<exists>a b c d e f g h i j. xs = [a, b, c, d, e, f, g, h, i, j]"
  by (auto simp: numeral_eq_Suc length_Suc_conv)

lemma fields_11: "length xs = 11 \<Longrightarrow> \<exists>a b c d e f g h i j k. xs = [a, b, c, d, e, f, g, h, i, j, k]"
  by (auto simp: numeral_eq_Suc length_Suc_conv)

lemma ordinary_record:
  assumes "nul \<notin> set r"
  shows "parse_ordinary r = Inr ch \<longleftrightarrow> (\<exists>xy sub modes ids path.
     let e = Ordinary_Entry xy sub modes ids path in
     entry_ok e \<and> r = join [blank] (entry_fields e) \<and> entry_changes e = [ch])" (is "_ \<longleftrightarrow> ?R")
proof
  let ?fs = "split_n r blank 9"
  assume p: "parse_ordinary r = Inr ch"
  then have len: "length ?fs = 9" by (simp add: parse_ordinary_def Let_def split: if_splits)
  from fields_9 [OF len] obtain a b c d e f g h i where fs: "?fs = [a, b, c, d, e, f, g, h, i]" by blast
  note r = split_n_fields [OF len, simplified, THEN conjunct1, unfolded fs]
  have ok: "a = ''1''" "length b = 2" "is_submodule c" "list_all is_mode [d, e, f]" "list_all is_object_id [g, h]" "i \<noteq> []"
    using p by (simp_all add: parse_ordinary_def fs Let_def split: if_splits)
  with p obtain ix w where st: "parse_states b = Inr (ix, w)"
    and ch: "ch = \<lparr>fc_path = i, fc_original = [], fc_index = ix, fc_worktree = w\<rparr>"
    by (auto simp: parse_ordinary_def fs Let_def split: sum.splits)
  have "nul \<notin> set i" using assms by (subst (asm) r) simp
  with ok st ch r have "let e = Ordinary_Entry b c [d, e, f] [g, h] i in
      entry_ok e \<and> r = join [blank] (entry_fields e) \<and> entry_changes e = [ch]"
    by (simp add: path_ok_def parse_states_Inr)
  then show ?R by blast
next
  assume ?R
  then obtain xy sub modes ids path where ok: "entry_ok (Ordinary_Entry xy sub modes ids path)"
    and r: "r = join [blank] (entry_fields (Ordinary_Entry xy sub modes ids path))"
    and ch: "entry_changes (Ordinary_Entry xy sub modes ids path) = [ch]" by (auto simp only: Let_def)
  from ok obtain d e f g h where m: "modes = [d, e, f]" "ids = [g, h]"
    by (auto simp: numeral_eq_Suc length_Suc_conv)
  have "\<forall>x \<in> set (butlast [''1'', xy, sub, d, e, f, g, h, path]). blank \<notin> set x"
    using ok by (auto simp: m plain_def dest: plain_fields)
  from split_n_known [OF _ _ _ this, of r 9] r have "split_n r blank 9 = [''1'', xy, sub, d, e, f, g, h, path]"
    by (simp add: m)
  with ok ch m show "parse_ordinary r = Inr ch"
    by (auto simp: parse_ordinary_def path_ok_def states_ok_def parse_states_Inr [THEN iffD2])
qed
lemma rename_record:
  assumes "nul \<notin> set r" and "nul \<notin> set orig"
  shows "parse_rename_or_copy r orig = Inr ch \<longleftrightarrow> (\<exists>xy sub modes ids score path.
     let e = Rename_Entry xy sub modes ids score path orig in
     entry_ok e \<and> r = join [blank] (entry_fields e) \<and> entry_changes e = [ch])" (is "_ \<longleftrightarrow> ?R")
proof
  let ?fs = "split_n r blank 10"
  assume p: "parse_rename_or_copy r orig = Inr ch"
  then have len: "length ?fs = 10" by (simp add: parse_rename_or_copy_def Let_def split: if_splits)
  from fields_10 [OF len] obtain a b c d e f g h s i where fs: "?fs = [a, b, c, d, e, f, g, h, s, i]" by blast
  note r = split_n_fields [OF len, simplified, THEN conjunct1, unfolded fs]
  have ok: "a = ''2''" "length b = 2" "is_submodule c" "list_all is_mode [d, e, f]" "list_all is_object_id [g, h]" "i \<noteq> []"
    "orig \<noteq> []" "is_score s b"
    using p by (simp_all add: parse_rename_or_copy_def fs Let_def split: if_splits)
  with p obtain ix w where st: "parse_states b = Inr (ix, w)"
    and ch: "ch = \<lparr>fc_path = i, fc_original = orig, fc_index = ix, fc_worktree = w\<rparr>"
    by (auto simp: parse_rename_or_copy_def fs Let_def split: sum.splits)
  have "nul \<notin> set i" using assms(1) by (subst (asm) r) simp
  with ok st ch r assms(2) have "let e = Rename_Entry b c [d, e, f] [g, h] s i orig in
      entry_ok e \<and> r = join [blank] (entry_fields e) \<and> entry_changes e = [ch]"
    by (simp add: path_ok_def parse_states_Inr)
  then show ?R by blast
next
  assume ?R
  then obtain xy sub modes ids score path where ok: "entry_ok (Rename_Entry xy sub modes ids score path orig)"
    and r: "r = join [blank] (entry_fields (Rename_Entry xy sub modes ids score path orig))"
    and ch: "entry_changes (Rename_Entry xy sub modes ids score path orig) = [ch]" by (auto simp only: Let_def)
  from ok obtain d e f g h where m: "modes = [d, e, f]" "ids = [g, h]"
    by (auto simp: numeral_eq_Suc length_Suc_conv)
  have "\<forall>x \<in> set (butlast [''2'', xy, sub, d, e, f, g, h, score, path]). blank \<notin> set x"
    using ok by (auto simp: m plain_def dest: plain_fields)
  from split_n_known [OF _ _ _ this, of r 10] r have "split_n r blank 10 = [''2'', xy, sub, d, e, f, g, h, score, path]"
    by (simp add: m)
  with ok ch m show "parse_rename_or_copy r orig = Inr ch"
    by (auto simp: parse_rename_or_copy_def path_ok_def states_ok_def parse_states_Inr [THEN iffD2])
qed
lemma unmerged_record:
  assumes "nul \<notin> set r"
  shows "parse_unmerged r = Inr ch \<longleftrightarrow> (\<exists>xy sub modes ids path.
     let e = Unmerged_Entry xy sub modes ids path in
     entry_ok e \<and> r = join [blank] (entry_fields e) \<and> entry_changes e = [ch])" (is "_ \<longleftrightarrow> ?R")
proof
  let ?fs = "split_n r blank 11"
  assume p: "parse_unmerged r = Inr ch"
  then have len: "length ?fs = 11" by (simp add: parse_unmerged_def Let_def split: if_splits)
  from fields_11 [OF len] obtain a b c d e f m g h h' i where fs: "?fs = [a, b, c, d, e, f, m, g, h, h', i]" by blast
  note r = split_n_fields [OF len, simplified, THEN conjunct1, unfolded fs]
  have ok: "a = ''u''" "is_unmerged_code b" "is_submodule c" "list_all is_mode [d, e, f, m]" "list_all is_object_id [g, h, h']" "i \<noteq> []"
    using p by (simp_all add: parse_unmerged_def fs Let_def split: if_splits)
  with p have ch: "ch = \<lparr>fc_path = i, fc_original = [], fc_index = Conflicted, fc_worktree = Conflicted\<rparr>"
    by (simp add: parse_unmerged_def fs)
  have "nul \<notin> set i" using assms by (subst (asm) r) simp
  with ok ch r have "let e = Unmerged_Entry b c [d, e, f, m] [g, h, h'] i in
      entry_ok e \<and> r = join [blank] (entry_fields e) \<and> entry_changes e = [ch]"
    by (simp add: path_ok_def)
  then show ?R by blast
next
  assume ?R
  then obtain xy sub modes ids path where ok: "entry_ok (Unmerged_Entry xy sub modes ids path)"
    and r: "r = join [blank] (entry_fields (Unmerged_Entry xy sub modes ids path))"
    and ch: "entry_changes (Unmerged_Entry xy sub modes ids path) = [ch]" by (auto simp only: Let_def)
  from ok obtain d e f n g h h' where m: "modes = [d, e, f, n]" "ids = [g, h, h']"
    by (auto simp: numeral_eq_Suc length_Suc_conv)
  have "\<forall>x \<in> set (butlast [''u'', xy, sub, d, e, f, n, g, h, h', path]). blank \<notin> set x"
    using ok by (auto simp: m plain_def dest: plain_fields)
  from split_n_known [OF _ _ _ this, of r 11] r have "split_n r blank 11 = [''u'', xy, sub, d, e, f, n, g, h, h', path]"
    by (simp add: m)
  with ok ch m show "parse_unmerged r = Inr ch"
    by (auto simp: parse_unmerged_def path_ok_def)
qed

lemma untracked_record:
  assumes "nul \<notin> set r" and "r \<noteq> []" and "r ! 0 = CHR ''?''"
  shows "parse_untracked r = Inr ch \<longleftrightarrow> (\<exists>path. entry_ok (Untracked_Entry path)
     \<and> r = join [blank] (entry_fields (Untracked_Entry path)) \<and> entry_changes (Untracked_Entry path) = [ch])"
    (is "_ \<longleftrightarrow> ?R")
proof
  assume p: "parse_untracked r = Inr ch"
  then have r: "3 \<le> length r" "r ! 1 = blank" by (simp_all add: parse_untracked_def split: if_splits)
  then obtain q path where q: "r = q # blank # path" "path \<noteq> []"
    by (cases r; cases "tl r"; cases "tl (tl r)") auto
  with assms p show ?R by (intro exI [of _ path]) (auto simp: parse_untracked_def path_ok_def)
next
  assume ?R
  then show "parse_untracked r = Inr ch" by (auto simp: parse_untracked_def path_ok_def Suc_le_eq)
qed

text \<open>A record of one line, and its first character.\<close>

lemma entry_head:
  "entry_ok e \<Longrightarrow> join [blank] (entry_fields e) \<noteq> [] \<and> join [blank] (entry_fields e) ! 0 =
     (case e of Ordinary_Entry _ _ _ _ _ \<Rightarrow> CHR ''1'' | Rename_Entry _ _ _ _ _ _ _ \<Rightarrow> CHR ''2''
       | Unmerged_Entry _ _ _ _ _ \<Rightarrow> CHR ''u'' | Untracked_Entry _ \<Rightarrow> CHR ''?'' | Other_Entry s \<Rightarrow> s ! 0)"
  by (cases e) (auto simp: path_ok_def)

lemma parse_record_entry:
  assumes "nul \<notin> set r" and "r \<noteq> []" and "r ! 0 \<in> set ''1?u''"
  shows "parse_record r = Inr ch \<longleftrightarrow>
     (\<exists>e. entry_ok e \<and> r = join [blank] (entry_fields e) \<and> entry_original e = [] \<and> entry_changes e = [ch])" (is "_ \<longleftrightarrow> ?R")
proof
  assume p: "parse_record r = Inr ch"
  from assms(3) consider "r ! 0 = CHR ''1''" | "r ! 0 = CHR ''?''" | "r ! 0 = CHR ''u''" by auto
  then show ?R
  proof cases
    case 1
    with p have "parse_ordinary r = Inr ch" by (simp add: parse_record_def)
    then obtain xy sub modes ids path where "entry_ok (Ordinary_Entry xy sub modes ids path)"
      "r = join [blank] (entry_fields (Ordinary_Entry xy sub modes ids path))"
      "entry_changes (Ordinary_Entry xy sub modes ids path) = [ch]"
      unfolding ordinary_record [OF assms(1)] Let_def by blast
    moreover have "entry_original (Ordinary_Entry xy sub modes ids path) = []" by simp
    ultimately show ?thesis by blast
  next
    case 2
    with p have "parse_untracked r = Inr ch" by (simp add: parse_record_def)
    then obtain path where "entry_ok (Untracked_Entry path)"
      "r = join [blank] (entry_fields (Untracked_Entry path))" "entry_changes (Untracked_Entry path) = [ch]"
      unfolding untracked_record [OF assms(1,2) 2] by blast
    moreover have "entry_original (Untracked_Entry path) = []" by simp
    ultimately show ?thesis by blast
  next
    case 3
    with p have "parse_unmerged r = Inr ch" by (simp add: parse_record_def)
    then obtain xy sub modes ids path where "entry_ok (Unmerged_Entry xy sub modes ids path)"
      "r = join [blank] (entry_fields (Unmerged_Entry xy sub modes ids path))"
      "entry_changes (Unmerged_Entry xy sub modes ids path) = [ch]"
      unfolding unmerged_record [OF assms(1)] Let_def by blast
    moreover have "entry_original (Unmerged_Entry xy sub modes ids path) = []" by simp
    ultimately show ?thesis by blast
  qed
next
  assume ?R
  then obtain e where e: "entry_ok e" "r = join [blank] (entry_fields e)" "entry_original e = []" "entry_changes e = [ch]"
    by blast
  note h = entry_head [OF e(1), folded e(2)]
  show "parse_record r = Inr ch"
  proof (cases e)
    case (Ordinary_Entry xy sub modes ids path)
    with h have "r ! 0 = CHR ''1''" by simp
    moreover have "parse_ordinary r = Inr ch" unfolding ordinary_record [OF assms(1)] Let_def using e Ordinary_Entry by blast
    ultimately show ?thesis by (simp add: parse_record_def)
  next
    case (Unmerged_Entry xy sub modes ids path)
    with h have "r ! 0 = CHR ''u''" by simp
    moreover have "parse_unmerged r = Inr ch" unfolding unmerged_record [OF assms(1)] Let_def using e Unmerged_Entry by blast
    ultimately show ?thesis by (simp add: parse_record_def)
  next
    case (Untracked_Entry path)
    with h have q: "r ! 0 = CHR ''?''" by simp
    moreover have "parse_untracked r = Inr ch" unfolding untracked_record [OF assms(1,2) q] using e Untracked_Entry by blast
    ultimately show ?thesis by (simp add: parse_record_def)
  qed (use e in simp_all)
qed

subsection \<open>The whole output\<close>

lemma parse_changes_Nil: "parse_changes [] = Inr []"
  by (simp add: parse_changes.simps)

lemma add_change_Inr: "add_change c rest = Inr cs \<longleftrightarrow> (\<exists>ch chs. c = Inr ch \<and> rest = Inr chs \<and> cs = ch # chs)"
  by (auto simp: add_change_def split: sum.splits)

lemma parse_changes_record:
  assumes "nul \<notin> set r" and "r \<noteq> []"
  shows "parse_changes (r @ nul # rest) =
     (if r ! 0 = CHR ''2'' then
        (let q = cut rest nul in
         if \<not> snd (snd q) then Inl ''porcelain v2 rename or copy record has no original path''
         else add_change (parse_rename_or_copy r (fst q)) (parse_changes (fst (snd q))))
      else if r ! 0 \<in> set ''1?u'' then add_change (parse_record r) (parse_changes rest)
      else parse_changes rest)"
  using assms by (subst parse_changes.simps) (simp add: cut_append Let_def)

lemma parse_printed: "entry_ok e \<Longrightarrow> parse_changes (print_entry e @ rest) = Inr cs \<longleftrightarrow>
    (\<exists>cs'. parse_changes rest = Inr cs' \<and> cs = entry_changes e @ cs')"
proof -
  assume ok: "entry_ok e"
  let ?r = "join [blank] (entry_fields e)"
  note r = entry_record_no_nul [OF ok]
  have ne: "?r \<noteq> []" using entry_head [OF ok] by blast
  note step = parse_changes_record [OF r ne]
  have simple: ?thesis if "?r ! 0 \<in> set ''1?u''" "entry_original e = []" "entry_changes e = [ch]" for ch
  proof -
    have "parse_record ?r = Inr ch" unfolding parse_record_entry [OF r ne that(1)] using ok that(2,3) by blast
    moreover have "?r ! 0 \<noteq> CHR ''2''" using that(1) by auto
    ultimately have "parse_changes (print_entry e @ rest) = add_change (Inr ch) (parse_changes rest)"
      using step [of rest] that(1,2) by (simp add: print_entry_def)
    then show ?thesis by (auto simp: add_change_Inr that(3))
  qed
  show ?thesis
  proof (cases e)
    case (Rename_Entry xy sub modes ids score path orig)
    with entry_head [OF ok] have "?r ! 0 = CHR ''2''" by simp
    moreover have orig: "nul \<notin> set orig" using ok Rename_Entry by (simp add: path_ok_def)
    moreover have "parse_rename_or_copy ?r orig = Inr (hd (entry_changes e))"
      unfolding rename_record [OF r orig] Let_def using ok unfolding Rename_Entry
      by (intro exI conjI) (assumption, rule refl, simp)
    ultimately show ?thesis using step [of "orig @ nul # rest"]
      by (simp add: print_entry_def Rename_Entry cut_append add_change_def del: entry_fields.simps split: sum.splits) auto
  next
    case (Other_Entry s)
    with entry_head [OF ok] ok have "?r ! 0 \<noteq> CHR ''2''" "?r ! 0 \<notin> set ''1?u''" by simp_all
    then show ?thesis using step [of rest] by (simp add: print_entry_def Other_Entry)
  qed (use entry_head [OF ok] simple in simp_all)
qed

lemma parse_changes_sound:
  "parse_changes input = Inr cs \<Longrightarrow>
     \<exists>es. list_all entry_ok es \<and> input = concat (map print_entry es) \<and> cs = concat (map entry_changes es)"
proof (induction input arbitrary: cs rule: length_induct)
  case (1 input)
  show ?case
  proof (cases "input = []")
    case True
    with "1.prems" show ?thesis by (intro exI [of _ "[]"]) (simp add: parse_changes_Nil)
  next
    case False
    obtain r rest ok where cut: "cut input nul = (r, rest, ok)" by (cases "cut input nul") auto
    from "1.prems" False cut have ok: ok and ne: "r \<noteq> []" by (subst (asm) parse_changes.simps, simp split: if_splits)+
    with cut have input: "input = r @ nul # rest" and r: "nul \<notin> set r" using cut_ok [of input nul r rest] by simp_all
    note step = "1.prems" [unfolded input parse_changes_record [OF r ne]]
    have finish: ?thesis if e: "entry_ok e" "print_entry e @ rest' = input" "parse_changes rest' = Inr cs'"
      "cs = entry_changes e @ cs'" for e rest' cs'
    proof -
      have "length rest' < length input" using e(2) by (auto simp: print_entry_def)
      with "1.IH" e(3) obtain es where "list_all entry_ok es" "rest' = concat (map print_entry es)"
        "cs' = concat (map entry_changes es)" by blast
      with e show ?thesis by (intro exI [of _ "e # es"]) simp
    qed
    consider "r ! 0 = CHR ''2''" | "r ! 0 \<in> set ''1?u''" | "r ! 0 \<noteq> CHR ''2''" "r ! 0 \<notin> set ''1?u''" by blast
    then show ?thesis
    proof cases
      case 1
      obtain orig rest' ok' where cut': "cut rest nul = (orig, rest', ok')" by (cases "cut rest nul") auto
      from step 1 cut' have ok': ok' by (simp add: Let_def split: if_splits)
      with cut' have rest: "rest = orig @ nul # rest'" "nul \<notin> set orig" using cut_ok [of rest nul orig rest'] by simp_all
      from step 1 cut' ok' have "add_change (parse_rename_or_copy r orig) (parse_changes rest') = Inr cs" by simp
      then obtain ch cs' where p: "parse_rename_or_copy r orig = Inr ch" and cs': "parse_changes rest' = Inr cs'" "cs = ch # cs'"
        by (auto simp: add_change_Inr)
      from p obtain xy sub modes ids score path where e: "entry_ok (Rename_Entry xy sub modes ids score path orig)"
        "r = join [blank] (entry_fields (Rename_Entry xy sub modes ids score path orig))"
        "entry_changes (Rename_Entry xy sub modes ids score path orig) = [ch]"
        unfolding rename_record [OF r rest(2)] Let_def by blast
      have "print_entry (Rename_Entry xy sub modes ids score path orig) @ rest' = input"
        by (simp only: print_entry_def e(2) [symmetric] input rest(1) entry_original.simps append.simps append_assoc)
      from finish [OF e(1) this cs'(1)] cs'(2) e(3) show ?thesis by simp
    next
      case 2
      then have "r ! 0 \<noteq> CHR ''2''" by auto
      with step 2 have "add_change (parse_record r) (parse_changes rest) = Inr cs" by (simp only: if_False if_True)
      then obtain ch cs' where p: "parse_record r = Inr ch" and cs': "parse_changes rest = Inr cs'" "cs = ch # cs'"
        by (auto simp: add_change_Inr)
      from p obtain e where e: "entry_ok e" "r = join [blank] (entry_fields e)" "entry_original e = []" "entry_changes e = [ch]"
        unfolding parse_record_entry [OF r ne 2] by blast
      have "print_entry e @ rest = input"
        by (simp only: print_entry_def e(2) [symmetric] e(3) input append.simps append_assoc)
      from finish [OF e(1) this cs'(1)] cs'(2) e(4) show ?thesis by simp
    next
      case 3
      with step have cs: "parse_changes rest = Inr cs" by (simp only: if_False)
      from 3 have "r ! 0 \<notin> set ''12?u''" by auto
      then have e: "entry_ok (Other_Entry r)" using r ne by (simp add: path_ok_def)
      have "print_entry (Other_Entry r) @ rest = input" by (simp add: print_entry_def input)
      from finish [OF e this cs] show ?thesis by simp
    qed
  qed
qed

text \<open>
  C39. The porcelain parser reads exactly the output git documents: it accepts an input if and only if it
  is a concatenation of well-formed entries, each ended by a NUL, and then gives the changes the entries say,
  in their order, with paths that may hold any byte but NUL.
\<close>

theorem porcelain_exact:
  "parse_changes input = Inr cs \<longleftrightarrow>
     (\<exists>es. list_all entry_ok es \<and> input = concat (map print_entry es) \<and> cs = concat (map entry_changes es))"
proof
  assume "\<exists>es. list_all entry_ok es \<and> input = concat (map print_entry es) \<and> cs = concat (map entry_changes es)"
  then obtain es where "list_all entry_ok es" "input = concat (map print_entry es)" "cs = concat (map entry_changes es)"
    by blast
  then show "parse_changes input = Inr cs"
    by (induction es arbitrary: input cs) (auto simp: parse_changes_Nil parse_printed)
qed (rule parse_changes_sound)

end
