(* ===== verification/Status_Spec.thy ===== *)
theory Status_Spec
  imports Status_Changes Porcelain_Spec
begin

text \<open>
  What the semantic view of local changes says of the records: coalescing is decided by whether the
  records of each path agree, the files are the changed paths in order, and the counts are a partition.
\<close>

subsection \<open>Coalescing\<close>

text \<open>Two changes of one path fit when no two values they give differ.\<close>

definition fits :: "file_change \<Rightarrow> file_change \<Rightarrow> bool" where
  "fits c d \<longleftrightarrow> (fc_index c = No_State \<or> fc_index d = No_State \<or> fc_index c = fc_index d)
     \<and> (fc_worktree c = No_State \<or> fc_worktree d = No_State \<or> fc_worktree c = fc_worktree d)
     \<and> (fc_original c = [] \<or> fc_original d = [] \<or> fc_original c = fc_original d)"

text \<open>Whether a list of values holds one besides a given default, and at most one.\<close>

definition only_value :: "'a \<Rightarrow> 'a list \<Rightarrow> 'a \<Rightarrow> bool" where
  "only_value none xs v \<longleftrightarrow> (if \<forall>x \<in> set xs. x = none then v = none else v \<noteq> none \<and> v \<in> set xs)"

definition group :: "file_change list \<Rightarrow> string \<Rightarrow> file_change list" where
  "group fs p = filter (\<lambda>f. fc_path f = p) fs"

text \<open>A coalesced change says of its path what some record of the path says.\<close>

definition sums_up :: "file_change list \<Rightarrow> file_change \<Rightarrow> bool" where
  "sums_up fs c \<longleftrightarrow> (\<forall>f \<in> set fs. fc_path f = fc_path c)
     \<and> only_value No_State (map fc_index fs) (fc_index c)
     \<and> only_value No_State (map fc_worktree fs) (fc_worktree c)
     \<and> only_value [] (map fc_original fs) (fc_original c)"

definition consistent :: "file_change list \<Rightarrow> bool" where
  "consistent fs \<longleftrightarrow> (\<forall>c \<in> set fs. \<forall>d \<in> set fs. fc_path c = fc_path d \<longrightarrow> fits c d)"

lemma merge_change_Inr: "fc_path c = fc_path f \<Longrightarrow> fits c f \<Longrightarrow> sums_up fs c \<Longrightarrow>
    \<exists>m. merge_change c f = Inr m \<and> fc_path m = fc_path c \<and> sums_up (fs @ [f]) m"
  by (auto simp: merge_change_def fits_def sums_up_def only_value_def split: if_splits)

lemma merge_change_Inl: "merge_change c f = Inl e \<Longrightarrow> \<not> fits c f"
  by (auto simp: merge_change_def fits_def split: if_splits)

lemma merge_change_fits: "merge_change c f = Inr m \<Longrightarrow> fits c f"
  by (auto simp: merge_change_def fits_def split: if_splits)

lemma fits_refl [simp]: "fits c c" by (simp add: fits_def)

lemma fits_sym: "fits c d \<Longrightarrow> fits d c" by (auto simp: fits_def)

lemma group_fits:
  assumes "sums_up g c" and "consistent g"
  shows "fits c f \<longleftrightarrow> (\<forall>d \<in> set g. fits d f)"
proof -
  have agree: "v = u" if "only_value none (map h g) v" "d \<in> set g" "u = h d" "u \<noteq> none"
    "\<forall>x \<in> set g. \<forall>y \<in> set g. h x = none \<or> h y = none \<or> h x = h y" for none :: 'b and h v u d
  proof -
    from that have "v \<noteq> none" "v \<in> h ` set g" by (auto simp: only_value_def split: if_splits)
    then obtain x where "x \<in> set g" "v = h x" by blast
    with that \<open>v \<noteq> none\<close> show ?thesis by metis
  qed
  have same: "\<forall>x \<in> set g. \<forall>y \<in> set g. fits x y"
    using assms by (simp add: sums_up_def consistent_def)
  have held: "v = none \<or> (\<exists>d \<in> set g. v = h d)" if "only_value none (map h g) v" for none :: 'b and h v
    using that by (auto simp: only_value_def split: if_splits)
  show ?thesis
  proof
    assume f: "fits c f"
    show "\<forall>d \<in> set g. fits d f"
    proof
      fix d assume d: "d \<in> set g"
      have "fc_index d = No_State \<or> fc_index c = fc_index d"
        using agree [of No_State fc_index "fc_index c" d] assms(1) d same by (auto simp: sums_up_def fits_def)
      moreover have "fc_worktree d = No_State \<or> fc_worktree c = fc_worktree d"
        using agree [of No_State fc_worktree "fc_worktree c" d] assms(1) d same by (auto simp: sums_up_def fits_def)
      moreover have "fc_original d = [] \<or> fc_original c = fc_original d"
        using agree [of "[]" fc_original "fc_original c" d] assms(1) d same by (auto simp: sums_up_def fits_def)
      ultimately show "fits d f" using f by (auto simp: fits_def)
    qed
  next
    assume all: "\<forall>d \<in> set g. fits d f"
    have "fc_index c = No_State \<or> (\<exists>d \<in> set g. fc_index c = fc_index d)"
      using held [of No_State fc_index "fc_index c"] assms(1) by (simp add: sums_up_def)
    moreover have "fc_worktree c = No_State \<or> (\<exists>d \<in> set g. fc_worktree c = fc_worktree d)"
      using held [of No_State fc_worktree "fc_worktree c"] assms(1) by (simp add: sums_up_def)
    moreover have "fc_original c = [] \<or> (\<exists>d \<in> set g. fc_original c = fc_original d)"
      using held [of "[]" fc_original "fc_original c"] assms(1) by (simp add: sums_up_def)
    ultimately show "fits c f" using all unfolding fits_def by metis
  qed
qed

definition firsts :: "'a list \<Rightarrow> 'a list" where
  "firsts xs = rev (remdups (rev xs))"

lemma firsts_append: "firsts (xs @ [x]) = (if x \<in> set xs then firsts xs else firsts xs @ [x])"
  by (simp add: firsts_def)

lemma firsts_set [simp]: "set (firsts xs) = set xs" "distinct (firsts xs)"
  by (simp_all add: firsts_def)

definition coalesced :: "file_change list \<Rightarrow> file_change list \<Rightarrow> bool" where
  "coalesced fs cs \<longleftrightarrow> consistent fs \<and> map fc_path cs = firsts (map fc_path fs)
     \<and> (\<forall>c \<in> set cs. sums_up (group fs (fc_path c)) c)"

lemma consistent_snoc:
  "consistent (fs @ [f]) \<longleftrightarrow> consistent fs \<and> (\<forall>d \<in> set (group fs (fc_path f)). fits d f)"
  unfolding consistent_def group_def by (auto dest: fits_sym)

lemma consistent_prefix: "consistent (xs @ ys) \<Longrightarrow> consistent xs"
  by (simp add: consistent_def)

lemma group_snoc: "group (fs @ [f]) p = group fs p @ (if fc_path f = p then [f] else [])"
  by (simp add: group_def)

lemma coalesced_new:
  assumes "coalesced fs acc" and "\<forall>c \<in> set acc. fc_path c \<noteq> fc_path f"
  shows "coalesced (fs @ [f]) (acc @ [f])"
proof -
  from assms have "fc_path f \<notin> set (firsts (map fc_path fs))" unfolding coalesced_def by (metis imageE list.set_map)
  then have new: "fc_path f \<notin> fc_path ` set fs" by simp
  then have empty: "group fs (fc_path f) = []" unfolding group_def filter_empty_conv by (metis imageI)
  have "sums_up [f] f" by (simp add: sums_up_def only_value_def)
  with assms new empty show ?thesis
    by (auto simp: coalesced_def consistent_snoc firsts_append group_snoc)
qed

lemma coalesced_merge:
  assumes "coalesced fs acc" and "c \<in> set acc" "fc_path c = fc_path f" and "merge_change c f = Inr m"
  shows "coalesced (fs @ [f]) (replace_change m acc)"
proof -
  let ?g = "group fs (fc_path f)"
  have s: "sums_up ?g c" and con: "consistent fs" using assms(1-3) by (auto simp: coalesced_def)
  then have cg: "consistent ?g" by (auto simp: consistent_def group_def)
  have f: "fits c f" by (rule merge_change_fits [OF assms(4)])
  from merge_change_Inr [OF assms(3) f s] assms(4) have m: "fc_path m = fc_path f" "sums_up (?g @ [f]) m"
    using assms(3) by auto
  have "fc_path f \<in> set (firsts (map fc_path fs))" using assms(1-3) unfolding coalesced_def by (metis image_eqI list.set_map)
  moreover have "map fc_path (replace_change m acc) = map fc_path acc" by (simp add: replace_change_def)
  moreover have "consistent (fs @ [f])" using con group_fits [OF s cg] f by (simp add: consistent_snoc)
  moreover have "sums_up (group (fs @ [f]) (fc_path d)) d" if "d \<in> set (replace_change m acc)" for d
    using that m assms(1) by (auto simp: replace_change_def group_snoc coalesced_def)
  ultimately show ?thesis using assms(1) by (simp add: coalesced_def firsts_append)
qed

lemma coalesce_into_spec:
  "coalesced seen acc \<Longrightarrow>
     (case coalesce_into acc fs of Inl e \<Rightarrow> \<not> consistent (seen @ fs) | Inr cs \<Rightarrow> coalesced (seen @ fs) cs)"
proof (induction fs arbitrary: seen acc)
  case (Cons f fs)
  have app: "seen @ f # fs = (seen @ [f]) @ fs" by simp
  show ?case
  proof (cases "find (\<lambda>c. fc_path c = fc_path f) acc")
    case None
    then have "\<forall>c \<in> set acc. fc_path c \<noteq> fc_path f" by (simp add: find_None_iff)
    from Cons.IH [OF coalesced_new [OF Cons.prems this]] None show ?thesis unfolding app by simp
  next
    case (Some c)
    then have c: "c \<in> set acc" "fc_path c = fc_path f" by (auto simp: find_Some_iff)
    show ?thesis
    proof (cases "merge_change c f")
      case (Inr m)
      from Cons.IH [OF coalesced_merge [OF Cons.prems c Inr]] Inr Some show ?thesis unfolding app by simp
    next
      case (Inl e)
      let ?g = "group seen (fc_path f)"
      have s: "sums_up ?g c" and con: "consistent seen" using Cons.prems c by (auto simp: coalesced_def)
      then have "consistent ?g" by (auto simp: consistent_def group_def)
      with group_fits [OF s] merge_change_Inl [OF Inl] have "\<not> consistent (seen @ [f])" by (simp add: consistent_snoc)
      then have "\<not> consistent (seen @ f # fs)" unfolding app using consistent_prefix by blast
      with Inl Some show ?thesis by simp
    qed
  qed
qed simp

lemma coalesce_spec:
  "case coalesce_file_changes fs of Inl e \<Rightarrow> \<not> consistent fs | Inr cs \<Rightarrow> coalesced fs cs"
proof -
  have "coalesced [] []" by (simp add: coalesced_def consistent_def firsts_def)
  from coalesce_into_spec [OF this, of fs] show ?thesis unfolding coalesce_file_changes_def append_Nil .
qed

subsection \<open>Counting\<close>

definition has_state :: "file_state \<Rightarrow> file_change \<Rightarrow> bool" where
  "has_state st f \<longleftrightarrow> fc_index f = st \<or> fc_worktree f = st"

definition staged :: "file_change \<Rightarrow> bool" where
  "staged f \<longleftrightarrow> fc_index f \<noteq> No_State \<and> fc_index f \<noteq> Conflicted"

definition number :: "('a \<Rightarrow> bool) \<Rightarrow> 'a list \<Rightarrow> int" where
  "number p xs = int (length (filter p xs))"

lemma number_simps [simp]: "number p [] = 0" "number p (x # xs) = (if p x then 1 else 0) + number p xs"
  by (simp_all add: number_def)

lemma number_mset: "mset xs = mset ys \<Longrightarrow> number p xs = number p ys"
proof -
  assume "mset xs = mset ys"
  then have "mset (filter p xs) = mset (filter p ys)" by simp
  then show ?thesis unfolding number_def by (metis size_mset)
qed

lemma number_pos: "number p xs > 0 \<longleftrightarrow> (\<exists>x \<in> set xs. p x)"
  by (auto simp: number_def filter_empty_conv)

definition counts :: "file_change list \<Rightarrow> change_summary" where
  "counts fs =
     \<lparr>cs_modified = number (\<lambda>f. primary_file_state f \<in> {Modified, Renamed, Copied}) fs,
      cs_added = number (\<lambda>f. primary_file_state f = Added) fs,
      cs_deleted = number (\<lambda>f. primary_file_state f = Deleted) fs,
      cs_untracked = number (\<lambda>f. primary_file_state f = Untracked) fs,
      cs_staged = number staged fs,
      cs_conflicts = number (has_state Conflicted) fs\<rparr>"

lemma primary_conflicted: "primary_file_state f = Conflicted \<longleftrightarrow> has_state Conflicted f"
  by (cases "fc_index f"; cases "fc_worktree f") (simp_all add: primary_file_state_def has_state_def)

lemma primary_none: "primary_file_state f = No_State \<longleftrightarrow> fc_index f = No_State \<and> fc_worktree f = No_State"
  by (cases "fc_index f"; cases "fc_worktree f") (simp_all add: primary_file_state_def)

definition add_counts :: "change_summary \<Rightarrow> change_summary \<Rightarrow> change_summary" where
  "add_counts s t = \<lparr>cs_modified = cs_modified s + cs_modified t, cs_added = cs_added s + cs_added t,
     cs_deleted = cs_deleted s + cs_deleted t, cs_untracked = cs_untracked s + cs_untracked t,
     cs_staged = cs_staged s + cs_staged t, cs_conflicts = cs_conflicts s + cs_conflicts t\<rparr>"

lemma count_file_counts: "count_file f s = add_counts s (counts [f])"
  unfolding count_file_def counts_def add_counts_def primary_conflicted [symmetric] Let_def
  by (cases "primary_file_state f") (simp_all add: staged_def)

lemma fold_count_file: "fold count_file fs s = add_counts s (counts fs)"
proof (induction fs arbitrary: s)
  case (Cons f fs)
  have "counts (f # fs) = add_counts (counts [f]) (counts fs)" by (simp add: counts_def add_counts_def)
  moreover have "add_counts (add_counts s (counts [f])) (counts fs) = add_counts s (add_counts (counts [f]) (counts fs))"
    by (simp add: add_counts_def)
  ultimately show ?case unfolding fold_simps Cons.IH unfolding count_file_counts by simp
qed (simp add: add_counts_def counts_def)

lemma counts_mset: "mset fs = mset gs \<Longrightarrow> counts fs = counts gs"
  unfolding counts_def by (simp only: number_mset [of fs gs])

definition buckets :: "change_summary \<Rightarrow> int" where
  "buckets s = cs_modified s + cs_added s + cs_deleted s + cs_untracked s + cs_conflicts s"

lemma buckets_counts: "buckets (counts fs) = number (\<lambda>f. fc_index f \<noteq> No_State \<or> fc_worktree f \<noteq> No_State) fs"
proof (induction fs)
  case (Cons f fs)
  have "buckets (counts [f]) = (if primary_file_state f = No_State then 0 else 1)"
    using primary_conflicted [of f] by (cases "primary_file_state f") (simp_all add: buckets_def counts_def)
  moreover have "buckets (counts (f # fs)) = buckets (counts [f]) + buckets (counts fs)"
    by (simp add: buckets_def counts_def)
  ultimately show ?case unfolding primary_none number_simps Cons.IH by auto
qed (simp add: buckets_def counts_def)

lemma derive_spec:
  "let r = derive_change_set fs in
     mset (ct_files r) = mset fs \<and> sorted (map (\<lambda>f. (fc_path f, fc_original f)) (ct_files r))
     \<and> ct_summary r = counts fs
     \<and> (ct_state r = State_Conflicted \<longleftrightarrow> list_ex (has_state Conflicted) fs)
     \<and> (ct_state r = State_Staged \<longleftrightarrow> \<not> list_ex (has_state Conflicted) fs \<and> list_ex staged fs)
     \<and> (ct_state r = State_Clean \<longleftrightarrow> fs = [])"
proof -
  let ?o = "sort_key (\<lambda>f. (fc_path f, fc_original f)) fs"
  have m: "mset ?o = mset fs" by simp
  have "fold count_file ?o empty_summary = counts fs"
    unfolding fold_count_file counts_mset [OF m] by (simp add: add_counts_def empty_summary_def)
  moreover have "cs_conflicts (counts fs) > 0 \<longleftrightarrow> list_ex (has_state Conflicted) fs"
    "cs_staged (counts fs) > 0 \<longleftrightarrow> list_ex staged fs"
    by (simp_all add: counts_def number_pos list_ex_iff)
  moreover have "?o = [] \<longleftrightarrow> fs = []" by (metis mset_zero_iff m)
  ultimately show ?thesis by (auto simp: derive_change_set_def Let_def)
qed

subsection \<open>The collected changes\<close>

text \<open>
  C40. Collecting changes fails on well-formed output only when two records of one path contradict each other.
  Otherwise the files are the changed paths, each once and in order, each with the states its records
  give; every file with a state is counted in exactly one of the five buckets and staged ones besides;
  and the summary state is the conflicted, else the staged, else the changed.
\<close>

theorem collected_changes:
  assumes "list_all entry_ok es"
  defines "records \<equiv> concat (map entry_changes es)"
  shows "case collect_changes (Inr (concat (map print_entry es))) of
      Inl e \<Rightarrow> \<not> consistent records
    | Inr r \<Rightarrow> consistent records
        \<and> set (map fc_path (ct_files r)) = set (map fc_path records)
        \<and> sorted_wrt (<) (map fc_path (ct_files r))
        \<and> list_all (\<lambda>c. sums_up (group records (fc_path c)) c) (ct_files r)
        \<and> ct_summary r = counts (ct_files r)
        \<and> buckets (ct_summary r) = number (\<lambda>f. fc_index f \<noteq> No_State \<or> fc_worktree f \<noteq> No_State) (ct_files r)
        \<and> (ct_state r = State_Conflicted \<longleftrightarrow> list_ex (has_state Conflicted) (ct_files r))
        \<and> (ct_state r = State_Staged \<longleftrightarrow>
             \<not> list_ex (has_state Conflicted) (ct_files r) \<and> list_ex staged (ct_files r))
        \<and> (ct_state r = State_Clean \<longleftrightarrow> records = [])"
proof -
  have parse: "parse_changes (concat (map print_entry es)) = Inr records"
    using assms(1) unfolding records_def
    by (induction es) (auto simp: parse_changes_Nil parse_printed)
  show ?thesis
  proof (cases "coalesce_file_changes records")
    case (Inl e)
    with coalesce_spec [of records] parse show ?thesis by (simp add: collect_changes_def)
  next
    case (Inr cs)
    let ?r = "derive_change_set cs"
    from coalesce_spec [of records] Inr have co: "coalesced records cs" by simp
    have m: "mset (ct_files ?r) = mset cs" and s: "sorted (map (\<lambda>f. (fc_path f, fc_original f)) (ct_files ?r))"
      and sum: "ct_summary ?r = counts cs"
      and st: "ct_state ?r = State_Conflicted \<longleftrightarrow> list_ex (has_state Conflicted) cs"
        "ct_state ?r = State_Staged \<longleftrightarrow> \<not> list_ex (has_state Conflicted) cs \<and> list_ex staged cs"
        "ct_state ?r = State_Clean \<longleftrightarrow> cs = []"
      using derive_spec [of cs] by (simp_all add: Let_def)
    have set: "set (ct_files ?r) = set cs" using m by (rule mset_eq_setD)
    have ex: "list_ex p (ct_files ?r) = list_ex p cs" for p by (simp add: list_ex_iff set)
    have paths: "map fc_path cs = firsts (map fc_path records)" using co by (simp add: coalesced_def)
    have "mset (map fc_path (ct_files ?r)) = mset (map fc_path cs)" using m by (simp only: mset_map)
    then have "distinct (map fc_path (ct_files ?r))" using paths by (metis firsts_set(2) mset_eq_imp_distinct_iff)
    moreover have "sorted (map fc_path (ct_files ?r))"
      using s by (auto simp: sorted_wrt_map less_eq_prod_def elim!: sorted_wrt_mono_rel [rotated] intro: less_imp_le)
    ultimately have strict: "sorted_wrt (<) (map fc_path (ct_files ?r))" by (simp only: strict_sorted_iff)
    have "set (map fc_path (ct_files ?r)) = set (map fc_path cs)" by (simp add: set)
    then have "set (map fc_path (ct_files ?r)) = set (map fc_path records)" unfolding paths by simp
    moreover have "list_all (\<lambda>c. sums_up (group records (fc_path c)) c) (ct_files ?r)"
      using co by (simp add: coalesced_def list_all_iff set)
    moreover have "ct_summary ?r = counts (ct_files ?r)" unfolding sum by (rule counts_mset [OF m [symmetric]])
    moreover have "cs = [] \<longleftrightarrow> records = []" using paths
      by (metis firsts_set(1) list.map_disc_iff set_empty)
    moreover have "collect_changes (Inr (concat (map print_entry es))) = Inr ?r"
      using parse Inr by (simp add: collect_changes_def)
    moreover have "consistent records" using co by (simp add: coalesced_def)
    ultimately show ?thesis using strict st ex buckets_counts [of "ct_files ?r"] by simp
  qed
qed

theorem collected_changes_witness:
  "\<exists>r. collect_changes (Inr (concat (map print_entry [Untracked_Entry ''b'', Other_Entry ''# x'', Untracked_Entry ''a'']))) = Inr r
     \<and> map fc_path (ct_files r) = [''a'', ''b''] \<and> ct_state r \<noteq> State_Clean"
proof -
  let ?es = "[Untracked_Entry ''b'', Other_Entry ''# x'', Untracked_Entry ''a'']"
  let ?rs = "concat (map entry_changes ?es)"
  have "list_all entry_ok ?es" by (simp add: path_ok_def)
  note t = collected_changes [OF this]
  have con: "consistent ?rs" by (simp add: consistent_def)
  then obtain r where r: "collect_changes (Inr (concat (map print_entry ?es))) = Inr r"
    using t by (cases "collect_changes (Inr (concat (map print_entry ?es)))") simp_all
  with t have set: "set (map fc_path (ct_files r)) = {''b'', ''a''}" and sorted: "sorted_wrt (<) (map fc_path (ct_files r))"
    and st: "ct_state r \<noteq> State_Clean" by simp_all
  have eq: "set (map fc_path (ct_files r)) = set [''a'', ''b'']" unfolding set list.set by (rule insert_commute)
  have lt: "sorted_wrt (<) [''a'', ''b'']" by (simp add: less_char_def)
  have "map fc_path (ct_files r) = [''a'', ''b'']" by (rule strict_sorted_equal [OF lt sorted eq])
  show ?thesis by (rule exI [of _ r], intro conjI) fact+
qed

end
