(* ===== verification/Project_Fingerprint.thy ===== *)
theory Project_Fingerprint
  imports Go_Strings "HOL-Library.Word" "HOL-Library.List_Lexorder" "HOL-Library.Char_ord"
begin

text \<open>
  The fingerprint of a project registration (\<open>internal/config/project_fingerprint.go\<close>): the bytes that
  are hashed, and the comparison of registrations. A registration is what its TOML decodes to: the
  interface values go-toml builds (\<open>bool\<close>, \<open>string\<close>, \<open>int64\<close>, \<open>float64\<close> as its IEEE bits, the four date
  and time types with their fields, \<open>[]any\<close>, \<open>map[string]any\<close>), either of which may be nil. A Go
  \<open>int\<close> has 64 bits. A time is told by its fields and its zone, as a decoded one is.
\<close>

subsection \<open>Values\<close>

record toml_date =
  td_year :: "64 word"
  td_month :: "64 word"
  td_day :: "64 word"

record toml_clock =
  tc_hour :: "64 word"
  tc_minute :: "64 word"
  tc_second :: "64 word"
  tc_nanosecond :: "64 word"
  tc_precision :: "64 word"

record toml_time =
  tt_year :: "64 word"
  tt_month :: "64 word"
  tt_day :: "64 word"
  tt_hour :: "64 word"
  tt_minute :: "64 word"
  tt_second :: "64 word"
  tt_nanosecond :: "64 word"
  tt_zone :: string
  tt_offset :: "64 word"

datatype toml_value =
    V_Nil
  | V_Bool bool
  | V_String string
  | V_Int "64 word"
  | V_Float "64 word"
  | V_Time toml_time
  | V_Date toml_date
  | V_Clock toml_clock
  | V_Date_Time toml_date toml_clock
  | V_Slice "toml_value list option"
  | V_Map "(string \<times> toml_value) list option"

subsection \<open>Bytes\<close>

text \<open>Big-endian bytes, and \<open>binary.PutUvarint\<close>.\<close>

fun be_bytes :: "nat \<Rightarrow> nat \<Rightarrow> string" where
  "be_bytes 0 n = []"
| "be_bytes (Suc k) n = be_bytes k (n div 256) @ [byte (n mod 256)]"

fun put_uvarint :: "nat \<Rightarrow> string" where
  "put_uvarint n = (if n < 128 then [byte n] else byte (n mod 128 + 128) # put_uvarint (n div 128))"

declare put_uvarint.simps [simp del]

definition write_uint64 :: "64 word \<Rightarrow> string" where
  "write_uint64 w = be_bytes 8 (unat w)"

definition write_string :: "string \<Rightarrow> string" where
  "write_string s = put_uvarint (length s) @ s"

definition write_bool :: "bool \<Rightarrow> string" where
  "write_bool b = [byte (if b then 1 else 0)]"

definition write_date :: "toml_date \<Rightarrow> string" where
  "write_date d = write_uint64 (td_year d) @ write_uint64 (td_month d) @ write_uint64 (td_day d)"

definition write_clock :: "toml_clock \<Rightarrow> string" where
  "write_clock t = write_uint64 (tc_hour t) @ write_uint64 (tc_minute t) @ write_uint64 (tc_second t)
     @ write_uint64 (tc_nanosecond t) @ write_uint64 (tc_precision t)"

definition write_time :: "toml_time \<Rightarrow> string" where
  "write_time t = write_uint64 (tt_year t) @ write_uint64 (tt_month t) @ write_uint64 (tt_day t)
     @ write_uint64 (tt_hour t) @ write_uint64 (tt_minute t) @ write_uint64 (tt_second t)
     @ write_uint64 (tt_nanosecond t) @ write_string (tt_zone t) @ write_uint64 (tt_offset t)"

text \<open>A type is written as its package, its name and its \<open>reflect.Kind\<close>.\<close>

definition toml_package :: string where "toml_package = ''github.com/pelletier/go-toml/v2''"

fun type_of :: "toml_value \<Rightarrow> string \<times> string \<times> nat" where
  "type_of V_Nil = ([], [], 0)"
| "type_of (V_Bool _) = ([], ''bool'', 1)"
| "type_of (V_String _) = ([], ''string'', 24)"
| "type_of (V_Int _) = ([], ''int64'', 6)"
| "type_of (V_Float _) = ([], ''float64'', 14)"
| "type_of (V_Time _) = (''time'', ''time.Time'', 25)"
| "type_of (V_Date _) = (toml_package, ''toml.LocalDate'', 25)"
| "type_of (V_Clock _) = (toml_package, ''toml.LocalTime'', 25)"
| "type_of (V_Date_Time _ _) = (toml_package, ''toml.LocalDateTime'', 25)"
| "type_of (V_Slice _) = ([], ''[]interface {}'', 23)"
| "type_of (V_Map _) = ([], ''map[string]interface {}'', 21)"

definition write_type :: "string \<times> string \<times> nat \<Rightarrow> string" where
  "write_type t = (case t of (pkg, name, kind) \<Rightarrow> write_string pkg @ write_string name @ [byte kind])"

subsection \<open>The encoder\<close>

fun sequence :: "(string + string) list \<Rightarrow> string + string" where
  "sequence [] = Inr []"
| "sequence (r # rs) =
     (case r of Inl e \<Rightarrow> Inl e | Inr a \<Rightarrow> (case sequence rs of Inl e \<Rightarrow> Inl e | Inr b \<Rightarrow> Inr (a @ b)))"

definition prepend :: "string \<Rightarrow> string + string \<Rightarrow> string + string" where
  "prepend a r = (case r of Inl e \<Rightarrow> Inl e | Inr b \<Rightarrow> Inr (a @ b))"

fun write_value :: "toml_value \<Rightarrow> string + string" and write_body :: "toml_value \<Rightarrow> string + string" where
  "write_value v =
     (if v = V_Nil then Inl ''nil interface value is unsupported'' else prepend (write_type (type_of v)) (write_body v))"
| "write_body V_Nil = Inr []"
| "write_body (V_Bool b) = Inr (write_bool b)"
| "write_body (V_String s) = Inr (write_string s)"
| "write_body (V_Int w) = Inr (write_uint64 w)"
| "write_body (V_Float w) = Inr (write_uint64 w)"
| "write_body (V_Time t) = Inr (write_time t)"
| "write_body (V_Date d) = Inr (write_date d)"
| "write_body (V_Clock t) = Inr (write_clock t)"
| "write_body (V_Date_Time d t) = Inr (write_date d @ write_clock t)"
| "write_body (V_Slice None) = Inr (write_bool True @ write_uint64 0)"
| "write_body (V_Slice (Some vs)) =
     prepend (write_bool False @ write_uint64 (word_of_nat (length vs))) (sequence (map write_value vs))"
| "write_body (V_Map None) = Inr (write_bool True @ write_uint64 0)"
| "write_body (V_Map (Some m)) =
     prepend (write_bool False @ write_uint64 (word_of_nat (length m)))
       (sequence (map (\<lambda>(k, r). prepend (write_string k) r)
         (sort_key fst (map (\<lambda>(k, v). (k, write_value v)) m))))"

subsection \<open>The fingerprint\<close>

definition fingerprint_prefix :: string where "fingerprint_prefix = ''v1:''"
definition fingerprint_domain :: string where "fingerprint_domain = ''kwt.project-registration''"

text \<open>\<open>ProjectRegistration.Fingerprint\<close> of a raw entry; \<open>sha\<close> is SHA-256.\<close>

definition fingerprint_text :: "(string \<times> toml_value) list \<Rightarrow> string + string" where
  "fingerprint_text raw =
     prepend (write_string fingerprint_domain @ write_string fingerprint_prefix) (write_value (V_Map (Some raw)))"

definition fingerprint ::
    "(string \<Rightarrow> char list) \<Rightarrow> (string \<times> toml_value) list option \<Rightarrow> string + string" where
  "fingerprint sha raw =
     (case raw of
        None \<Rightarrow> Inl ''project registration has no persisted entry''
      | Some m \<Rightarrow>
          (case fingerprint_text m of
             Inl e \<Rightarrow> Inl (''fingerprint project registration: '' @ e)
           | Inr t \<Rightarrow> Inr (fingerprint_prefix @ hex_text (sha t))))"

definition valid_fingerprint :: "string \<Rightarrow> bool" where
  "valid_fingerprint s \<longleftrightarrow> length s = 3 + 64 \<and> take 3 s = fingerprint_prefix
     \<and> list_all (\<lambda>c. is_digit c \<or> (97 \<le> code c \<and> code c \<le> 102)) (drop 3 s)"

subsection \<open>The comparison\<close>

text \<open>\<open>sameProjectRegistrationValue\<close>: floats by their bits, maps key by key.\<close>

function same_value :: "toml_value \<Rightarrow> toml_value \<Rightarrow> bool" where
  "same_value V_Nil w = (w = V_Nil)"
| "same_value (V_Bool b) w = (w = V_Bool b)"
| "same_value (V_String s) w = (w = V_String s)"
| "same_value (V_Int i) w = (w = V_Int i)"
| "same_value (V_Float f) w = (w = V_Float f)"
| "same_value (V_Time t) w = (w = V_Time t)"
| "same_value (V_Date d) w = (w = V_Date d)"
| "same_value (V_Clock c) w = (w = V_Clock c)"
| "same_value (V_Date_Time d c) w = (w = V_Date_Time d c)"
| "same_value (V_Slice None) w = (w = V_Slice None)"
| "same_value (V_Slice (Some vs)) w =
     (case w of
        V_Slice (Some ws) \<Rightarrow> length vs = length ws \<and> list_all (\<lambda>(v, u). same_value v u) (zip vs ws)
      | _ \<Rightarrow> False)"
| "same_value (V_Map None) w = (w = V_Map None)"
| "same_value (V_Map (Some m)) w =
     (case w of
        V_Map (Some n) \<Rightarrow> length m = length n \<and>
          list_all (\<lambda>(k, v). case map_of n k of None \<Rightarrow> False | Some u \<Rightarrow> same_value v u) m
      | _ \<Rightarrow> False)"
  by pat_completeness auto

termination
proof (relation "measure (\<lambda>(v, w). size v)")
  fix vs ws :: "toml_value list" and z x y and w :: toml_value
  assume "z \<in> set (zip vs ws)" "(x, y) = z"
  then have "x \<in> set vs" using set_zip_leftD by metis
  then show "((x, y), (V_Slice (Some vs), w)) \<in> measure (\<lambda>(v, w). size v)"
    using size_list_estimation' [of x vs "size x" size] by simp
next
  fix m :: "(string \<times> toml_value) list" and z k v u and w :: toml_value
  assume "z \<in> set m" "(k, v) = z"
  then have "size_prod (\<lambda>_. 0) size (k, v) \<le> size_list (size_prod (\<lambda>_. 0) size) m"
    using size_list_estimation' [of z m "size_prod (\<lambda>_. 0) size z" "size_prod (\<lambda>_. 0) size"] by simp
  then show "((v, u), (V_Map (Some m), w)) \<in> measure (\<lambda>(v, w). size v)" by simp
qed simp

end
