(* ===== verification/Fingerprint_Spec.thy ===== *)
theory Fingerprint_Spec
  imports Project_Fingerprint "HOL-Library.Multiset"
begin

text \<open>
  The encoding of a registration is exact: two registrations have the same bytes if and only if the
  comparison of registrations calls them the same. The encoding is prefix-free, so concatenating the
  encodings of the parts loses nothing.
\<close>

subsection \<open>Bytes\<close>

lemma be_bytes_length [simp]: "length (be_bytes k n) = k"
  by (induction k n rule: be_bytes.induct) auto

lemma be_bytes_inject: "be_bytes k m = be_bytes k n \<Longrightarrow> m < 256 ^ k \<Longrightarrow> n < 256 ^ k \<Longrightarrow> m = n"
proof (induction k arbitrary: m n)
  case (Suc k)
  then have "be_bytes k (m div 256) = be_bytes k (n div 256)" "byte (m mod 256) = byte (n mod 256)" by simp_all
  moreover have "m div 256 < 256 ^ k" "n div 256 < 256 ^ k" using Suc.prems by (simp_all add: less_mult_imp_div_less)
  moreover have "code (byte (m mod 256)) = m mod 256" "code (byte (n mod 256)) = n mod 256"
    by (simp_all only: code_byte mod_less_divisor zero_less_numeral)
  ultimately have "m div 256 = n div 256" "m mod 256 = n mod 256" using Suc.IH by metis+
  then show ?case by (metis div_mult_mod_eq)
qed simp

lemma uint64_prefix: "write_uint64 v @ x = write_uint64 w @ y \<Longrightarrow> v = w \<and> x = y"
proof -
  assume "write_uint64 v @ x = write_uint64 w @ y"
  then have "be_bytes 8 (unat v) = be_bytes 8 (unat w)" "x = y" by (simp_all add: write_uint64_def append_eq_append_conv)
  moreover have "unat v < 256 ^ 8" "unat w < 256 ^ 8" using unsigned_less [of v, where 'a = nat] unsigned_less [of w, where 'a = nat] by simp_all
  ultimately show ?thesis using be_bytes_inject unsigned_word_eqI by blast
qed

lemma uvarint_prefix: "put_uvarint m @ x = put_uvarint n @ y \<Longrightarrow> m = n \<and> x = y"
proof (induction m arbitrary: n x y rule: put_uvarint.induct)
  case (1 m)
  have hd: "hd (put_uvarint k) = byte (if k < 128 then k else k mod 128 + 128) \<and> put_uvarint k \<noteq> []" for k
    unfolding put_uvarint.simps [of k] by simp
  have code: "code (byte (if k < 128 then k else k mod 128 + 128)) = (if k < 128 then k else k mod 128 + 128)" for k
    by (rule code_byte) simp
  from 1(2) hd [of m] hd [of n] have "byte (if m < 128 then m else m mod 128 + 128) = byte (if n < 128 then n else n mod 128 + 128)"
    by (metis hd_append2)
  then have eq: "(if m < 128 then m else m mod 128 + 128) = (if n < 128 then n else n mod 128 + 128)"
    using code by metis
  show ?case
  proof (cases "m < 128")
    case True
    with eq have "n = m" by (simp split: if_splits)
    with 1(2) show ?thesis by simp
  next
    case False
    with eq have n: "\<not> n < 128" "m mod 128 = n mod 128" by (simp_all split: if_splits)
    with 1(2) False have "put_uvarint (m div 128) @ x = put_uvarint (n div 128) @ y"
      by (subst (asm) put_uvarint.simps, subst (asm) (2) put_uvarint.simps) simp
    from 1(1) [OF False this] n(2) show ?thesis by (metis div_mult_mod_eq)
  qed
qed

lemma string_prefix: "write_string s @ x = write_string t @ y \<Longrightarrow> s = t \<and> x = y"
  using uvarint_prefix [of "length s" "s @ x" "length t" "t @ y"] by (auto simp: write_string_def append_eq_append_conv)

lemma bool_prefix: "write_bool b @ x = write_bool c @ y \<Longrightarrow> b = c \<and> x = y"
proof -
  assume a: "write_bool b @ x = write_bool c @ y"
  have "byte 1 \<noteq> byte 0" using code_byte [of 1] code_byte [of 0] by auto
  with a show ?thesis by (cases b; cases c) (auto simp: write_bool_def)
qed

lemma date_prefix: "write_date d @ x = write_date e @ y \<Longrightarrow> d = e \<and> x = y"
  by (simp add: write_date_def) (auto dest!: uint64_prefix intro: toml_date.equality)

lemma clock_prefix: "write_clock d @ x = write_clock e @ y \<Longrightarrow> d = e \<and> x = y"
  by (simp add: write_clock_def) (auto dest!: uint64_prefix intro: toml_clock.equality)

lemma time_prefix: "write_time d @ x = write_time e @ y \<Longrightarrow> d = e \<and> x = y"
  by (simp add: write_time_def) (auto dest!: uint64_prefix string_prefix intro: toml_time.equality)

lemma type_prefix:
  assumes "write_type s @ x = write_type t @ y" and "snd (snd s) < 256" "snd (snd t) < 256"
  shows "s = t \<and> x = y"
proof -
  obtain p n k where s: "s = (p, n, k)" by (cases s)
  obtain q m l where t: "t = (q, m, l)" by (cases t)
  from assms(1) have "p = q \<and> write_string n @ [byte k] @ x = write_string m @ [byte l] @ y"
    using string_prefix [of p "write_string n @ [byte k] @ x" q] by (simp add: s t write_type_def)
  moreover from this have "n = m \<and> [byte k] @ x = [byte l] @ y" using string_prefix by blast
  ultimately have eq: "p = q" "n = m" "byte k = byte l" "x = y" by simp_all
  have "code (byte k) = k" "code (byte l) = l" using assms(2,3) by (simp_all only: s t snd_conv code_byte)
  with eq(3) have "k = l" by metis
  with eq show ?thesis by (simp only: s t)
qed

text \<open>A type tells the constructor.\<close>

fun shape :: "toml_value \<Rightarrow> nat" where
  "shape V_Nil = 0"
| "shape (V_Bool _) = 1"
| "shape (V_String _) = 2"
| "shape (V_Int _) = 3"
| "shape (V_Float _) = 4"
| "shape (V_Time _) = 5"
| "shape (V_Date _) = 6"
| "shape (V_Clock _) = 7"
| "shape (V_Date_Time _ _) = 8"
| "shape (V_Slice _) = 9"
| "shape (V_Map _) = 10"

lemma type_of_shape: "type_of v = type_of w \<Longrightarrow> shape v = shape w"
  by (cases v; cases w; simp add: toml_package_def)

lemma type_of_kind: "snd (snd (type_of v)) < 256"
  by (cases v) simp_all

subsection \<open>Well-formed values\<close>

fun value_ok :: "toml_value \<Rightarrow> bool" where
  "value_ok (V_Slice (Some vs)) \<longleftrightarrow> length vs < 2 ^ 63 \<and> list_all value_ok vs"
| "value_ok (V_Map (Some m)) \<longleftrightarrow>
     length m < 2 ^ 63 \<and> distinct (map fst m) \<and> list_all (\<lambda>(k, v). value_ok v) m"
| "value_ok _ \<longleftrightarrow> True"

lemma prepend_Inr: "prepend a r = Inr c \<longleftrightarrow> (\<exists>b. r = Inr b \<and> c = a @ b)"
  by (auto simp: prepend_def split: sum.splits)

lemma write_value_Inr: "write_value v = Inr a \<longleftrightarrow>
    v \<noteq> V_Nil \<and> (\<exists>b. write_body v = Inr b \<and> a = write_type (type_of v) @ b)"
  by (subst write_value.simps) (auto simp: prepend_Inr)

declare write_value.simps [simp del]

lemma sequence_prefix:
  assumes "length vs = length ws" and "sequence (map f vs) = Inr a" "sequence (map f ws) = Inr b" and "a @ x = b @ y"
    and "\<And>v w a b x y. (v, w) \<in> set (zip vs ws) \<Longrightarrow> f v = Inr a \<Longrightarrow> f w = Inr b \<Longrightarrow> a @ x = b @ y \<Longrightarrow> P v w \<and> x = y"
  shows "list_all (\<lambda>(v, w). P v w) (zip vs ws) \<and> x = y"
  using assms
proof (induction vs ws arbitrary: a b rule: list_induct2)
  case (Cons v vs w ws)
  from Cons.prems(1) obtain p q where v: "f v = Inr p" "sequence (map f vs) = Inr q" "a = p @ q"
    by (auto split: sum.splits)
  from Cons.prems(2) obtain r s where w: "f w = Inr r" "sequence (map f ws) = Inr s" "b = r @ s"
    by (auto split: sum.splits)
  from Cons.prems(3) v(3) w(3) have "p @ (q @ x) = r @ (s @ y)" by simp
  with Cons.prems(4) [of v w p r "q @ x" "s @ y"] v(1) w(1) have hd: "P v w" "q @ x = s @ y" by simp_all
  from Cons.IH [OF v(2) w(2) hd(2) Cons.prems(4)] hd(1) show ?case by simp
qed simp

lemma word_length_inject:
  "m < 2 ^ 63 \<Longrightarrow> n < 2 ^ 63 \<Longrightarrow> (word_of_nat m :: 64 word) = word_of_nat n \<Longrightarrow> m = n"
proof -
  assume a: "m < 2 ^ 63" "n < 2 ^ 63" "(word_of_nat m :: 64 word) = word_of_nat n"
  have "unat (word_of_nat m :: 64 word) = m" "unat (word_of_nat n :: 64 word) = n"
    unfolding unat_of_nat using a(1,2) by (intro mod_less; simp)+
  with a(3) show ?thesis by metis
qed

lemma sort_entries: "sort_key fst (map (\<lambda>(k, v). (k, f v)) m) = map (\<lambda>(k, v). (k, f v)) (sort_key fst m)"
proof -
  have ins: "insort_key fst (k, f v) (map (\<lambda>(k, v). (k, f v)) xs) = map (\<lambda>(k, v). (k, f v)) (insort_key fst (k, v) xs)"
    for k v and xs :: "('a \<times> 'c) list"
    by (induction xs) auto
  show ?thesis by (induction m) (auto simp: ins)
qed

subsection \<open>The encoding is prefix-free\<close>

abbreviation sorted_entries :: "(string \<times> toml_value) list \<Rightarrow> (string \<times> toml_value) list" where
  "sorted_entries m \<equiv> sort_key fst m"

definition write_member :: "string \<times> toml_value \<Rightarrow> string + string" where
  "write_member p = prepend (write_string (fst p)) (write_value (snd p))"

lemma write_body_map:
  "write_body (V_Map (Some m)) = prepend (write_bool False @ write_uint64 (word_of_nat (length m)))
     (sequence (map write_member (sorted_entries m)))"
  by (simp add: case_prod_unfold sort_entries [unfolded case_prod_unfold] o_def write_member_def [abs_def])

declare write_body.simps(13) [simp del]

lemma set_sorted_entries [simp]: "set (sorted_entries m) = set m" by simp

text \<open>Entries of two maps that agree when sorted agree as maps.\<close>

lemma same_map:
  assumes "distinct (map fst n)" and "length m = length n"
    and "list_all (\<lambda>(p, q). fst p = fst q \<and> same_value (snd p) (snd q)) (zip (sorted_entries m) (sorted_entries n))"
  shows "same_value (V_Map (Some m)) (V_Map (Some n))"
proof -
  have "case map_of n k of None \<Rightarrow> False | Some u \<Rightarrow> same_value v u" if kv: "(k, v) \<in> set m" for k v
  proof -
    from kv have "(k, v) \<in> set (sorted_entries m)" by simp
    then obtain i where i: "i < length m" "sorted_entries m ! i = (k, v)" by (metis in_set_conv_nth length_sort)
    then have "(sorted_entries m ! i, sorted_entries n ! i) \<in> set (zip (sorted_entries m) (sorted_entries n))"
      using assms(2) unfolding set_zip by (intro CollectI exI [of _ i]) simp
    with assms(3) i(2) have eq: "fst (sorted_entries n ! i) = k" "same_value v (snd (sorted_entries n ! i))"
      by (auto simp: list_all_iff)
    have "sorted_entries n ! i \<in> set n" using i(1) assms(2) by (metis length_sort nth_mem set_sort)
    with eq(1) have "map_of n k = Some (snd (sorted_entries n ! i))"
      using assms(1) by (metis map_of_eq_Some_iff prod.collapse)
    with eq(2) show ?thesis by simp
  qed
  with assms(2) show ?thesis by (auto simp: list_all_iff)
qed

lemma write_prefix:
  "value_ok v \<Longrightarrow> value_ok w \<Longrightarrow> write_value v = Inr a \<Longrightarrow> write_value w = Inr b \<Longrightarrow> a @ x = b @ y \<Longrightarrow>
     same_value v w \<and> x = y"
proof (induction v arbitrary: w a b x y rule: measure_induct_rule [where f = size])
  case (less v)
  from less.prems(3,4) obtain p q where p: "write_body v = Inr p" "a = write_type (type_of v) @ p" "v \<noteq> V_Nil"
    and q: "write_body w = Inr q" "b = write_type (type_of w) @ q" "w \<noteq> V_Nil"
    by (auto simp: write_value_Inr)
  from less.prems(5) p q type_of_kind have ty: "type_of v = type_of w" and pq: "p @ x = q @ y"
    using type_prefix [of "type_of v" "p @ x" "type_of w" "q @ y"] by simp_all
  note shape = type_of_shape [OF ty]
  show ?case
  proof (cases v)
    case (V_Slice vs)
    with shape obtain ws where w: "w = V_Slice ws" by (cases w) simp_all
    show ?thesis
    proof (cases vs; cases ws)
      fix us zs assume vs: "vs = Some us" and ws: "ws = Some zs"
      from p q obtain c d where c: "sequence (map write_value us) = Inr c"
        "p = write_bool False @ write_uint64 (word_of_nat (length us)) @ c"
        and d: "sequence (map write_value zs) = Inr d"
        "q = write_bool False @ write_uint64 (word_of_nat (length zs)) @ d"
        by (auto simp: V_Slice w vs ws prepend_Inr)
      from pq c d have "write_uint64 (word_of_nat (length us)) @ c @ x = write_uint64 (word_of_nat (length zs)) @ d @ y"
        by simp
      then have "(word_of_nat (length us) :: 64 word) = word_of_nat (length zs)" "c @ x = d @ y"
        using uint64_prefix by blast+
      moreover from this have len: "length us = length zs"
        using word_length_inject less.prems(1,2) by (simp add: V_Slice w vs ws)
      moreover have "same_value u z \<and> x' = y'" if "(u, z) \<in> set (zip us zs)" "write_value u = Inr a'"
        "write_value z = Inr b'" "a' @ x' = b' @ y'" for u z a' b' x' y'
      proof (rule less.IH [OF _ _ _ that(2-4)])
        from that(1) have "u \<in> set us" "z \<in> set zs" using set_zip_leftD set_zip_rightD by metis+
        then show "value_ok u" "value_ok z" using less.prems(1,2) by (simp_all add: V_Slice w vs ws list_all_iff)
        show "size u < size v" using \<open>u \<in> set us\<close> size_list_estimation' [of u us "size u" size]
          by (simp add: V_Slice vs)
      qed
      ultimately have "list_all (\<lambda>(u, z). same_value u z) (zip us zs) \<and> x = y"
        using sequence_prefix [OF len c(1) d(1), of x y same_value] by blast
      with len show ?thesis by (simp add: V_Slice w vs ws)
    qed (use p q pq in \<open>auto simp: V_Slice w prepend_Inr dest!: bool_prefix uint64_prefix\<close>)
  next
    case (V_Map m)
    with shape obtain n where w: "w = V_Map n" by (cases w) simp_all
    show ?thesis
    proof (cases m; cases n)
      fix us zs assume vs: "m = Some us" and ws: "n = Some zs"
      from p q obtain c d where c: "sequence (map write_member (sorted_entries us)) = Inr c"
        "p = write_bool False @ write_uint64 (word_of_nat (length us)) @ c"
        and d: "sequence (map write_member (sorted_entries zs)) = Inr d"
        "q = write_bool False @ write_uint64 (word_of_nat (length zs)) @ d"
        by (auto simp: V_Map w vs ws prepend_Inr write_body_map)
      from pq c d have "write_uint64 (word_of_nat (length us)) @ c @ x = write_uint64 (word_of_nat (length zs)) @ d @ y"
        by simp
      then have eq: "(word_of_nat (length us) :: 64 word) = word_of_nat (length zs)" "c @ x = d @ y"
        using uint64_prefix by blast+
      then have len: "length us = length zs"
        using word_length_inject less.prems(1,2) by (simp add: V_Map w vs ws)
      then have len': "length (sorted_entries us) = length (sorted_entries zs)" by simp
      have "(fst u = fst z \<and> same_value (snd u) (snd z)) \<and> x' = y'"
        if "(u, z) \<in> set (zip (sorted_entries us) (sorted_entries zs))" "write_member u = Inr a'"
        "write_member z = Inr b'" "a' @ x' = b' @ y'" for u z a' b' x' y'
      proof -
        from that(2,3) obtain g h where g: "write_value (snd u) = Inr g" "a' = write_string (fst u) @ g"
          and h: "write_value (snd z) = Inr h" "b' = write_string (fst z) @ h"
          by (auto simp: write_member_def prepend_Inr)
        from that(4) g h have k: "fst u = fst z" "g @ x' = h @ y'"
          using string_prefix [of "fst u" "g @ x'" "fst z" "h @ y'"] by simp_all
        have u: "u \<in> set us" and z: "z \<in> set zs"
          using that(1) set_zip_leftD set_zip_rightD set_sorted_entries by metis+
        have "same_value (snd u) (snd z) \<and> x' = y'"
        proof (rule less.IH [OF _ _ _ g(1) h(1) k(2)])
          show "value_ok (snd u)" "value_ok (snd z)"
            using less.prems(1,2) u z by (auto simp: V_Map w vs ws list_all_iff)
          have "size_prod (\<lambda>_. 0) size u \<le> size_list (size_prod (\<lambda>_. 0) size) us"
            using u size_list_estimation' [of u us "size_prod (\<lambda>_. 0) size u" "size_prod (\<lambda>_. 0) size"] by simp
          then show "size (snd u) < size v" by (cases u) (simp add: V_Map vs)
        qed
        with k(1) show ?thesis by simp
      qed
      then have "list_all (\<lambda>(p, q). fst p = fst q \<and> same_value (snd p) (snd q)) (zip (sorted_entries us) (sorted_entries zs))
          \<and> x = y"
        using sequence_prefix [OF len' c(1) d(1) eq(2), of "\<lambda>p q. fst p = fst q \<and> same_value (snd p) (snd q)"] by blast
      moreover have "distinct (map fst zs)" using less.prems(2) by (simp add: w ws)
      ultimately show ?thesis using same_map [OF _ len] by (simp only: V_Map w vs ws)
    qed (use p q pq in \<open>auto simp: V_Map w prepend_Inr write_body_map dest!: bool_prefix uint64_prefix\<close>)
  qed (use p q pq shape in \<open>cases w; auto dest!: bool_prefix string_prefix uint64_prefix date_prefix clock_prefix time_prefix\<close>)+
qed

subsection \<open>Equal registrations have equal encodings\<close>

lemma sorted_keys: "map fst (sorted_entries m) = sort (map fst m)"
proof (rule sym, rule properties_for_sort)
  show "mset (map fst (sorted_entries m)) = mset (map fst m)" by (simp only: mset_map mset_sort)
qed simp

lemma same_write:
  "value_ok v \<Longrightarrow> value_ok w \<Longrightarrow> same_value v w \<Longrightarrow> write_value v = write_value w"
proof (induction v arbitrary: w rule: measure_induct_rule [where f = size])
  case (less v)
  have "write_body v = write_body w \<and> type_of v = type_of w \<and> (v = V_Nil \<longleftrightarrow> w = V_Nil)"
  proof (cases v)
    case (V_Slice vs)
    show ?thesis
    proof (cases vs)
      case (Some us)
      with less.prems(3) V_Slice obtain zs where w: "w = V_Slice (Some zs)" and len: "length us = length zs"
        and same: "list_all (\<lambda>(u, z). same_value u z) (zip us zs)"
        by (auto split: toml_value.splits option.splits)
      have "write_value u = write_value z" if "(u, z) \<in> set (zip us zs)" for u z
      proof (rule less.IH)
        from that have "u \<in> set us" "z \<in> set zs" using set_zip_leftD set_zip_rightD by metis+
        then show "value_ok u" "value_ok z" using less.prems(1,2) by (simp_all add: V_Slice w Some list_all_iff)
        show "size u < size v" using \<open>u \<in> set us\<close> size_list_estimation' [of u us "size u" size]
          by (simp add: V_Slice Some)
        show "same_value u z" using same that by (auto simp: list_all_iff)
      qed
      with len have "map write_value us = map write_value zs" by (auto simp: list_eq_iff_nth_eq set_zip)
      with len show ?thesis by (simp add: V_Slice Some w)
    qed (use less.prems(3) V_Slice in simp)
  next
    case (V_Map m)
    show ?thesis
    proof (cases m)
      case (Some us)
      with less.prems(3) V_Map obtain zs where w: "w = V_Map (Some zs)" and len: "length us = length zs"
        and same: "\<And>k u. (k, u) \<in> set us \<Longrightarrow> case map_of zs k of None \<Rightarrow> False | Some z \<Rightarrow> same_value u z"
        by (fastforce simp: list_all_iff split: toml_value.splits option.splits)
      have d: "distinct (map fst us)" "distinct (map fst zs)" using less.prems(1,2) by (simp_all add: V_Map Some w)
      have "fst ` set us \<subseteq> fst ` set zs"
      proof
        fix k assume "k \<in> fst ` set us"
        then obtain u where "(k, u) \<in> set us" by auto
        from same [OF this] obtain z where "map_of zs k = Some z" by (auto split: option.splits)
        then show "k \<in> fst ` set zs" using map_of_SomeD by force
      qed
      moreover have "card (fst ` set us) = length us" "card (fst ` set zs) = length zs"
        using d by (metis distinct_card length_map list.set_map)+
      ultimately have "fst ` set us = fst ` set zs" using len by (intro card_subset_eq) auto
      then have keys: "map fst (sorted_entries us) = map fst (sorted_entries zs)"
        unfolding sorted_keys using d
        by (intro sorted_distinct_set_unique) auto
      have "map write_member (sorted_entries us) = map write_member (sorted_entries zs)"
      proof (rule nth_equalityI)
        show "length (map write_member (sorted_entries us)) = length (map write_member (sorted_entries zs))"
          using len by simp
        fix i assume "i < length (map write_member (sorted_entries us))"
        then have i: "i < length us" by simp
        obtain k u where u: "sorted_entries us ! i = (k, u)" by (cases "sorted_entries us ! i")
        obtain l z where z: "sorted_entries zs ! i = (l, z)" by (cases "sorted_entries zs ! i")
        have "map fst (sorted_entries us) ! i = map fst (sorted_entries zs) ! i" by (simp only: keys)
        with i len u z have l: "l = k" by simp
        have us: "(k, u) \<in> set us" using i u by (metis length_sort nth_mem set_sort)
        have zs: "(k, z) \<in> set zs" using i len z l by (metis length_sort nth_mem set_sort)
        then have "map_of zs k = Some z" using d by simp
        with same [OF us] have "same_value u z" by simp
        moreover have "value_ok u" "value_ok z" using less.prems(1,2) us zs by (auto simp: V_Map Some w list_all_iff)
        moreover have "size u < size v"
          using us size_list_estimation' [of "(k, u)" us "size_prod (\<lambda>_. 0) size (k, u)" "size_prod (\<lambda>_. 0) size"]
          by (simp add: V_Map Some)
        ultimately have "write_value u = write_value z" by (intro less.IH)
        with i len u z l show "map write_member (sorted_entries us) ! i = map write_member (sorted_entries zs) ! i"
          by (simp add: write_member_def)
      qed
      with len show ?thesis by (simp add: V_Map Some w write_body_map)
    qed (use less.prems(3) V_Map in simp)
  qed (use less.prems(3) in auto)
  then show ?case by (simp add: write_value.simps)
qed

text \<open>
  C23. The fingerprint of a registration decides whether it changed: the encodings of two well-formed
  entries are equal if and only if the comparison that guards the registry calls the entries the same,
  whatever the order of their keys, and so are the fingerprints unless the hash collides on the two.
\<close>

theorem fingerprint_exact:
  assumes "value_ok (V_Map (Some m))" "value_ok (V_Map (Some n))"
    and "fingerprint_text m = Inr s" "fingerprint_text n = Inr t"
  shows "(s = t \<longleftrightarrow> same_value (V_Map (Some m)) (V_Map (Some n)))
     \<and> ((sha s = sha t \<longrightarrow> s = t) \<longrightarrow>
          (fingerprint sha (Some m) = fingerprint sha (Some n) \<longleftrightarrow> same_value (V_Map (Some m)) (V_Map (Some n))))"
proof -
  let ?head = "write_string fingerprint_domain @ write_string fingerprint_prefix"
  from assms(3,4) obtain a b where a: "write_value (V_Map (Some m)) = Inr a" "s = ?head @ a"
    and b: "write_value (V_Map (Some n)) = Inr b" "t = ?head @ b"
    unfolding fingerprint_text_def prepend_Inr by blast
  have eq: "s = t \<longleftrightarrow> same_value (V_Map (Some m)) (V_Map (Some n))"
  proof
    assume "s = t"
    then have "a @ [] = b @ []" unfolding a(2) b(2) by simp
    from write_prefix [OF assms(1,2) a(1) b(1) this] show "same_value (V_Map (Some m)) (V_Map (Some n))" by blast
  next
    assume "same_value (V_Map (Some m)) (V_Map (Some n))"
    from same_write [OF assms(1,2) this] a(1) b(1) have "a = b" by (simp only: sum.inject)
    then show "s = t" unfolding a(2) b(2) by simp
  qed
  moreover have "fingerprint sha (Some m) = fingerprint sha (Some n) \<longleftrightarrow> sha s = sha t"
    using assms(3,4) hex_text_inject by (simp add: fingerprint_def)
  ultimately show ?thesis by blast
qed

theorem fingerprint_exact_witness:
  "fingerprint_text [(''a'', V_Bool True), (''b'', V_Int 3)] = fingerprint_text [(''b'', V_Int 3), (''a'', V_Bool True)]"
proof -
  let ?m = "[(''a'', V_Bool True), (''b'', V_Int 3)]" and ?n = "[(''b'', V_Int 3), (''a'', V_Bool True)]"
  have encodes: "\<exists>t. fingerprint_text m = Inr t" if "\<exists>c. sequence (map write_member (sorted_entries m)) = Inr c" for m
    using that by (auto simp: fingerprint_text_def write_value_Inr write_body_map prepend_Inr)
  have member: "write_member (k, V_Bool b) = Inr (write_string k @ write_type (type_of (V_Bool b)) @ write_bool b)"
    "write_member (k, V_Int i) = Inr (write_string k @ write_type (type_of (V_Int i)) @ write_uint64 i)" for k b i
    by (simp_all add: write_member_def write_value.simps prepend_def)
  have seq: "\<exists>c. sequence (map write_member ps) = Inr c"
    if "\<forall>p \<in> set ps. (\<exists>k b. p = (k, V_Bool b)) \<or> (\<exists>k i. p = (k, V_Int i))" for ps
    using that by (induction ps) (auto simp: member)
  have "\<exists>c. sequence (map write_member (sorted_entries ?m)) = Inr c"
    "\<exists>c. sequence (map write_member (sorted_entries ?n)) = Inr c" by (rule seq; auto)+
  then obtain s t where s: "fingerprint_text ?m = Inr s" and t: "fingerprint_text ?n = Inr t" using encodes by blast
  have ok: "value_ok (V_Map (Some ?m))" "value_ok (V_Map (Some ?n))" by simp_all
  have "same_value (V_Map (Some ?m)) (V_Map (Some ?n))" by simp
  with fingerprint_exact [OF ok s t, of "\<lambda>x. x"] have "s = t" by blast
  with s t show ?thesis by simp
qed

text \<open>Every fingerprint is a valid one, for a hash of 32 bytes.\<close>

lemma fingerprint_valid:
  assumes "fingerprint sha raw = Inr f" and "\<And>t. length (sha t) = 32"
  shows "valid_fingerprint f"
proof -
  from assms(1) obtain t where f: "f = fingerprint_prefix @ hex_text (sha t)"
    by (auto simp: fingerprint_def split: option.splits sum.splits)
  have digit: "is_digit (hex_digit n) \<or> 97 \<le> code (hex_digit n) \<and> code (hex_digit n) \<le> 102" if "n < 16" for n
    using that by (auto simp: hex_digit_def is_digit_def code_def)
  have "list_all (\<lambda>c. is_digit c \<or> 97 \<le> code c \<and> code c \<le> 102) (hex_text bs)" for bs
  proof (induction bs)
    case (Cons b bs)
    have "code b div 16 < 16" "code b mod 16 < 16" using code_less_256 [of b] by linarith+
    with Cons digit show ?case by (simp add: hex_text_def)
  qed (simp add: hex_text_def)
  with assms(2) [of t] show ?thesis
    by (simp add: f valid_fingerprint_def fingerprint_prefix_def hex_text_length)
qed

end
