(* ===== verification/Local_Identity.thy ===== *)
theory Local_Identity
  imports Repo_Url Path_Utils
begin

text \<open>
  Which repository a directory is (\<open>internal/worktree/worktree.go\<close>): the identity of its remote, of a
  registered project, or of its path. On Unix, where \<open>filepath.ToSlash\<close> changes nothing. What git
  answers is a record; \<open>path_env\<close> is what the operating system answers.
\<close>

record repo_git =
  gi_url :: "string + string"
  gi_main :: "string + string"

record project =
  pj_repository :: string
  pj_name :: string
  pj_path :: string
  pj_last_touched :: string

subsection \<open>The identity of a path\<close>

definition is_windows_path_literal :: "string \<Rightarrow> bool" where
  "is_windows_path_literal p \<longleftrightarrow>
     (2 \<le> length p \<and> p ! 1 = CHR '':'') \<or> has_prefix p [CHR 0x5C, CHR 0x5C] \<or> has_prefix p ''//''"

definition slash_local_path :: "string \<Rightarrow> string" where
  "slash_local_path p =
     (if is_windows_path_literal p then replace_char (CHR 0x5C) ''/'' p
      else replace_char (CHR 0x5C) ''%5C'' (replace_char (CHR ''%'') ''%25'' p))"

definition split_local_path_volume :: "string \<Rightarrow> string \<times> string" where
  "split_local_path_volume p =
     (if 2 \<le> length p \<and> p ! 1 = CHR '':'' then (take 1 p, drop 2 p)
      else if has_prefix p ''//'' then
        (case cut (trim_left_char (CHR ''/'') p) (CHR ''/'') of (host, rest, ok) \<Rightarrow>
           if \<not> ok then (host, [])
           else (case cut rest (CHR ''/'') of (share, rest', ok') \<Rightarrow>
             if \<not> ok' then (host @ ''/'' @ share, []) else (host @ ''/'' @ share, rest')))
      else ([], p))"

definition local_repository_full_path :: "string \<Rightarrow> string" where
  "local_repository_full_path p =
     (case split_local_path_volume (slash_local_path p) of (volume, path) \<Rightarrow>
        let path' = trim_left_char (CHR ''/'') path; volume' = trim_char (CHR ''/'') volume in
        join ''/'' ([''local''] @ (if volume' \<noteq> [] then [volume'] else []) @ (if path' \<noteq> [] then [path'] else [])))"

text \<open>\<open>absolutePathPreservingTrailingWhitespace\<close>: \<open>Abs\<close> fails only without a working directory.\<close>

definition absolute_path_preserving :: "string option \<Rightarrow> string \<Rightarrow> string option" where
  "absolute_path_preserving wd path =
     (let suffix = drop (length (trim_right_space path)) path in
      case abs_path wd path of
        None \<Rightarrow> None
      | Some a \<Rightarrow> Some (if suffix \<noteq> [] \<and> \<not> has_suffix a suffix then a @ suffix else a))"

definition repository_info_from_local_path :: "path_env \<Rightarrow> bool \<Rightarrow> string \<Rightarrow> string + repository_info" where
  "repository_info_from_local_path env trim root =
     (let r = (if trim then trim_space root else root) in
      if r = [] then Inl ''empty repository path''
      else case absolute_path_preserving (pe_wd env) r of
        None \<Rightarrow> Inl ''no working directory''
      | Some a \<Rightarrow>
          let c = (case pe_eval env a of Some q \<Rightarrow> q | None \<Rightarrow> a);
              name = base_path c
          in Inr \<lparr>ri_host = [], ri_owner = [],
               ri_name = (if name = [] \<or> name = ''.'' \<or> name = ''/'' then c else name),
               ri_full_path = local_repository_full_path c\<rparr>)"

subsection \<open>The identity of a repository\<close>

definition repository_info_from_git :: "path_env \<Rightarrow> repo_git \<Rightarrow> string + repository_info" where
  "repository_info_from_git env g =
     (let remote = (case gi_url g of
                      Inl e \<Rightarrow> Inl (''failed to get repository URL: '' @ e)
                    | Inr url \<Rightarrow> (case canonical_info_from_remote url of
                        Some info \<Rightarrow> Inr info
                      | None \<Rightarrow> Inl (''origin '' @ go_quote url @ '' does not qualify as a canonical repository identity'')))
      in case remote of
        Inr info \<Rightarrow> Inr info
      | Inl u \<Rightarrow>
          (case gi_main g of
             Inl e \<Rightarrow> Inl (u @ ''; failed to get repository path for local fallback: '' @ e)
           | Inr root \<Rightarrow> (case repository_info_from_local_path env True root of
                 Inl e \<Rightarrow> Inl (u @ ''; failed to build local repository identity: '' @ e)
               | Inr info \<Rightarrow> Inr info)))"

fun registered_identity :: "path_env \<Rightarrow> string \<Rightarrow> project list \<Rightarrow> repository_info option" where
  "registered_identity env main [] = None"
| "registered_identity env main (p # ps) =
     (if pj_path p = [] \<or> canonical_path env (pj_path p) \<noteq> main then registered_identity env main ps
      else case canonical_info (pj_repository p) of
        Some info \<Rightarrow> Some info
      | None \<Rightarrow> registered_identity env main ps)"

definition registered_project_identity :: "path_env \<Rightarrow> repo_git \<Rightarrow> project list \<Rightarrow> repository_info option" where
  "registered_project_identity env g ps =
     (if ps = [] then None
      else case gi_main g of
        Inl _ \<Rightarrow> None
      | Inr main \<Rightarrow> registered_identity env (canonical_path env main) ps)"

definition repository_info_with_projects :: "path_env \<Rightarrow> repo_git \<Rightarrow> project list \<Rightarrow> string + repository_info" where
  "repository_info_with_projects env g ps =
     (case registered_project_identity env g ps of
        Some info \<Rightarrow> Inr info
      | None \<Rightarrow> repository_info_from_git env g)"

end
