(* ===== verification/Project_Store.thy ===== *)
theory Project_Store
  imports Local_Identity Project_Fingerprint "HOL-Library.AList"
begin

text \<open>
  The global configuration file as the store of project registrations and workspaces
  (\<open>internal/config/config.go\<close>, \<open>global_store.go\<close>, \<open>workspace.go\<close>). The file is what it decodes to: the
  raw entries of its projects, with every key a user wrote, and its workspaces. Viper's decoding of the
  raw entries into the known fields is a parameter; so is what the file system answers.
\<close>

type_synonym raw_entry = "(string \<times> toml_value) list"

record registration =
  rg_persisted :: project
  rg_effective :: project
  rg_raw :: "raw_entry option"

record workspace =
  wk_name :: string
  wk_path :: string

record config_file =
  cf_projects :: "raw_entry list"
  cf_workspaces :: "workspace list"

text \<open>One run of a mutation: the errors of locking, reading and writing, and the typed decoding.\<close>

record config_io =
  ci_lock :: "string option"
  ci_read :: "string option"
  ci_write :: "string option"
  ci_raw :: "string option"
  ci_decode :: "raw_entry list \<Rightarrow> string + project list"

subsection \<open>The store\<close>

definition store_mutate ::
    "config_io \<Rightarrow> (config_file \<Rightarrow> string + config_file option) \<Rightarrow> config_file \<Rightarrow> config_file \<times> (string + bool)" where
  "store_mutate io change f =
     (case ci_lock io of
        Some e \<Rightarrow> (f, Inl e)
      | None \<Rightarrow> (case ci_read io of
          Some e \<Rightarrow> (f, Inl (''failed to read config: '' @ e))
        | None \<Rightarrow> (case change f of
            Inl e \<Rightarrow> (f, Inl e)
          | Inr None \<Rightarrow> (f, Inr False)
          | Inr (Some f') \<Rightarrow> (case ci_write io of
              Some e \<Rightarrow> (f, Inl e)
            | None \<Rightarrow> (f', Inr True)))))"

definition raw_project_entries :: "config_io \<Rightarrow> config_file \<Rightarrow> string + raw_entry list" where
  "raw_project_entries io f =
     (case ci_raw io of Some e \<Rightarrow> Inl (''failed to read raw projects: '' @ e) | None \<Rightarrow> Inr (cf_projects f))"

subsection \<open>Registrations\<close>

definition same_persisted_entry :: "registration \<Rightarrow> registration \<Rightarrow> bool" where
  "same_persisted_entry p q \<longleftrightarrow>
     (if rg_raw p = None \<and> rg_raw q = None then rg_persisted p = rg_persisted q
      else same_value (V_Map (rg_raw p)) (V_Map (rg_raw q)))"

definition update_raw_project :: "raw_entry \<Rightarrow> project \<Rightarrow> raw_entry" where
  "update_raw_project raw p =
     AList.update ''last_touched'' (V_String (pj_last_touched p))
       (AList.update ''path'' (V_String (pj_path p))
         (AList.update ''name'' (V_String (pj_name p))
           (AList.update ''repository'' (V_String (pj_repository p)) raw)))"

definition replacement_fingerprint :: "(string \<Rightarrow> string) \<Rightarrow> registration \<Rightarrow> project \<Rightarrow> string + string" where
  "replacement_fingerprint sha p replacement =
     fingerprint sha (Some (update_raw_project (case rg_raw p of None \<Rightarrow> [] | Some r \<Rightarrow> r) replacement))"

definition normalize_project_path :: "path_env \<Rightarrow> string \<Rightarrow> string + string" where
  "normalize_project_path env path =
     (case expand_path env path of
        Inl e \<Rightarrow> Inl (''failed to expand project path: '' @ e)
      | Inr x \<Rightarrow> Inr (case pe_eval env x of Some r \<Rightarrow> r | None \<Rightarrow> x))"

definition same_project_path :: "path_env \<Rightarrow> string \<Rightarrow> string \<Rightarrow> bool" where
  "same_project_path env p q =
     (if p = [] \<or> q = [] then False
      else
        let p' = (case normalize_project_path env p of Inl _ \<Rightarrow> clean_path p | Inr x \<Rightarrow> x);
            q' = (case normalize_project_path env q of Inl _ \<Rightarrow> clean_path q | Inr x \<Rightarrow> x)
        in utils_path_key env p' = utils_path_key env q')"

definition same_project :: "path_env \<Rightarrow> project \<Rightarrow> project \<Rightarrow> bool" where
  "same_project env existing next =
     (if same_project_path env (pj_path existing) (pj_path next) then True
      else if pj_repository existing \<noteq> [] \<and> pj_repository next \<noteq> [] then
        (case (canonical_repository_identity (pj_repository existing),
               canonical_repository_identity (pj_repository next)) of
           (Some i, Some j) \<Rightarrow> fold_repository_identity i = fold_repository_identity j
         | _ \<Rightarrow> pj_repository existing = pj_repository next)
      else pj_path existing = pj_path next)"

subsection \<open>The compare-and-swap of a registration\<close>

definition raw_matches :: "raw_entry option \<Rightarrow> raw_entry \<Rightarrow> bool" where
  "raw_matches expected raw \<longleftrightarrow> same_value (V_Map (Some raw)) (V_Map expected)"

definition typed_projects :: "config_io \<Rightarrow> raw_entry list \<Rightarrow> string + project list" where
  "typed_projects io raws =
     (case ci_decode io raws of Inl e \<Rightarrow> Inl (''failed to read projects: '' @ e) | Inr ps \<Rightarrow> Inr ps)"

definition check_representations :: "string \<Rightarrow> project list \<Rightarrow> raw_entry list \<Rightarrow> string option" where
  "check_representations what ps raws =
     (if length ps \<noteq> length raws
      then Some (what @ '' representations disagree: '' @ itoa (int (length ps)) @ '' typed, ''
                 @ itoa (int (length raws)) @ '' raw'')
      else None)"

definition swap_entry :: "path_env \<Rightarrow> project list \<Rightarrow> raw_entry list \<Rightarrow> registration \<Rightarrow> project option
    \<Rightarrow> raw_entry list option" where
  "swap_entry env ps raws expected replacement =
     (case filter (\<lambda>i. raw_matches (rg_raw expected) (raws ! i)) [0..<length raws] of
        [m] \<Rightarrow>
          (case replacement of
             None \<Rightarrow> Some (take m raws @ drop (Suc m) raws)
           | Some r \<Rightarrow>
               if list_ex (\<lambda>i. i \<noteq> m \<and> same_project_path env (pj_path (ps ! i)) (pj_path r)) [0..<length ps]
               then None
               else Some (raws[m := update_raw_project (raws ! m) r]))
      | _ \<Rightarrow> None)"

definition compare_and_swap_project ::
    "path_env \<Rightarrow> config_io \<Rightarrow> registration \<Rightarrow> project option \<Rightarrow> config_file \<Rightarrow> config_file \<times> (string + bool)" where
  "compare_and_swap_project env io expected replacement f =
     store_mutate io (\<lambda>f.
       case raw_project_entries io f of
         Inl e \<Rightarrow> Inl e
       | Inr raws \<Rightarrow> (case typed_projects io raws of
           Inl e \<Rightarrow> Inl e
         | Inr ps \<Rightarrow> (case check_representations ''global project'' ps raws of
             Some e \<Rightarrow> Inl e
           | None \<Rightarrow> Inr (map_option (\<lambda>raws'. f\<lparr>cf_projects := raws'\<rparr>)
                              (swap_entry env ps raws expected replacement))))) f"

subsection \<open>Registering\<close>

text \<open>The project as it is stored: \<open>now\<close> is the formatted time.\<close>

definition registered_project :: "path_env \<Rightarrow> string \<Rightarrow> project \<Rightarrow> string + project" where
  "registered_project env now p =
     (if trim_space (pj_path p) = [] then Inl ''project path required''
      else case normalize_project_path env (pj_path p) of
        Inl e \<Rightarrow> Inl e
      | Inr path \<Rightarrow> Inr (p\<lparr>pj_path := path,
           pj_name := (if pj_name p = [] then base_path path else pj_name p),
           pj_repository := (if pj_repository p = [] then path else pj_repository p),
           pj_last_touched := now\<rparr>))"

text \<open>The first entry that is the same project is updated, or a new one is appended.\<close>

fun update_first :: "path_env \<Rightarrow> project \<Rightarrow> project list \<Rightarrow> raw_entry list \<Rightarrow> nat option" where
  "update_first env p (q # ps) (r # rs) =
     (if same_project env q p then Some 0 else map_option Suc (update_first env p ps rs))"
| "update_first env p _ _ = None"

definition register_entry :: "path_env \<Rightarrow> project \<Rightarrow> project list \<Rightarrow> raw_entry list \<Rightarrow> raw_entry list \<times> raw_entry" where
  "register_entry env p ps raws =
     (case update_first env p ps raws of
        Some i \<Rightarrow> (raws[i := update_raw_project (raws ! i) p], update_raw_project (raws ! i) p)
      | None \<Rightarrow> (raws @ [update_raw_project [] p], update_raw_project [] p))"

definition register_change ::
    "(string \<Rightarrow> string) \<Rightarrow> path_env \<Rightarrow> config_io \<Rightarrow> project \<Rightarrow> config_file \<Rightarrow> string + config_file \<times> string" where
  "register_change sha env io p f =
     (case typed_projects io (cf_projects f) of
        Inl e \<Rightarrow> Inl e
      | Inr ps \<Rightarrow> (case raw_project_entries io f of
          Inl e \<Rightarrow> Inl e
        | Inr raws \<Rightarrow> (case check_representations ''project'' ps raws of
            Some e \<Rightarrow> Inl e
          | None \<Rightarrow> (case register_entry env p ps raws of (raws', raw) \<Rightarrow>
              (case fingerprint sha (Some raw) of
                 Inl e \<Rightarrow> Inl e
               | Inr fp \<Rightarrow> Inr (f\<lparr>cf_projects := raws'\<rparr>, fp))))))"

definition register_project ::
    "(string \<Rightarrow> string) \<Rightarrow> path_env \<Rightarrow> config_io \<Rightarrow> string \<Rightarrow> project \<Rightarrow> config_file
       \<Rightarrow> config_file \<times> (string + project \<times> string)" where
  "register_project sha env io now p f =
     (case registered_project env now p of
        Inl e \<Rightarrow> (f, Inl e)
      | Inr p' \<Rightarrow>
          (case store_mutate io (\<lambda>f. map_sum id (\<lambda>(f', fp). Some f') (register_change sha env io p' f)) f of
             (f', Inl e) \<Rightarrow> (f', Inl e)
           | (f', Inr _) \<Rightarrow> (f', map_sum id (\<lambda>(_, fp). (p', fp)) (register_change sha env io p' f))))"

subsection \<open>Loading\<close>

text \<open>
  \<open>LoadGlobalSnapshotAtWithExpansion\<close>: the registrations of the file, each with its raw entry and its
  path expanded by \<open>expand\<close> and resolved. \<open>other\<close> is an error of the rest of the file: a setting that is
  invalid, or a path of it that does not expand.
\<close>

definition expand_registered ::
    "(string \<Rightarrow> string + string) \<Rightarrow> path_env \<Rightarrow> project \<Rightarrow> string + project" where
  "expand_registered expand env p =
     (if pj_path p = [] then Inr p
      else case expand (pj_path p) of
        Inl e \<Rightarrow> Inl (''failed to expand project path: '' @ e)
      | Inr x \<Rightarrow> Inr (p\<lparr>pj_path := (case pe_eval env x of Some r \<Rightarrow> r | None \<Rightarrow> x)\<rparr>))"

fun expand_all :: "(string \<Rightarrow> string + string) \<Rightarrow> path_env \<Rightarrow> project list \<Rightarrow> string + project list" where
  "expand_all expand env [] = Inr []"
| "expand_all expand env (p # ps) =
     (case expand_registered expand env p of
        Inl e \<Rightarrow> Inl e
      | Inr q \<Rightarrow> (case expand_all expand env ps of Inl e \<Rightarrow> Inl e | Inr qs \<Rightarrow> Inr (q # qs)))"

fun pair_up :: "project list \<Rightarrow> project list \<Rightarrow> raw_entry list \<Rightarrow> registration list" where
  "pair_up (p # ps) (q # qs) (r # rs) =
     \<lparr>rg_persisted = p, rg_effective = q, rg_raw = Some r\<rparr> # pair_up ps qs rs"
| "pair_up _ _ _ = []"

definition load_snapshot ::
    "(string \<Rightarrow> string + string) \<Rightarrow> path_env \<Rightarrow> config_io \<Rightarrow> string option \<Rightarrow> config_file
       \<Rightarrow> string + registration list" where
  "load_snapshot expand env io other f =
     (case ci_read io of
        Some e \<Rightarrow> Inl (''failed to read config: '' @ e)
      | None \<Rightarrow> (case ci_decode io (cf_projects f) of
          Inl e \<Rightarrow> Inl (''failed to unmarshal global config: '' @ e)
        | Inr ps \<Rightarrow> (case other of
            Some e \<Rightarrow> Inl e
          | None \<Rightarrow> (case expand_all expand env ps of
              Inl e \<Rightarrow> Inl e
            | Inr qs \<Rightarrow> (case raw_project_entries io f of
                Inl e \<Rightarrow> Inl e
              | Inr raws \<Rightarrow> (case check_representations ''global project'' ps raws of
                  Some e \<Rightarrow> Inl e
                | None \<Rightarrow> Inr (pair_up ps qs raws)))))))"

subsection \<open>Workspaces\<close>

text \<open>What \<open>os.Stat\<close> says of the path: an error, or whether it is a directory. \<open>fold_eq\<close> is
  \<open>strings.EqualFold\<close>.\<close>

definition validate_start_directory :: "string \<Rightarrow> string option" where
  "validate_start_directory path =
     (if contains_char path (CHR ''#'')
      then Some (''workspace path '' @ go_quote path
        @ '' contains tmux format syntax ('' @ [CHR 0x27] @ ''#'' @ [CHR 0x27] @ ''); choose a path without ''
        @ [CHR 0x27] @ ''#'' @ [CHR 0x27])
      else None)"

definition resolve_workspace :: "path_env \<Rightarrow> (string \<Rightarrow> string + bool) \<Rightarrow> workspace \<Rightarrow> string + workspace" where
  "resolve_workspace env stat w =
     (case normalize_project_path env (wk_path w) of
        Inl e \<Rightarrow> Inl e
      | Inr path \<Rightarrow> (case stat path of
          Inl e \<Rightarrow> Inl (''workspace path '' @ wk_path w @ '': '' @ e)
        | Inr dir \<Rightarrow>
            if \<not> dir then Inl (''workspace path '' @ wk_path w @ '' is not a directory'')
            else (case validate_start_directory path of
              Some e \<Rightarrow> Inl e
            | None \<Rightarrow>
                let name = (if trim_space (wk_name w) = [] then base_path path else wk_name w)
                in Inr \<lparr>wk_name = trim_space name, wk_path = path\<rparr>)))"

fun place_workspace ::
    "path_env \<Rightarrow> (string \<Rightarrow> string \<Rightarrow> bool) \<Rightarrow> workspace \<Rightarrow> workspace list \<Rightarrow> string + workspace list \<times> bool" where
  "place_workspace env fold_eq w [] = Inr ([], False)"
| "place_workspace env fold_eq w (v # vs) =
     (if same_project_path env (wk_path v) (wk_path w) then
        (case place_workspace env fold_eq w vs of Inl e \<Rightarrow> Inl e | Inr (vs', _) \<Rightarrow> Inr (w # vs', True))
      else if fold_eq (wk_name v) (wk_name w) then
        Inl (''workspace name '' @ go_quote (wk_name w) @ '' is already registered for '' @ wk_path v
             @ ''; choose another with --name'')
      else (case place_workspace env fold_eq w vs of Inl e \<Rightarrow> Inl e | Inr (vs', u) \<Rightarrow> Inr (v # vs', u)))"

definition workspace_change ::
    "path_env \<Rightarrow> (string \<Rightarrow> string \<Rightarrow> bool) \<Rightarrow> string option \<Rightarrow> workspace \<Rightarrow> config_file \<Rightarrow> string + config_file option" where
  "workspace_change env fold_eq decode_error w f =
     (case decode_error of
        Some e \<Rightarrow> Inl (''failed to read workspaces: '' @ e)
      | None \<Rightarrow> (case place_workspace env fold_eq w (cf_workspaces f) of
          Inl e \<Rightarrow> Inl e
        | Inr (ws, updated) \<Rightarrow> Inr (Some (f\<lparr>cf_workspaces := (if updated then ws else ws @ [w])\<rparr>))))"

definition register_workspace ::
    "path_env \<Rightarrow> (string \<Rightarrow> string \<Rightarrow> bool) \<Rightarrow> (string \<Rightarrow> string + bool) \<Rightarrow> config_io \<Rightarrow> string option
       \<Rightarrow> workspace \<Rightarrow> config_file \<Rightarrow> config_file \<times> (string + workspace)" where
  "register_workspace env fold_eq stat io decode_error w f =
     (case resolve_workspace env stat w of
        Inl e \<Rightarrow> (f, Inl e)
      | Inr w' \<Rightarrow>
          (case store_mutate io (workspace_change env fold_eq decode_error w') f of
             (f', Inl e) \<Rightarrow> (f', Inl e)
           | (f', Inr _) \<Rightarrow> (f', Inr w')))"

definition workspace_removal ::
    "(string \<Rightarrow> string \<Rightarrow> bool) \<Rightarrow> string option \<Rightarrow> string \<Rightarrow> config_file \<Rightarrow> string + config_file option" where
  "workspace_removal fold_eq decode_error name f =
     (case decode_error of
        Some e \<Rightarrow> Inl (''failed to read workspaces: '' @ e)
      | None \<Rightarrow>
          let ws = cf_workspaces f; kept = filter (\<lambda>w. \<not> fold_eq (wk_name w) name) ws in
          if length kept = length ws then
            Inl (if ws = [] then ''no workspace named '' @ go_quote name @ ''; no workspaces registered''
                 else ''no workspace named '' @ go_quote name @ ''; registered: ''
                      @ join '', '' (sort (map wk_name ws)))
          else Inr (Some (f\<lparr>cf_workspaces := kept\<rparr>)))"

definition unregister_workspace ::
    "(string \<Rightarrow> string \<Rightarrow> bool) \<Rightarrow> config_io \<Rightarrow> string option \<Rightarrow> string \<Rightarrow> config_file
       \<Rightarrow> config_file \<times> string option" where
  "unregister_workspace fold_eq io decode_error name f =
     (case store_mutate io (workspace_removal fold_eq decode_error (trim_space name)) f of
        (f', Inl e) \<Rightarrow> (f', Some e)
      | (f', Inr _) \<Rightarrow> (f', None))"

end
