(* ===== verification/Project_Identity.thy ===== *)
theory Project_Identity
  imports Project_Store Service
begin

text \<open>
  The identities a project is locked by, and the checks made under the locks
  (\<open>internal/lifecycle/project_identity.go\<close>, \<open>project_fence.go\<close>, \<open>project_registration.go\<close>,
  \<open>project_removal.go\<close>, and the expansion context of \<open>inventory.go\<close>). A record holds what one call sees:
  the file system, git in a directory, whether the context is over, and how the configuration reads.
\<close>

subsection \<open>The expansion context\<close>

record expansion_context =
  ex_wd :: string
  ex_home :: string
  ex_env :: "(string \<times> string) list"

definition env_name_char :: "char \<Rightarrow> bool" where
  "env_name_char c \<longleftrightarrow> is_lower c \<or> is_upper c \<or> c = CHR ''_''"

definition valid_environment_name :: "string \<Rightarrow> bool" where
  "valid_environment_name n \<longleftrightarrow>
     (case n of [] \<Rightarrow> False | c # cs \<Rightarrow> env_name_char c \<and> list_all (\<lambda>d. env_name_char d \<or> is_digit d) cs)"

definition validate_expansion :: "expansion_context \<Rightarrow> string option" where
  "validate_expansion c =
     (if \<not> is_abs (ex_wd c) then Some ''path-expansion working directory must be absolute''
      else if \<not> is_abs (ex_home c) then Some ''path-expansion home directory must be absolute''
      else case filter (\<lambda>n. \<not> valid_environment_name n) (map fst (ex_env c)) of
        [] \<Rightarrow> None
      | n # _ \<Rightarrow> Some (''invalid path-expansion environment name '' @ go_quote n))"

text \<open>\<open>os.Expand\<close>: \<open>shell_name\<close> is \<open>getShellName\<close>, the name after a dollar and the bytes it takes.\<close>

definition shell_special_var :: "char \<Rightarrow> bool" where
  "shell_special_var c \<longleftrightarrow> c \<in> set ''*#$@!?-'' \<or> is_digit c"

definition shell_alnum :: "char \<Rightarrow> bool" where
  "shell_alnum c \<longleftrightarrow> env_name_char c \<or> is_digit c"

definition shell_name :: "string \<Rightarrow> string \<times> nat" where
  "shell_name s =
     (case s of
        [] \<Rightarrow> ([], 0)
      | c # cs \<Rightarrow>
          if c = CHR ''{'' then
            (if 2 < length s \<and> shell_special_var (s ! 1) \<and> s ! 2 = CHR ''}'' then ([s ! 1], 3)
             else if CHR ''}'' \<in> set cs then
               (let n = takeWhile (\<lambda>x. x \<noteq> CHR ''}'') cs in if n = [] then ([], 2) else (n, length n + 2))
             else ([], 1))
          else if shell_special_var c then ([c], 1)
          else (takeWhile shell_alnum s, length (takeWhile shell_alnum s)))"

function os_expand :: "(string \<Rightarrow> string) \<Rightarrow> string \<Rightarrow> string" where
  "os_expand mapping [] = []"
| "os_expand mapping (c # s) =
     (if c = CHR ''$'' \<and> s \<noteq> [] then
        (case shell_name s of (name, w) \<Rightarrow>
           (if name = [] \<and> 0 < w then [] else if name = [] then [c] else mapping name)
             @ os_expand mapping (drop w s))
      else c # os_expand mapping s)"
  by pat_completeness auto
termination by (relation "measure (\<lambda>(_, s). length s)") auto

declare os_expand.simps(2) [simp del]

definition expand_with :: "expansion_context \<Rightarrow> string \<Rightarrow> string + string" where
  "expand_with c path =
     (if path = [] then Inr []
      else
        let p = os_expand (\<lambda>n. case map_of (ex_env c) n of Some v \<Rightarrow> v | None \<Rightarrow> []) path;
            q = (if p = ''~'' then ex_home c
                 else if has_prefix p ''~/'' then join_path (ex_home c) (drop 2 p) else p)
        in Inr (if is_abs q then q else join_path (ex_wd c) q))"

subsection \<open>Identities\<close>

definition is_exact_local :: "string \<Rightarrow> bool" where
  "is_exact_local i \<longleftrightarrow> has_prefix i ''local/'' \<and> length ''local/'' < length i"

definition identity_invalid :: go_error where
  "identity_invalid = Plain_Error ''expected repository identity is invalid''"

definition validate_project_identity :: "string \<Rightarrow> go_error + string" where
  "validate_project_identity i =
     (if i = [] then Inl identity_invalid
      else if is_exact_local i then Inr i
      else if i \<noteq> trim_space i then Inl identity_invalid
      else case canonical_repository_identity i of
        Some c \<Rightarrow> (if c = i then Inr i else Inl identity_invalid)
      | None \<Rightarrow> Inl identity_invalid)"

definition fold_project_identity :: "string \<Rightarrow> go_error + string" where
  "fold_project_identity i =
     (case validate_project_identity i of
        Inl e \<Rightarrow> Inl e
      | Inr j \<Rightarrow> Inr (if is_exact_local j then j else fold_repository_identity j))"

definition equal_project_identity :: "string \<Rightarrow> string \<Rightarrow> bool" where
  "equal_project_identity l r \<longleftrightarrow>
     (case (fold_project_identity l, fold_project_identity r) of (Inr a, Inr b) \<Rightarrow> a = b | _ \<Rightarrow> False)"

definition path_lifecycle_identity :: "path_env \<Rightarrow> string \<Rightarrow> go_error + string" where
  "path_lifecycle_identity env path =
     (case repository_info_from_local_path env False path of
        Inl e \<Rightarrow> Inl (Wrapped ''derive project path identity: '' (Plain_Error e))
      | Inr info \<Rightarrow>
          if ri_full_path info = [] then Inl (Plain_Error ''derive project path identity: empty identity'')
          else Inr (ri_full_path info))"

text \<open>What one call sees of the world.\<close>

record project_world =
  pw_paths :: path_env
  pw_git :: "string \<Rightarrow> repo_git"
  pw_cancelled :: "go_error option"
  pw_io :: config_io
  pw_other :: "string option"

definition stable_project_identity :: "path_env \<Rightarrow> registration \<Rightarrow> go_error + string" where
  "stable_project_identity env r =
     (case canonical_repository_identity (pj_repository (rg_persisted r)) of
        Some i \<Rightarrow> Inr i
      | None \<Rightarrow> (case repository_info_from_local_path env False (pj_path (rg_effective r)) of
          Inl _ \<Rightarrow> Inl (Plain_Error ''derive local project identity'')
        | Inr info \<Rightarrow>
            if is_local_fallback_identity (ri_full_path info) then Inr (ri_full_path info)
            else Inl (Plain_Error ''derive local project identity'')))"

definition git_project_identity :: "path_env \<Rightarrow> repo_git \<Rightarrow> project \<Rightarrow> string option" where
  "git_project_identity env g p =
     (case gi_main g of
        Inl _ \<Rightarrow> None
      | Inr main \<Rightarrow>
          if utils_path_key env main \<noteq> utils_path_key env (pj_path p) then None
          else case repository_info_with_projects env g [p] of
            Inl _ \<Rightarrow> None
          | Inr info \<Rightarrow> canonical_repository_identity (ri_full_path info))"

definition resolve_project_identity :: "project_world \<Rightarrow> registration \<Rightarrow> go_error + string" where
  "resolve_project_identity w r =
     (case canonical_repository_identity (pj_repository (rg_persisted r)) of
        Some i \<Rightarrow> Inr i
      | None \<Rightarrow>
          (case git_project_identity (pw_paths w) (pw_git w (pj_path (rg_effective r))) (rg_effective r) of
             Some i \<Rightarrow> Inr i
           | None \<Rightarrow> (case pw_cancelled w of
               Some e \<Rightarrow> Inl e
             | None \<Rightarrow> stable_project_identity (pw_paths w) r)))"

text \<open>\<open>stableProjectIdentitySet\<close>: folded, sorted by bytes, without repetitions.\<close>

fun fold_all :: "string list \<Rightarrow> go_error + string list" where
  "fold_all [] = Inr []"
| "fold_all (i # is) =
     (case fold_project_identity i of
        Inl e \<Rightarrow> Inl e
      | Inr j \<Rightarrow> (case fold_all is of Inl e \<Rightarrow> Inl e | Inr js \<Rightarrow> Inr (j # js)))"

definition stable_identity_set :: "string list \<Rightarrow> go_error + string list" where
  "stable_identity_set is = (case fold_all is of Inl e \<Rightarrow> Inl e | Inr js \<Rightarrow> Inr (remdups_adj (sort js)))"

subsection \<open>Reading the configuration\<close>

definition load_registrations :: "project_world \<Rightarrow> expansion_context \<Rightarrow> config_file \<Rightarrow> go_error + registration list" where
  "load_registrations w x f =
     (case load_snapshot (expand_with x) (pw_paths w) (pw_io w) (pw_other w) f of
        Inl e \<Rightarrow> Inl (Plain_Error e)
      | Inr rs \<Rightarrow> Inr rs)"

definition resolve_prospective_identity ::
    "project_world \<Rightarrow> expansion_context \<Rightarrow> project \<Rightarrow> config_file \<Rightarrow> go_error + string" where
  "resolve_prospective_identity w x p f =
     (case validate_expansion x of
        Some e \<Rightarrow> Inl (Plain_Error e)
      | None \<Rightarrow> (case load_registrations w x f of
          Inl e \<Rightarrow> Inl e
        | Inr _ \<Rightarrow> (case expand_with x (pj_path p) of
            Inl e \<Rightarrow> Inl (Plain_Error e)
          | Inr path \<Rightarrow>
              resolve_project_identity w \<lparr>rg_persisted = p, rg_effective = p\<lparr>pj_path := path\<rparr>, rg_raw = None\<rparr>)))"

subsection \<open>Claims\<close>

record project_claim =
  pc_registration :: registration
  pc_identity :: string
  pc_identities :: "string list"
  pc_expansion :: expansion_context
  pc_main_path :: string
  pc_registered :: bool

definition no_project :: project where
  "no_project = \<lparr>pj_repository = [], pj_name = [], pj_path = [], pj_last_touched = []\<rparr>"

definition no_registration :: registration where
  "no_registration = \<lparr>rg_persisted = no_project, rg_effective = no_project, rg_raw = None\<rparr>"

definition owns_path :: "path_env \<Rightarrow> string \<Rightarrow> registration \<Rightarrow> bool" where
  "owns_path env path r \<longleftrightarrow> utils_path_key env (pj_path (rg_effective r)) = utils_path_key env path"

definition observe_project_claim ::
    "project_world \<Rightarrow> string \<Rightarrow> expansion_context \<Rightarrow> config_file \<Rightarrow> go_error + project_claim" where
  "observe_project_claim w main x f =
     (case pw_cancelled w of
        Some e \<Rightarrow> Inl e
      | None \<Rightarrow> (case validate_expansion x of
          Some e \<Rightarrow> Inl (Plain_Error e)
        | None \<Rightarrow> (case load_registrations w x f of
            Inl e \<Rightarrow> Inl e
          | Inr rs \<Rightarrow> (case filter (owns_path (pw_paths w) main) rs of
              [] \<Rightarrow> (case path_lifecycle_identity (pw_paths w) main of
                  Inl e \<Rightarrow> Inl e
                | Inr i \<Rightarrow> (case stable_identity_set [i] of
                    Inl e \<Rightarrow> Inl e
                  | Inr is \<Rightarrow> Inr \<lparr>pc_registration = no_registration, pc_identity = i, pc_identities = is,
                      pc_expansion = x, pc_main_path = main, pc_registered = False\<rparr>))
            | [r] \<Rightarrow> (case resolve_project_identity w r of
                  Inl e \<Rightarrow> Inl (new_error Internal ''internal failure'' False [] (Some e))
                | Inr i \<Rightarrow> (case path_lifecycle_identity (pw_paths w) main of
                    Inl e \<Rightarrow> Inl e
                  | Inr p \<Rightarrow> (case stable_identity_set [i, p] of
                      Inl e \<Rightarrow> Inl e
                    | Inr is \<Rightarrow> Inr \<lparr>pc_registration = r, pc_identity = i, pc_identities = is,
                        pc_expansion = x, pc_main_path = main, pc_registered = True\<rparr>)))
            | _ \<Rightarrow> Inl (new_error UnregistrationFailed
                      ''multiple project registrations own the repository'' False [] None)))))"

definition registration_changed :: "go_error option \<Rightarrow> go_error" where
  "registration_changed cause =
     new_error RegistrationChanged ''the project registration changed before the operation began'' True [] cause"

definition claim_entry_matches :: "project_world \<Rightarrow> project_claim \<Rightarrow> registration \<Rightarrow> go_error + bool" where
  "claim_entry_matches w c r =
     (if \<not> owns_path (pw_paths w) (pc_main_path c) r then Inr False
      else case path_lifecycle_identity (pw_paths w) (pj_path (rg_effective r)) of
        Inl e \<Rightarrow> Inl e
      | Inr p \<Rightarrow> (case path_lifecycle_identity (pw_paths w) (pc_main_path c) of
          Inl e \<Rightarrow> Inl e
        | Inr q \<Rightarrow>
            if \<not> equal_project_identity p q then Inr False
            else case resolve_project_identity w r of
              Inl e \<Rightarrow> Inl e
            | Inr i \<Rightarrow> Inr (equal_project_identity i (pc_identity c))))"

definition project_claim_matches :: "project_world \<Rightarrow> project_claim \<Rightarrow> config_file \<Rightarrow> go_error + bool" where
  "project_claim_matches w c f =
     (case load_registrations w (pc_expansion c) f of
        Inl e \<Rightarrow> Inl e
      | Inr rs \<Rightarrow>
          if \<not> pc_registered c then
            (if list_ex (owns_path (pw_paths w) (pc_main_path c)) rs then Inr False
             else case path_lifecycle_identity (pw_paths w) (pc_main_path c) of
               Inl e \<Rightarrow> Inl e
             | Inr i \<Rightarrow> Inr (pc_identity c = i))
          else case List.find (\<lambda>r. same_persisted_entry r (pc_registration c)) rs of
            None \<Rightarrow> Inr False
          | Some r \<Rightarrow> claim_entry_matches w c r)"

definition claim_identities :: "project_claim \<Rightarrow> string list" where
  "claim_identities c = (if pc_identities c = [] then [pc_identity c] else pc_identities c)"

end
