(* ===== verification/Project_Fence.thy ===== *)
theory Project_Fence
  imports Project_Identity
begin

text \<open>
  The fence around projects (\<open>internal/lifecycle/project_fence.go\<close>, \<open>project_registration.go\<close>,
  \<open>project_removal.go\<close>): what a claim, a change of the registrations and a removal decide, and the locks
  they take, as a transition system of processes. Every lock is a file under \<open>project-locks\<close>: one for
  transitions, one per identity, named by the SHA-256 of the folded identity.
\<close>

subsection \<open>Changing a registration\<close>

definition update_matches :: "path_env \<Rightarrow> registration \<Rightarrow> registration \<Rightarrow> bool" where
  "update_matches env current next \<longleftrightarrow>
     (if pj_path (rg_effective current) \<noteq> [] \<and> pj_path (rg_effective next) \<noteq> []
         \<and> utils_path_key env (pj_path (rg_effective current)) = utils_path_key env (pj_path (rg_effective next))
      then True
      else case (canonical_repository_identity (pj_repository (rg_persisted current)),
                 canonical_repository_identity (pj_repository (rg_persisted next))) of
        (Some i, Some j) \<Rightarrow> fold_repository_identity i = fold_repository_identity j
      | _ \<Rightarrow> pj_repository (rg_persisted current) \<noteq> []
             \<and> pj_repository (rg_persisted current) = pj_repository (rg_persisted next))"

definition folded_identity :: "project_world \<Rightarrow> registration \<Rightarrow> go_error + string" where
  "folded_identity w r =
     (case resolve_project_identity w r of Inl e \<Rightarrow> Inl e | Inr i \<Rightarrow> fold_project_identity i)"

definition entry_identities :: "project_world \<Rightarrow> registration \<Rightarrow> go_error + string list" where
  "entry_identities w r =
     (case folded_identity w r of
        Inl e \<Rightarrow> Inl e
      | Inr i \<Rightarrow>
          if pj_path (rg_effective r) = [] then Inr [i]
          else case path_lifecycle_identity (pw_paths w) (pj_path (rg_effective r)) of
            Inl e \<Rightarrow> Inl e
          | Inr p \<Rightarrow> Inr [i, p])"

fun matching_identities :: "project_world \<Rightarrow> registration \<Rightarrow> registration list \<Rightarrow> go_error + string list" where
  "matching_identities w next [] = Inr []"
| "matching_identities w next (r # rs) =
     (if \<not> update_matches (pw_paths w) r next then matching_identities w next rs
      else case entry_identities w r of
        Inl e \<Rightarrow> Inl e
      | Inr is \<Rightarrow> (case matching_identities w next rs of Inl e \<Rightarrow> Inl e | Inr js \<Rightarrow> Inr (is @ js)))"

definition next_registration :: "project_world \<Rightarrow> expansion_context \<Rightarrow> project \<Rightarrow> go_error + registration" where
  "next_registration w x p =
     (case expand_with x (pj_path p) of
        Inl e \<Rightarrow> Inl (Plain_Error e)
      | Inr path \<Rightarrow>
          Inr \<lparr>rg_persisted = p,
               rg_effective = p\<lparr>pj_path := (case pe_eval (pw_paths w) path of Some q \<Rightarrow> q | None \<Rightarrow> path)\<rparr>,
               rg_raw = None\<rparr>)"

definition transition_identities ::
    "project_world \<Rightarrow> expansion_context \<Rightarrow> project \<Rightarrow> config_file \<Rightarrow> go_error + string list" where
  "transition_identities w x p f =
     (case load_registrations w x f of
        Inl e \<Rightarrow> Inl e
      | Inr rs \<Rightarrow> (case next_registration w x p of
          Inl e \<Rightarrow> Inl e
        | Inr next \<Rightarrow> (case folded_identity w next of
            Inl e \<Rightarrow> Inl e
          | Inr i \<Rightarrow> (case path_lifecycle_identity (pw_paths w) (pj_path (rg_effective next)) of
              Inl e \<Rightarrow> Inl e
            | Inr q \<Rightarrow> (case matching_identities w next rs of
                Inl e \<Rightarrow> Inl e
              | Inr js \<Rightarrow> Inr (remdups_adj (sort ([i, q] @ js))))))))"

text \<open>What the callers change: a project is registered at a time, or a registration replaced.\<close>

datatype mutation = Register project string | Relocate registration project

fun mutation_project :: "mutation \<Rightarrow> project" where
  "mutation_project (Register p now) = p"
| "mutation_project (Relocate r p) = p"

definition perform_mutation ::
    "(string \<Rightarrow> string) \<Rightarrow> project_world \<Rightarrow> mutation \<Rightarrow> config_file \<Rightarrow> config_file \<times> go_error option" where
  "perform_mutation sha w m f =
     (case m of
        Register p now \<Rightarrow> (case register_project sha (pw_paths w) (pw_io w) now p f of
            (f', Inl e) \<Rightarrow> (f', Some (Plain_Error e))
          | (f', Inr _) \<Rightarrow> (f', None))
      | Relocate r p \<Rightarrow> (case compare_and_swap_project (pw_paths w) (pw_io w) r (Some p) f of
            (f', Inl e) \<Rightarrow> (f', Some (Plain_Error e))
          | (f', Inr _) \<Rightarrow> (f', None)))"

subsection \<open>Removing a project\<close>

record removal_request =
  rr_path :: string
  rr_repository :: string
  rr_registration :: string
  rr_expansion :: expansion_context

definition removal_internal :: "go_error \<Rightarrow> go_error" where
  "removal_internal e = new_error Internal ''internal failure'' False [] (Some e)"

definition removal_changed :: "string \<Rightarrow> go_error option \<Rightarrow> go_error" where
  "removal_changed msg cause = new_error RegistrationChanged msg True [] cause"

definition no_longer_matches :: string where
  "no_longer_matches = ''the project registration no longer matches the expected repository''"

definition classify_removal_failure :: "go_error \<Rightarrow> go_error" where
  "classify_removal_failure e =
     (if is_context_error e
      then new_error ProtectedEndpointInventoryIncomplete
             ''project removal could not acquire endpoint authority'' True [] (Some e)
      else removal_internal e)"

definition validate_removal :: "removal_request \<Rightarrow> go_error + string" where
  "validate_removal q =
     (let invalid = (\<lambda>cause. new_error InvalidRequest ''project removal request is invalid'' False [] cause) in
      case validate_project_identity (rr_repository q) of
        Inl e \<Rightarrow> Inl (invalid (Some e))
      | Inr i \<Rightarrow>
          if rr_path q = [] \<or> \<not> valid_fingerprint (rr_registration q) then Inl (invalid None)
          else case validate_expansion (rr_expansion q) of
            Some e \<Rightarrow> Inl (new_error InvalidRequest ''project removal expansion context is invalid'' False []
                              (Some (Plain_Error e)))
          | None \<Rightarrow> Inr i)"

definition find_exact_registration :: "registration list \<Rightarrow> string \<Rightarrow> registration list" where
  "find_exact_registration rs path = filter (\<lambda>r. pj_path (rg_persisted r) = path) rs"

definition removal_check ::
    "(string \<Rightarrow> string) \<Rightarrow> project_world \<Rightarrow> registration option \<Rightarrow> removal_request \<Rightarrow> string \<Rightarrow> config_file
       \<Rightarrow> go_error + registration" where
  "removal_check sha w expected q i f =
     (case load_registrations w (rr_expansion q) f of
        Inl e \<Rightarrow> Inl (removal_internal e)
      | Inr rs \<Rightarrow> (case find_exact_registration rs (rr_path q) of
          [] \<Rightarrow> Inl (new_error ProjectNotFound ''no project is registered at the exact path'' False [] None)
        | [r] \<Rightarrow> (case fingerprint sha (rg_raw r) of
            Inl e \<Rightarrow> Inl (removal_internal (Plain_Error e))
          | Inr fp \<Rightarrow>
              if fp \<noteq> rr_registration q then
                Inl (removal_changed ''the project registration changed after it was observed'' None)
              else if (case expected of None \<Rightarrow> False | Some x \<Rightarrow> \<not> same_persisted_entry r x) then
                Inl (removal_changed ''the project registration changed after it was inspected'' None)
              else (case resolve_project_identity w r of
                Inl e \<Rightarrow> Inl (removal_changed no_longer_matches (Some e))
              | Inr j \<Rightarrow>
                  if \<not> equal_project_identity j i then Inl (removal_changed no_longer_matches None)
                  else Inr r))
        | _ \<Rightarrow> Inl (new_error UnregistrationFailed ''multiple project registrations use the exact path''
                      False [] None)))"

definition removal_recheck ::
    "project_world \<Rightarrow> removal_request \<Rightarrow> string \<Rightarrow> registration \<Rightarrow> config_file \<Rightarrow> go_error + registration" where
  "removal_recheck w q i r f =
     (case load_registrations w (rr_expansion q) f of
        Inl e \<Rightarrow> Inl (removal_internal e)
      | Inr rs \<Rightarrow> (case find_exact_registration rs (rr_path q) of
          [c] \<Rightarrow>
            if \<not> same_persisted_entry c r then Inl (removal_changed no_longer_matches None)
            else (case resolve_project_identity w c of
              Inl e \<Rightarrow> Inl (removal_changed no_longer_matches (Some e))
            | Inr j \<Rightarrow>
                if \<not> equal_project_identity j i then Inl (removal_changed no_longer_matches None) else Inr c)
        | _ \<Rightarrow> Inl (removal_changed no_longer_matches None)))"

text \<open>The final compare-and-swap; \<open>endpoints\<close> is the error of the protected sessions, if any.\<close>

definition removal_commit ::
    "project_world \<Rightarrow> go_error option \<Rightarrow> registration \<Rightarrow> config_file \<Rightarrow> config_file \<times> go_error option" where
  "removal_commit w endpoints r f =
     (case endpoints of
        Some e \<Rightarrow> (f, Some e)
      | None \<Rightarrow> (case compare_and_swap_project (pw_paths w) (pw_io w) r None f of
          (f', Inl e) \<Rightarrow> (f', Some (removal_internal (Plain_Error e)))
        | (f', Inr changed) \<Rightarrow>
            (f', if changed then None
                 else Some (removal_changed ''the project registration changed before it could be removed'' None))))"

subsection \<open>Locks\<close>

type_synonym process = nat

definition transition_lock :: string where "transition_lock = ''registry.lock''"

definition fence_lock :: "(string \<Rightarrow> string) \<Rightarrow> string \<Rightarrow> go_error + string" where
  "fence_lock sha i =
     (case fold_project_identity i of
        Inl e \<Rightarrow> Inl (new_error InvalidRequest ''expected repository identity is invalid'' False [] (Some e))
      | Inr j \<Rightarrow> Inr (hex_text (sha j) @ ''.lock''))"

datatype fence_request =
    Claim project_claim
  | Change expansion_context mutation
  | Removal "registration option" removal_request

datatype fence_plan =
    Holding project_claim
  | Changing expansion_context mutation "string list"
  | Removing removal_request string registration

text \<open>Where a process is: \<open>Taking\<close> and \<open>Rechecking\<close> hold the transition lock and the locks listed, the
  last one first; \<open>Freeing\<close> lists the locks still to release.\<close>

datatype fence_pc =
    Resting "go_error option"
  | Wanting fence_request
  | Deciding fence_request
  | Taking fence_plan "string list" "string list"
  | Rechecking fence_plan "string list"
  | Working fence_plan "string list"
  | Freeing "string list" fence_pc

record fence_state =
  fs_file :: config_file
  fs_locks :: "string \<Rightarrow> process option"
  fs_pc :: "process \<Rightarrow> fence_pc"

definition fence_begin :: "fence_request \<Rightarrow> fence_pc" where
  "fence_begin q =
     (case q of
        Removal x r \<Rightarrow> (case validate_removal r of Inl e \<Rightarrow> Resting (Some e) | Inr _ \<Rightarrow> Wanting q)
      | _ \<Rightarrow> Wanting q)"

text \<open>What a request decides under the transition lock: a plan and the identities to lock, in order.\<close>

definition decide ::
    "(string \<Rightarrow> string) \<Rightarrow> project_world \<Rightarrow> config_file \<Rightarrow> fence_request \<Rightarrow> go_error + fence_plan \<times> string list" where
  "decide sha w f q =
     (case q of
        Claim c \<Rightarrow> (case project_claim_matches w c f of
            Inl e \<Rightarrow> Inl (registration_changed (Some e))
          | Inr ok \<Rightarrow> if ok then Inr (Holding c, claim_identities c) else Inl (registration_changed None))
      | Change x m \<Rightarrow> (case transition_identities w x (mutation_project m) f of
            Inl e \<Rightarrow> Inl e
          | Inr is \<Rightarrow> Inr (Changing x m is, is))
      | Removal x r \<Rightarrow> (case validate_removal r of
            Inl e \<Rightarrow> Inl e
          | Inr i \<Rightarrow> (case removal_check sha w x r i f of
              Inl e \<Rightarrow> Inl e
            | Inr reg \<Rightarrow> Inr (Removing r i reg, [i]))))"

text \<open>The check once the identities are locked: go on with a plan, or (for a change) start over.\<close>

definition recheck :: "project_world \<Rightarrow> config_file \<Rightarrow> fence_plan \<Rightarrow> go_error + fence_plan option" where
  "recheck w f plan =
     (case plan of
        Holding c \<Rightarrow> (case project_claim_matches w c f of
            Inl e \<Rightarrow> Inl (registration_changed (Some e))
          | Inr ok \<Rightarrow> if ok then Inr (Some plan) else Inl (registration_changed None))
      | Changing x m is \<Rightarrow> (case transition_identities w x (mutation_project m) f of
            Inl e \<Rightarrow> Inl e
          | Inr js \<Rightarrow> Inr (if js = is then Some plan else None))
      | Removing r i reg \<Rightarrow> (case removal_recheck w r i reg f of
            Inl e \<Rightarrow> Inl e
          | Inr reg' \<Rightarrow> Inr (Some (Removing r i reg'))))"

text \<open>Whether the plan keeps the transition lock while it works.\<close>

definition keeps_transition :: "fence_plan \<Rightarrow> bool" where
  "keeps_transition plan = (case plan of Changing x m is \<Rightarrow> True | _ \<Rightarrow> False)"

definition plan_request :: "fence_plan \<Rightarrow> fence_request" where
  "plan_request plan =
     (case plan of Holding c \<Rightarrow> Claim c | Changing x m is \<Rightarrow> Change x m | Removing r i reg \<Rightarrow> Removal None r)"

text \<open>The error a failed lock gives the caller: only \<open>RemoveProject\<close> classifies it.\<close>

definition lock_failure :: "fence_plan \<Rightarrow> go_error \<Rightarrow> go_error" where
  "lock_failure plan e = (case plan of Removing r i reg \<Rightarrow> classify_removal_failure e | _ \<Rightarrow> e)"

definition request_lock_failure :: "fence_request \<Rightarrow> go_error \<Rightarrow> go_error" where
  "request_lock_failure q e = (case q of Removal x r \<Rightarrow> classify_removal_failure e | _ \<Rightarrow> e)"

definition work :: "(string \<Rightarrow> string) \<Rightarrow> project_world \<Rightarrow> go_error option \<Rightarrow> fence_plan \<Rightarrow> config_file
    \<Rightarrow> config_file \<times> go_error option" where
  "work sha w outcome plan f =
     (case plan of
        Holding c \<Rightarrow> (f, outcome)
      | Changing x m is \<Rightarrow> perform_mutation sha w m f
      | Removing r i reg \<Rightarrow> removal_commit w outcome reg f)"

subsection \<open>Steps\<close>

definition set_fence_pc :: "process \<Rightarrow> fence_pc \<Rightarrow> fence_state \<Rightarrow> fence_state" where
  "set_fence_pc t pc s = s\<lparr>fs_pc := (fs_pc s)(t := pc)\<rparr>"

definition set_lock :: "string \<Rightarrow> process option \<Rightarrow> fence_state \<Rightarrow> fence_state" where
  "set_lock l v s = s\<lparr>fs_locks := (fs_locks s)(l := v)\<rparr>"

definition after_decision :: "go_error + fence_plan \<times> string list \<Rightarrow> fence_pc" where
  "after_decision d =
     (case d of
        Inl e \<Rightarrow> Freeing [transition_lock] (Resting (Some e))
      | Inr (plan, is) \<Rightarrow> Taking plan is [])"

definition after_recheck :: "fence_plan \<Rightarrow> string list \<Rightarrow> go_error + fence_plan option \<Rightarrow> fence_pc" where
  "after_recheck plan held d =
     (case d of
        Inl e \<Rightarrow>
          (if (case plan of Holding c \<Rightarrow> True | _ \<Rightarrow> False) then Freeing (transition_lock # held) (Resting (Some e))
           else Freeing (held @ [transition_lock]) (Resting (Some e)))
      | Inr None \<Rightarrow> Freeing (held @ [transition_lock]) (Wanting (plan_request plan))
      | Inr (Some plan') \<Rightarrow>
          (if keeps_transition plan' then Working plan' held
           else Freeing [transition_lock] (Working plan' held)))"

definition after_work :: "fence_plan \<Rightarrow> string list \<Rightarrow> go_error option \<Rightarrow> fence_pc" where
  "after_work plan held r =
     Freeing (if keeps_transition plan then held @ [transition_lock] else held) (Resting r)"

text \<open>
  The steps, one per call that other processes can see. \<open>W\<close> are the worlds a call may see, \<open>Q\<close> the
  requests that are made. A lock that is busy is waited for, until the context is over (\<open>Gives_Up\<close>, also
  for a lock that fails); every other step on the way of a request \<open>Advances\<close> it.
\<close>

datatype fence_action = Begins | Advances | Gives_Up

inductive fence_step ::
    "(string \<Rightarrow> string) \<Rightarrow> project_world set \<Rightarrow> fence_request set \<Rightarrow> process \<Rightarrow> fence_action
       \<Rightarrow> fence_state \<Rightarrow> fence_state \<Rightarrow> bool"
  for sha :: "string \<Rightarrow> string" and W :: "project_world set" and Q :: "fence_request set" and t :: process where
  Begin: "fs_pc s t = Resting r \<Longrightarrow> q \<in> Q \<Longrightarrow> fence_step sha W Q t Begins s (set_fence_pc t (fence_begin q) s)"
| Take_Transition: "fs_pc s t = Wanting q \<Longrightarrow> fs_locks s transition_lock = None \<Longrightarrow>
    fence_step sha W Q t Advances s (set_fence_pc t (Deciding q) (set_lock transition_lock (Some t) s))"
| Give_Up_Transition: "fs_pc s t = Wanting q \<Longrightarrow>
    fence_step sha W Q t Gives_Up s (set_fence_pc t (Resting (Some (request_lock_failure q e))) s)"
| Decide: "fs_pc s t = Deciding q \<Longrightarrow> w \<in> W \<Longrightarrow>
    fence_step sha W Q t Advances s (set_fence_pc t (after_decision (decide sha w (fs_file s) q)) s)"
| Take_Fence: "fs_pc s t = Taking plan (i # is) held \<Longrightarrow> fence_lock sha i = Inr l \<Longrightarrow> fs_locks s l = None \<Longrightarrow>
    fence_step sha W Q t Advances s (set_fence_pc t (Taking plan is (l # held)) (set_lock l (Some t) s))"
| Bad_Fence: "fs_pc s t = Taking plan (i # is) held \<Longrightarrow> fence_lock sha i = Inl e \<Longrightarrow>
    fence_step sha W Q t Advances s
      (set_fence_pc t (Freeing (held @ [transition_lock]) (Resting (Some (lock_failure plan e)))) s)"
| Give_Up_Fence: "fs_pc s t = Taking plan (i # is) held \<Longrightarrow>
    fence_step sha W Q t Gives_Up s
      (set_fence_pc t (Freeing (held @ [transition_lock]) (Resting (Some (lock_failure plan e)))) s)"
| All_Taken: "fs_pc s t = Taking plan [] held \<Longrightarrow>
    fence_step sha W Q t Advances s (set_fence_pc t (Rechecking plan held) s)"
| Recheck: "fs_pc s t = Rechecking plan held \<Longrightarrow> w \<in> W \<Longrightarrow>
    fence_step sha W Q t Advances s (set_fence_pc t (after_recheck plan held (recheck w (fs_file s) plan)) s)"
| Work: "fs_pc s t = Working plan held \<Longrightarrow> w \<in> W \<Longrightarrow> work sha w outcome plan (fs_file s) = (f, r) \<Longrightarrow>
    fence_step sha W Q t Advances s (set_fence_pc t (after_work plan held r) (s\<lparr>fs_file := f\<rparr>))"
| Release: "fs_pc s t = Freeing (l # ls) k \<Longrightarrow>
    fence_step sha W Q t Advances s (set_fence_pc t (Freeing ls k) (set_lock l None s))"
| Released: "fs_pc s t = Freeing [] k \<Longrightarrow> fence_step sha W Q t Advances s (set_fence_pc t k s)"

definition fence_start :: "config_file \<Rightarrow> fence_state" where
  "fence_start f = \<lparr>fs_file = f, fs_locks = (\<lambda>_. None), fs_pc = (\<lambda>_. Resting None)\<rparr>"

inductive fence_reachable ::
    "(string \<Rightarrow> string) \<Rightarrow> project_world set \<Rightarrow> fence_request set \<Rightarrow> config_file \<Rightarrow> fence_state \<Rightarrow> bool"
  for sha :: "string \<Rightarrow> string" and W :: "project_world set" and Q :: "fence_request set" and f :: config_file where
  Fence_Start: "fence_reachable sha W Q f (fence_start f)"
| Fence_Next: "fence_reachable sha W Q f s \<Longrightarrow> fence_step sha W Q t a s s' \<Longrightarrow> fence_reachable sha W Q f s'"

inductive_cases fence_stepE: "fence_step sha W Q t a s s'"

end
