(* ===== verification/Project_Identity_Spec.thy ===== *)
theory Project_Identity_Spec
  imports Project_Identity
begin

text \<open>
  Folding a project identity: an identity that was folded is settled, folding it again gives it back.
\<close>

subsection \<open>Folding\<close>

text \<open>Lowering twice is lowering once: the result has no capital and none of the sequences that change.\<close>

fun lowered :: "string \<Rightarrow> bool" where
  "lowered [] = True"
| "lowered (c # s) \<longleftrightarrow> lower_char c = c \<and> \<not> (c = byte 0xC4 \<and> s \<noteq> [] \<and> hd s = byte 0xB0)
     \<and> \<not> (c = byte 0xE2 \<and> s \<noteq> [] \<and> hd s = byte 0x84 \<and> tl s \<noteq> [] \<and> hd (tl s) = byte 0xAA) \<and> lowered s"

lemma lowered_same: "lowered s \<Longrightarrow> to_lower s = s"
  by (induction s rule: to_lower.induct) auto

lemma lower_char_high:
  assumes "128 \<le> n" "n < 256"
  shows "lower_char c = byte n \<longleftrightarrow> c = byte n"
proof -
  have "code (lower_char c) = n \<longleftrightarrow> code c = n"
    using assms by (cases "is_upper c") (auto simp: lower_char_def is_upper_def code_byte)
  then show ?thesis using assms code_byte code_inject by metis
qed

lemma to_lower_hd:
  "c \<noteq> byte 0xC4 \<Longrightarrow> c \<noteq> byte 0xE2 \<Longrightarrow> to_lower (c # s) = lower_char c # to_lower s"
  by (cases s; cases "tl s") auto

lemma to_lower_starts:
  "to_lower (d # s) = x \<Longrightarrow> x \<noteq> [] \<and> (hd x = lower_char d \<or> hd x = CHR ''i'' \<or> hd x = CHR ''k'')"
  by (cases s; cases "tl s") (auto split: if_splits)

lemma small_bytes: "CHR ''i'' \<noteq> byte n" "CHR ''k'' \<noteq> byte n" if "128 \<le> n" "n < 256"
proof -
  have "code (CHR ''i'') = 105" "code (CHR ''k'') = 107" by (simp_all add: code_def)
  then show "CHR ''i'' \<noteq> byte n" "CHR ''k'' \<noteq> byte n" using code_byte [of n] that by auto
qed

lemma starts_high:
  assumes "to_lower s \<noteq> []" "hd (to_lower s) = byte n" "128 \<le> n" "n < 256"
  shows "s \<noteq> [] \<and> hd s = byte n"
proof (cases s)
  case (Cons d s')
  have "hd (to_lower s) = lower_char d \<or> hd (to_lower s) = CHR ''i'' \<or> hd (to_lower s) = CHR ''k''"
    using to_lower_starts [OF refl, of d s'] unfolding Cons by blast
  then have "lower_char d = byte n" unfolding assms(2) using small_bytes [OF assms(3,4)] by auto
  then show ?thesis unfolding lower_char_high [OF assms(3,4)] Cons by simp
qed (use assms in simp)

lemma lower_char_ik [simp]: "lower_char (CHR ''i'') = CHR ''i''" "lower_char (CHR ''k'') = CHR ''k''"
  by (simp_all add: lower_char_def is_upper_def code_def)

lemma ik_high: "CHR ''i'' \<noteq> byte 196" "CHR ''i'' \<noteq> byte 226" "CHR ''k'' \<noteq> byte 196" "CHR ''k'' \<noteq> byte 226"
proof -
  have "128 \<le> (196::nat)" "(196::nat) < 256" "128 \<le> (226::nat)" "(226::nat) < 256" by simp_all
  then show "CHR ''i'' \<noteq> byte 196" "CHR ''i'' \<noteq> byte 226" "CHR ''k'' \<noteq> byte 196" "CHR ''k'' \<noteq> byte 226"
    by - (rule small_bytes, assumption+)+
qed

lemma lowered_to_lower: "lowered (to_lower s)"
proof (induction s rule: to_lower.induct)
  case (3 c d)
  have "lower_char c = byte 0xC4 \<longleftrightarrow> c = byte 0xC4" "lower_char d = byte 0xB0 \<longleftrightarrow> d = byte 0xB0"
    by (rule lower_char_high; simp)+
  then show ?case by (auto simp: ik_high)
next
  case (4 c d e s)
  show ?case
  proof (cases "[c, d] = map byte [0xC4, 0xB0] \<or> [c, d, e] = map byte [0xE2, 0x84, 0xAA]")
    case True
    then show ?thesis using 4 by (auto simp: ik_high)
  next
    case False
    then have eq: "to_lower (c # d # e # s) = lower_char c # to_lower (d # e # s)" by auto
    have low: "lowered (to_lower (d # e # s))" using 4 False by auto
    have c: "lower_char c = byte 0xC4 \<longleftrightarrow> c = byte 0xC4" "lower_char c = byte 0xE2 \<longleftrightarrow> c = byte 0xE2"
      by (rule lower_char_high; simp)+
    have one: "\<not> (lower_char c = byte 0xC4 \<and> hd (to_lower (d # e # s)) = byte 0xB0)"
      using False c(1) starts_high [of "d # e # s" "0xB0"] to_lower_starts [of d "e # s", OF refl] by auto
    have two: False if "lower_char c = byte 0xE2" "hd (to_lower (d # e # s)) = byte 0x84"
      "tl (to_lower (d # e # s)) \<noteq> []" "hd (tl (to_lower (d # e # s))) = byte 0xAA"
    proof -
      have d: "d = byte 0x84" using that(2) starts_high [of "d # e # s" "0x84"] to_lower_starts [of d "e # s", OF refl] by auto
      have "d \<noteq> byte 0xC4" "d \<noteq> byte 0xE2" unfolding d using code_byte [of "0x84"] code_byte [of "0xC4"] code_byte [of "0xE2"] by auto
      then have t: "tl (to_lower (d # e # s)) = to_lower (e # s)" using to_lower_hd by simp
      have "e = byte 0xAA" using that(3,4) starts_high [of "e # s" "0xAA"] unfolding t by auto
      with False c(2) that(1) d show False by simp
    qed
    show ?thesis unfolding eq using one two low to_lower_starts [of d "e # s", OF refl] by auto
  qed
qed simp_all

lemma to_lower_idem [simp]: "to_lower (to_lower s) = to_lower s"
  by (rule lowered_same) (rule lowered_to_lower)

lemma to_lower_set:
  "x \<in> set (to_lower s) \<Longrightarrow> x = CHR ''i'' \<or> x = CHR ''k'' \<or> (\<exists>c \<in> set s. x = lower_char c)"
proof (induction s rule: to_lower.induct)
  case (3 c d)
  show ?case
  proof (cases "[c, d] = map byte [0xC4, 0xB0]")
    case True
    from 3(2) have "x \<in> set ''i''" unfolding to_lower.simps if_P [OF True] .
    then show ?thesis by simp
  next
    case False
    from 3(2) have "x \<in> set [lower_char c, lower_char d]" unfolding to_lower.simps if_not_P [OF False] .
    then show ?thesis by auto
  qed
next
  case (4 c d e s)
  show ?case
  proof (cases "[c, d] = map byte [0xC4, 0xB0]")
    case True
    from 4(4) have "x = CHR ''i'' \<or> x \<in> set (to_lower (e # s))" unfolding to_lower.simps(4) if_P [OF True] by simp
    with 4(1) [OF True] show ?thesis by (meson list.set_intros(2))
  next
    case f: False
    show ?thesis
    proof (cases "[c, d, e] = map byte [0xE2, 0x84, 0xAA]")
      case True
      from 4(4) have "x = CHR ''k'' \<or> x \<in> set (to_lower s)" unfolding to_lower.simps(4) if_not_P [OF f] if_P [OF True] by simp
      with 4(2) [OF f True] show ?thesis by (meson list.set_intros(2))
    next
      case False
      from 4(4) have "x = lower_char c \<or> x \<in> set (to_lower (d # e # s))"
        unfolding to_lower.simps(4) if_not_P [OF f] if_not_P [OF False] by simp
      then show ?thesis
      proof
        assume "x \<in> set (to_lower (d # e # s))"
        from 4(3) [OF f False this] show ?thesis by (meson list.set_intros(2))
      qed (metis list.set_intros(1))
    qed
  qed
qed simp_all

lemma to_lower_slash: "CHR ''/'' \<notin> set s \<Longrightarrow> CHR ''/'' \<notin> set (to_lower s)"
proof -
  have *: "lower_char c \<noteq> CHR ''/''" if "c \<noteq> CHR ''/''" for c
  proof
    assume l: "lower_char c = CHR ''/''"
    have "code (lower_char c) = (if is_upper c then code c + 32 else code c)"
      by (simp add: lower_char_def is_upper_def code_byte)
    moreover have "code (CHR ''/'') = 47" by (simp add: code_def)
    ultimately have "code c = code (CHR ''/'')" unfolding l by (auto simp: is_upper_def split: if_splits)
    with that show False by simp
  qed
  show "CHR ''/'' \<notin> set s \<Longrightarrow> CHR ''/'' \<notin> set (to_lower s)"
  proof -
    assume s: "CHR ''/'' \<notin> set s"
    have ik: "CHR ''/'' \<noteq> CHR ''i''" "CHR ''/'' \<noteq> CHR ''k''" by simp_all
    show "CHR ''/'' \<notin> set (to_lower s)"
    proof
      assume "CHR ''/'' \<in> set (to_lower s)"
      from to_lower_set [OF this] ik obtain c where "c \<in> set s" "CHR ''/'' = lower_char c" by blast
      with * s show False by metis
    qed
  qed
qed

lemma fold_repository_again:
  assumes "trim_space (fold_repository_identity i) = fold_repository_identity i"
  shows "fold_repository_identity (fold_repository_identity i) = fold_repository_identity i"
proof (cases "trim_space i = []")
  case True
  then show ?thesis by (simp add: fold_repository_identity_def)
next
  case False
  obtain a r ok where c: "cut (trim_space i) (CHR ''/'') = (a, r, ok)" by (rule prod_cases3)
  have a: "CHR ''/'' \<notin> set a"
    using c cut_ok [of "trim_space i" "CHR ''/''" a r] cut_not_ok [of "trim_space i" "CHR ''/''" a r] by (cases ok) simp_all
  then have a': "CHR ''/'' \<notin> set (to_lower a)" by (rule to_lower_slash)
  show ?thesis
  proof (cases ok)
    case True
    with c False have f: "fold_repository_identity i =
        to_lower a @ CHR ''/'' # (if host_without_port (to_lower a) \<in> case_insensitive_hosts then to_lower r else r)"
      by (simp add: fold_repository_identity_def Let_def)
    with assms a' show ?thesis by (subst f, subst (asm) f) (simp add: fold_repository_identity_def Let_def f cut_append)
  next
    case False': False
    with c False have f: "fold_repository_identity i = to_lower a" by (simp add: fold_repository_identity_def Let_def)
    with assms a' show ?thesis by (simp add: fold_repository_identity_def Let_def cut_missing)
  qed
qed

text \<open>An identity is settled when folding gives it back or refuses it.\<close>

definition settled :: "string \<Rightarrow> bool" where
  "settled i \<longleftrightarrow> (\<forall>j. fold_project_identity i = Inr j \<longrightarrow> j = i)"

lemma fold_cases:
  "fold_project_identity i = Inr j \<Longrightarrow> (is_exact_local i \<and> j = i) \<or> (trim_space i = i \<and> j = fold_repository_identity i)"
  by (auto simp: fold_project_identity_def validate_project_identity_def split: if_splits option.splits sum.splits)

lemma exact_settled: "is_exact_local k \<Longrightarrow> settled k"
proof -
  assume k: "is_exact_local k"
  then have "k \<noteq> []" by (auto simp: is_exact_local_def)
  with k show ?thesis by (simp add: settled_def fold_project_identity_def validate_project_identity_def)
qed

lemma fold_settled: "fold_project_identity i = Inr j \<Longrightarrow> settled j"
proof (cases "is_exact_local j")
  case False
  assume i: "fold_project_identity i = Inr j"
  have "k = j" if k: "fold_project_identity j = Inr k" for k
    using False fold_cases [OF i] fold_cases [OF k] fold_repository_again [of i] by metis
  then show "settled j" by (simp add: settled_def)
qed (rule exact_settled)

lemma local_path_identity: "local_repository_full_path p = ''local'' \<or> is_exact_local (local_repository_full_path p)"
proof -
  have "join ''/'' (''local'' # x # xs) = ''local/'' @ join ''/'' (x # xs)" for x xs by simp
  moreover have "x \<noteq> [] \<Longrightarrow> join ''/'' (x # xs) \<noteq> []" for x xs by (cases xs) auto
  ultimately have "join ''/'' (''local'' # xs) = ''local'' \<or> is_exact_local (join ''/'' (''local'' # xs))"
    if "list_all (\<lambda>x. x \<noteq> []) xs" for xs
    using that by (cases xs) (auto simp: is_exact_local_def has_prefix_def simp del: join.simps(3))
  then show ?thesis
    by (auto simp: local_repository_full_path_def Let_def split: prod.split)
qed

lemma local_settled: "path_lifecycle_identity env p = Inr i \<Longrightarrow> settled i"
proof -
  assume "path_lifecycle_identity env p = Inr i"
  then obtain info where "repository_info_from_local_path env False p = Inr info" "i = ri_full_path info"
    unfolding path_lifecycle_identity_def by (simp split: sum.splits if_splits)
  moreover from this(1) have "\<exists>q. ri_full_path info = local_repository_full_path q"
    unfolding repository_info_from_local_path_def Let_def
    by (cases "(if False then trim_space p else p) = []"; cases "absolute_path_preserving (pe_wd env) (if False then trim_space p else p)")
       (simp_all, (metis repository_info.select_convs(4))?)
  ultimately obtain q where i: "i = local_repository_full_path q" by blast
  have "trim_space ''local'' = ''local''" by (rule trim_space_graphic) (simp_all add: is_graphic_def code_def)
  moreover have "cut ''local'' (CHR ''/'') = (''local'', [], False)" by simp
  moreover have "to_lower ''local'' = ''local''"
    by (subst to_lower_ascii) (simp_all add: ascii_lower_def lower_char_def is_upper_def code_def)
  ultimately have "fold_repository_identity ''local'' = ''local''" by (simp add: fold_repository_identity_def Let_def)
  then have "settled ''local''" unfolding settled_def using fold_cases by metis
  then show ?thesis using local_path_identity [of q] exact_settled unfolding i by metis
qed

end
