(* ===== verification/Project_Fence_Spec.thy ===== *)
theory Project_Fence_Spec
  imports Project_Fence Project_Identity_Spec
begin

text \<open>
  What the fence around projects promises in every interleaving: the locks exclude each other, nobody
  waits forever, and a claimed registration stays as it was.
\<close>

subsection \<open>Who holds which lock\<close>

fun held_locks :: "fence_pc \<Rightarrow> string list" where
  "held_locks (Resting r) = []"
| "held_locks (Wanting q) = []"
| "held_locks (Deciding q) = [transition_lock]"
| "held_locks (Taking plan is held) = transition_lock # held"
| "held_locks (Rechecking plan held) = transition_lock # held"
| "held_locks (Working plan held) = (if keeps_transition plan then transition_lock # held else held)"
| "held_locks (Freeing ls k) = ls @ held_locks k"

fun plan_identities :: "fence_plan \<Rightarrow> string list" where
  "plan_identities (Holding c) = claim_identities c"
| "plan_identities (Changing x m is) = is"
| "plan_identities (Removing r i reg) = [i]"

text \<open>The locks of a plan that has all of them, the last one first.\<close>

definition locks_of :: "(string \<Rightarrow> string) \<Rightarrow> string list \<Rightarrow> string list \<Rightarrow> bool" where
  "locks_of sha is held \<longleftrightarrow> map (fence_lock sha) is = map Inr (rev held)"

text \<open>Identities that fold to each other only when they are the same one of the list.\<close>

definition lockable :: "string list \<Rightarrow> bool" where
  "lockable is \<longleftrightarrow> distinct is \<and>
     (\<forall>i \<in> set is. \<forall>j \<in> set is. \<forall>k. fold_project_identity i = Inr k \<longrightarrow> fold_project_identity j = Inr k \<longrightarrow> i = j)"

fun pc_ok :: "(string \<Rightarrow> string) \<Rightarrow> fence_pc \<Rightarrow> bool" where
  "pc_ok sha (Taking plan is held) =
     (\<exists>taken. plan_identities plan = taken @ is \<and> locks_of sha taken held \<and> lockable (plan_identities plan))"
| "pc_ok sha (Rechecking plan held) = (locks_of sha (plan_identities plan) held \<and> lockable (plan_identities plan))"
| "pc_ok sha (Working plan held) = (locks_of sha (plan_identities plan) held \<and> lockable (plan_identities plan))"
| "pc_ok sha (Freeing ls k) =
     ((case k of Resting _ \<Rightarrow> True | Wanting _ \<Rightarrow> True | Working plan _ \<Rightarrow> \<not> keeps_transition plan | _ \<Rightarrow> False)
      \<and> pc_ok sha k)"
| "pc_ok sha _ = True"

text \<open>Requests as they are made: a claim is one that was observed.\<close>

definition observed_claims :: "fence_request set \<Rightarrow> bool" where
  "observed_claims Q \<longleftrightarrow> (\<forall>c. Claim c \<in> Q \<longrightarrow> (\<exists>w main x f. observe_project_claim w main x f = Inr c))"

fun pc_requests :: "fence_pc \<Rightarrow> fence_request set" where
  "pc_requests (Wanting q) = {q}"
| "pc_requests (Deciding q) = {q}"
| "pc_requests (Taking plan is held) = {plan_request plan}"
| "pc_requests (Rechecking plan held) = {plan_request plan}"
| "pc_requests (Working plan held) = {plan_request plan}"
| "pc_requests (Freeing ls k) = pc_requests k"
| "pc_requests _ = {}"

subsection \<open>Identities to lock\<close>

lemma distinct_sorted_remdups: "sorted xs \<Longrightarrow> distinct (remdups_adj xs)" for xs :: "'a::linorder list"
  by (induction xs rule: remdups_adj.induct) (auto simp: order_antisym)

lemma lockable_settled: "distinct is \<Longrightarrow> \<forall>i \<in> set is. settled i \<Longrightarrow> lockable is"
  by (auto simp: lockable_def settled_def)

lemma fold_all_settled: "fold_all is = Inr js \<Longrightarrow> length js = length is \<and> (\<forall>j \<in> set js. settled j)"
  by (induction "is" arbitrary: js) (auto split: sum.splits intro: fold_settled)

lemma stable_set_lockable: "stable_identity_set is = Inr js \<Longrightarrow> lockable js \<and> (is \<noteq> [] \<longrightarrow> js \<noteq> [])"
proof -
  assume "stable_identity_set is = Inr js"
  then obtain ks where ks: "fold_all is = Inr ks" and js: "js = remdups_adj (sort ks)"
    by (auto simp: stable_identity_set_def split: sum.splits)
  from fold_all_settled [OF ks] have "lockable js"
    unfolding js by (intro lockable_settled) (simp_all add: distinct_sorted_remdups)
  moreover have "is \<noteq> [] \<longrightarrow> js \<noteq> []" using fold_all_settled [OF ks] js
    by (metis length_0_conv length_sort remdups_adj_Nil_iff)
  ultimately show ?thesis by blast
qed

lemma observed_lockable:
  assumes "observe_project_claim w main x f = Inr c"
  shows "lockable (claim_identities c)"
proof -
  from assms obtain ids where "stable_identity_set ids = Inr (pc_identities c)" "ids \<noteq> []"
    unfolding observe_project_claim_def
    by (auto split: option.splits sum.splits list.splits)
  then show ?thesis using stable_set_lockable by (simp add: claim_identities_def)
qed

lemma folded_settled: "folded_identity w r = Inr i \<Longrightarrow> settled i"
  by (auto simp: folded_identity_def split: sum.splits intro: fold_settled)

lemma entry_identities_settled: "entry_identities w r = Inr is \<Longrightarrow> \<forall>i \<in> set is. settled i"
  by (auto simp: entry_identities_def split: sum.splits if_splits dest: folded_settled local_settled)

lemma matching_identities_settled: "matching_identities w next rs = Inr is \<Longrightarrow> \<forall>i \<in> set is. settled i"
proof (induction rs arbitrary: "is")
  case (Cons r rs)
  show ?case
  proof (cases "update_matches (pw_paths w) r next")
    case True
    with Cons.prems obtain a b where a: "entry_identities w r = Inr a" and b: "matching_identities w next rs = Inr b"
      and "is": "is = a @ b" by (auto split: sum.splits)
    show ?thesis using entry_identities_settled [OF a] Cons.IH [OF b] unfolding "is" by auto
  qed (use Cons in simp)
qed simp

lemma transition_identities_lockable:
  assumes "transition_identities w x p f = Inr is"
  shows "lockable is"
proof -
  from assms obtain rs n i q js where
    "folded_identity w n = Inr i" "path_lifecycle_identity (pw_paths w) (pj_path (rg_effective n)) = Inr q"
    "matching_identities w n rs = Inr js" and is_eq: "is = remdups_adj (sort ([i, q] @ js))"
    unfolding transition_identities_def by (auto simp del: sort_key_simps append.simps split: sum.splits)
  then have "\<forall>k \<in> set ([i, q] @ js). settled k"
    using folded_settled local_settled matching_identities_settled by fastforce
  then show ?thesis unfolding is_eq
    by (intro lockable_settled distinct_sorted_remdups sorted_sort) (simp del: sort_key_simps append.simps)
qed

lemma decide_lockable:
  assumes "decide sha w f q = Inr (plan, is)" and "\<And>c. q = Claim c \<Longrightarrow> lockable (claim_identities c)"
  shows "plan_identities plan = is \<and> lockable is \<and> (case plan of Holding c \<Rightarrow> q = Claim c | _ \<Rightarrow> \<forall>c. q \<noteq> Claim c)"
  using assms transition_identities_lockable
  by (cases q) (auto simp: decide_def lockable_def split: sum.splits if_splits)


subsection \<open>The locks and the processes agree\<close>

definition request_fine :: "fence_request \<Rightarrow> bool" where
  "request_fine q \<longleftrightarrow> (\<forall>c. q = Claim c \<longrightarrow> lockable (claim_identities c))"

definition pc_fine :: "(string \<Rightarrow> string) \<Rightarrow> fence_pc \<Rightarrow> bool" where
  "pc_fine sha pc \<longleftrightarrow> distinct (held_locks pc) \<and> pc_ok sha pc \<and> (\<forall>q \<in> pc_requests pc. request_fine q)"

definition locks_fine :: "(string \<Rightarrow> string) \<Rightarrow> fence_state \<Rightarrow> bool" where
  "locks_fine sha s \<longleftrightarrow> (\<forall>l t. fs_locks s l = Some t \<longleftrightarrow> l \<in> set (held_locks (fs_pc s t))) \<and> (\<forall>t. pc_fine sha (fs_pc s t))"

lemma locks_fine_pc: "locks_fine sha s \<Longrightarrow> pc_fine sha (fs_pc s t)"
  and locks_fine_iff: "locks_fine sha s \<Longrightarrow> fs_locks s l = Some t \<longleftrightarrow> l \<in> set (held_locks (fs_pc s t))"
  by (simp_all add: locks_fine_def)

lemma locks_keep:
  assumes "locks_fine sha s" "set (held_locks pc) = set (held_locks (fs_pc s t))" "pc_fine sha pc"
  shows "locks_fine sha (set_fence_pc t pc s)"
  using assms by (simp add: locks_fine_def set_fence_pc_def)

lemma locks_file [simp]: "locks_fine sha (s\<lparr>fs_file := f\<rparr>) = locks_fine sha s"
  by (simp add: locks_fine_def)

lemma locks_take:
  assumes "locks_fine sha s" "fs_locks s l = None" "set (held_locks pc) = insert l (set (held_locks (fs_pc s t)))"
    and "pc_fine sha pc"
  shows "locks_fine sha (set_fence_pc t pc (set_lock l (Some t) s))"
proof -
  have "l \<notin> set (held_locks (fs_pc s u))" for u using assms(2) locks_fine_iff [OF assms(1), of l u] by auto
  with assms show ?thesis by (auto simp: locks_fine_def set_fence_pc_def set_lock_def)
qed

lemma locks_release:
  assumes "locks_fine sha s" "held_locks (fs_pc s t) = l # held_locks pc" "pc_fine sha pc"
  shows "locks_fine sha (set_fence_pc t pc (set_lock l None s))"
proof -
  have t: "fs_locks s l = Some t" using assms(1,2) by (simp add: locks_fine_def)
  have "distinct (held_locks (fs_pc s t))" using locks_fine_pc [OF assms(1)] by (simp add: pc_fine_def)
  then have "l \<notin> set (held_locks pc)" unfolding assms(2) by simp
  moreover have "l \<in> set (held_locks (fs_pc s u)) \<longleftrightarrow> u = t" for u
    using t locks_fine_iff [OF assms(1), of l u] by auto
  moreover have "m \<in> set (held_locks (fs_pc s t)) \<longleftrightarrow> m = l \<or> m \<in> set (held_locks pc)" for m
    unfolding assms(2) by simp
  ultimately show ?thesis
    using assms by (auto simp: locks_fine_def set_fence_pc_def set_lock_def)
qed

lemma request_fine_begin: "request_fine q \<Longrightarrow> pc_fine sha (fence_begin q) \<and> held_locks (fence_begin q) = []"
  by (auto simp: fence_begin_def pc_fine_def split: fence_request.splits sum.splits)

lemma decide_fine:
  assumes "request_fine q"
  shows "pc_fine sha (after_decision (decide sha w f q))
    \<and> set (held_locks (after_decision (decide sha w f q))) = {transition_lock}"
proof (cases "decide sha w f q")
  case (Inl e)
  then show ?thesis by (simp add: after_decision_def pc_fine_def)
next
  case (Inr d)
  obtain plan is' where d: "d = (plan, is')" by (cases d)
  have "plan_identities plan = is' \<and> lockable is' \<and> (case plan of Holding c \<Rightarrow> q = Claim c | _ \<Rightarrow> \<forall>c. q \<noteq> Claim c)"
    using decide_lockable [of sha w f q plan is'] Inr assms unfolding d request_fine_def by blast
  moreover from this have "request_fine (plan_request plan)"
    using assms by (cases plan) (auto simp: plan_request_def request_fine_def)
  ultimately show ?thesis
    unfolding Inr d after_decision_def pc_fine_def by (auto simp: locks_of_def intro!: exI [of _ "[]"])
qed

lemma recheck_plan:
  assumes "recheck w f plan = Inr (Some plan')"
  shows "plan_identities plan' = plan_identities plan \<and> plan_request plan' = plan_request plan
    \<and> keeps_transition plan' = keeps_transition plan"
  using assms by (cases plan) (auto simp: recheck_def plan_request_def keeps_transition_def split: sum.splits if_splits)

lemma recheck_fine:
  assumes "pc_fine sha (Rechecking plan held)"
  shows "pc_fine sha (after_recheck plan held (recheck w f plan))
    \<and> set (held_locks (after_recheck plan held (recheck w f plan))) = insert transition_lock (set held)"
proof (cases "recheck w f plan")
  case (Inl e)
  then show ?thesis using assms by (auto simp: after_recheck_def pc_fine_def split: fence_plan.splits)
next
  case (Inr d)
  show ?thesis
  proof (cases d)
    case None
    with Inr assms show ?thesis by (auto simp: after_recheck_def pc_fine_def)
  next
    case (Some plan')
    with recheck_plan [of w f plan plan'] Inr have "plan_identities plan' = plan_identities plan"
      "plan_request plan' = plan_request plan" "keeps_transition plan' = keeps_transition plan" by blast+
    with Inr Some assms show ?thesis by (auto simp: after_recheck_def pc_fine_def)
  qed
qed

lemma step_locks_fine:
  assumes "fence_step sha W Q t a s s'" and fine: "locks_fine sha s" and Q: "\<forall>q \<in> Q. request_fine q"
  shows "locks_fine sha s'"
  using assms(1)
proof cases
  case (Begin r q)
  with Q request_fine_begin have "pc_fine sha (fence_begin q)" "held_locks (fence_begin q) = []" by blast+
  with Begin fine show ?thesis by (auto intro: locks_keep)
next
  case (Take_Transition q)
  then show ?thesis
    using locks_fine_pc [OF fine, of t] by (auto intro!: locks_take [OF fine] simp: pc_fine_def)
next
  case (Give_Up_Transition q e)
  then show ?thesis by (auto intro!: locks_keep [OF fine] simp: pc_fine_def)
next
  case (Decide q w)
  then have "request_fine q" using locks_fine_pc [OF fine, of t] by (simp add: pc_fine_def)
  note d = decide_fine [OF this, of sha w "fs_file s"]
  show ?thesis unfolding Decide(2) by (rule locks_keep [OF fine _ conjunct1 [OF d]]) (simp add: Decide(3) d)
next
  case (Take_Fence plan i js held l)
  have pc: "pc_fine sha (Taking plan (i # js) held)" using locks_fine_pc [OF fine, of t] Take_Fence by simp
  have "l \<notin> set (transition_lock # held)"
    using Take_Fence locks_fine_iff [OF fine, of l t] by auto
  moreover have "pc_ok sha (Taking plan js (l # held))"
  proof -
    from pc obtain taken where "plan_identities plan = taken @ i # js" "locks_of sha taken held"
      "lockable (plan_identities plan)" by (auto simp: pc_fine_def)
    then show ?thesis using Take_Fence by (auto simp: locks_of_def intro!: exI [of _ "taken @ [i]"])
  qed
  ultimately have "pc_fine sha (Taking plan js (l # held))" using pc by (auto simp: pc_fine_def)
  with Take_Fence show ?thesis by (auto intro!: locks_take [OF fine])
next
  case (Bad_Fence plan i js held e)
  then show ?thesis using locks_fine_pc [OF fine, of t] by (auto intro!: locks_keep [OF fine] simp: pc_fine_def)
next
  case (Give_Up_Fence plan i js held e)
  then show ?thesis using locks_fine_pc [OF fine, of t] by (auto intro!: locks_keep [OF fine] simp: pc_fine_def)
next
  case (All_Taken plan held)
  then show ?thesis using locks_fine_pc [OF fine, of t] by (auto intro!: locks_keep [OF fine] simp: pc_fine_def)
next
  case (Recheck plan held w)
  then have "pc_fine sha (Rechecking plan held)" using locks_fine_pc [OF fine, of t] by simp
  note d = recheck_fine [OF this, of w "fs_file s"]
  show ?thesis unfolding Recheck(2) by (rule locks_keep [OF fine _ conjunct1 [OF d]]) (simp add: Recheck(3) d)
next
  case (Work plan held w outcome f r)
  then show ?thesis using locks_fine_pc [OF fine, of t] fine
    by (auto intro!: locks_keep simp: pc_fine_def after_work_def)
next
  case (Release l ls k)
  have "pc_fine sha (Freeing ls k)" using locks_fine_pc [OF fine, of t] Release by (auto simp: pc_fine_def)
  with Release show ?thesis by (auto intro!: locks_release [OF fine])
next
  case (Released k)
  have "pc_fine sha k" using locks_fine_pc [OF fine, of t] Released by (auto simp: pc_fine_def)
  with Released show ?thesis by (auto intro!: locks_keep [OF fine])
qed

lemma requests_fine: "observed_claims Q \<Longrightarrow> q \<in> Q \<Longrightarrow> request_fine q"
  using observed_lockable by (fastforce simp: observed_claims_def request_fine_def)

lemma reachable_locks_fine:
  assumes "fence_reachable sha W Q f s" and "observed_claims Q"
  shows "locks_fine sha s"
  using assms(1)
proof induction
  case Fence_Start
  then show ?case by (simp add: locks_fine_def fence_start_def pc_fine_def)
next
  case (Fence_Next s t a s')
  then show ?case using step_locks_fine requests_fine [OF assms(2)] by blast
qed

subsection \<open>Exclusion\<close>

lemma holder_unique:
  "locks_fine sha s \<Longrightarrow> l \<in> set (held_locks (fs_pc s t)) \<Longrightarrow> l \<in> set (held_locks (fs_pc s u)) \<Longrightarrow> t = u"
  using locks_fine_iff by (metis option.inject)

lemma working_holds:
  assumes "locks_fine sha s" "fs_pc s t = Working plan held" "i \<in> set (plan_identities plan)"
    and "fold_project_identity i = Inr k"
  shows "hex_text (sha k) @ ''.lock'' \<in> set (held_locks (fs_pc s t))"
proof -
  have "locks_of sha (plan_identities plan) held" using locks_fine_pc [OF assms(1), of t] assms(2) by (simp add: pc_fine_def)
  then have "fence_lock sha i \<in> Inr ` set held"
    using assms(3) unfolding locks_of_def by (metis image_eqI list.set_map set_rev)
  then show ?thesis using assms(2,4) by (auto simp: fence_lock_def)
qed

text \<open>
  C27. The fence excludes: in every interleaving of claims, changes and removals, two processes never work
  on the same identity at once, and never decide, or change the registrations, at once.
\<close>

theorem fence_exclusive:
  assumes "fence_reachable sha W Q f s" "observed_claims Q" "t \<noteq> u"
  shows "(fs_pc s t = Working p h \<longrightarrow> fs_pc s u = Working p' h' \<longrightarrow>
      (\<forall>i \<in> set (plan_identities p). \<forall>j \<in> set (plan_identities p'). \<not> equal_project_identity i j))
    \<and> \<not> (transition_lock \<in> set (held_locks (fs_pc s t)) \<and> transition_lock \<in> set (held_locks (fs_pc s u)))"
proof (intro conjI impI ballI)
  note fine = reachable_locks_fine [OF assms(1,2)]
  fix i j
  assume pc: "fs_pc s t = Working p h" "fs_pc s u = Working p' h'"
    and ij: "i \<in> set (plan_identities p)" "j \<in> set (plan_identities p')"
  show "\<not> equal_project_identity i j"
  proof
    assume "equal_project_identity i j"
    then obtain k where "fold_project_identity i = Inr k" "fold_project_identity j = Inr k"
      by (auto simp: equal_project_identity_def split: sum.splits)
    with working_holds [OF fine pc(1) ij(1)] working_holds [OF fine pc(2) ij(2)] holder_unique [OF fine] assms(3)
    show False by metis
  qed
next
  show "\<not> (transition_lock \<in> set (held_locks (fs_pc s t)) \<and> transition_lock \<in> set (held_locks (fs_pc s u)))"
    using holder_unique [OF reachable_locks_fine [OF assms(1,2)]] assms(3) by metis
qed

subsection \<open>Nobody waits forever\<close>

definition fence_waits :: "(string \<Rightarrow> string) \<Rightarrow> fence_state \<Rightarrow> process \<Rightarrow> string \<Rightarrow> bool" where
  "fence_waits sha s t l \<longleftrightarrow> fs_locks s l \<noteq> None \<and>
     (case fs_pc s t of
        Wanting q \<Rightarrow> l = transition_lock
      | Taking plan (i # is) held \<Rightarrow> fence_lock sha i = Inr l
      | _ \<Rightarrow> False)"

text \<open>The hash tells the identities of each process apart.\<close>

definition collision_free :: "(string \<Rightarrow> string) \<Rightarrow> fence_state \<Rightarrow> bool" where
  "collision_free sha s \<longleftrightarrow> (\<forall>t plan is held. fs_pc s t = Taking plan is held \<longrightarrow>
     inj_on sha {k. \<exists>i \<in> set (plan_identities plan). fold_project_identity i = Inr k})"

lemma transition_lock_other: "fence_lock sha i = Inr l \<Longrightarrow> l \<noteq> transition_lock"
proof
  assume l: "fence_lock sha i = Inr l" "l = transition_lock"
  then obtain k where k: "hex_text k @ ''.lock'' = ''registry.lock''"
    by (auto simp: fence_lock_def transition_lock_def split: sum.splits)
  then have "hex_text k = ''registry''" using append_same_eq [of "hex_text k" "''.lock''" "''registry''"] by simp
  with hex_text_hex [of k] show False by (simp add: is_hex_def is_digit_def code_def)
qed

lemma advances_or_waits:
  assumes "\<And>r. fs_pc s t \<noteq> Resting r" "W \<noteq> {}"
  shows "(\<exists>s'. fence_step sha W Q t Advances s s') \<or> (\<exists>l. fence_waits sha s t l)"
proof -
  obtain w where w: "w \<in> W" using assms(2) by blast
  show ?thesis
  proof (cases "fs_pc s t")
    case (Resting r)
    then show ?thesis using assms(1) [of r] by blast
  next
    case (Wanting q)
    then show ?thesis using Take_Transition [OF Wanting]
      by (cases "fs_locks s transition_lock") (auto simp: fence_waits_def)
  next
    case (Taking plan "is" held)
    show ?thesis
    proof (cases "is")
      case Nil
      then show ?thesis using All_Taken Taking by blast
    next
      case (Cons i js)
      show ?thesis
      proof (cases "fence_lock sha i")
        case (Inl e)
        then show ?thesis using Bad_Fence Taking Cons by blast
      next
        case (Inr l)
        show ?thesis
        proof (cases "fs_locks s l")
          case None
          then show ?thesis using Take_Fence Taking Cons Inr by blast
        next
          case (Some u)
          then have "fence_waits sha s t l" using Taking Cons Inr by (simp add: fence_waits_def)
          then show ?thesis by blast
        qed
      qed
    qed
  next
    case (Working plan held)
    obtain f r where "work sha w None plan (fs_file s) = (f, r)" by fastforce
    with Working w show ?thesis using Work by blast
  next
    case (Freeing ls k)
    then show ?thesis using Release Released by (cases ls) blast+
  qed (use w Decide Recheck in blast)+
qed

lemma transition_holder:
  assumes "locks_fine sha s" "transition_lock \<in> set (held_locks (fs_pc s u))"
  shows "fs_pc s t = Taking plan is held \<Longrightarrow> t = u"
  using assms holder_unique [OF assms(1), of transition_lock t u] by simp

lemma own_lock_free:
  assumes "locks_fine sha s" "collision_free sha s" "fs_pc s t = Taking plan (i # is) held" "fence_lock sha i = Inr l"
  shows "l \<notin> set (held_locks (fs_pc s t))"
proof
  assume "l \<in> set (held_locks (fs_pc s t))"
  then have l: "l \<in> set held" using assms(3,4) transition_lock_other by auto
  from locks_fine_pc [OF assms(1), of t] obtain taken where p: "plan_identities plan = taken @ i # is"
    and h: "locks_of sha taken held" and lk: "lockable (plan_identities plan)"
    by (auto simp: assms(3) pc_fine_def)
  from h have "fence_lock sha ` set taken = Inr ` set held"
    unfolding locks_of_def by (metis list.set_map set_rev)
  with l obtain j where j: "j \<in> set taken" "fence_lock sha j = Inr l" by (metis image_iff imageI)
  obtain k m where k: "fold_project_identity i = Inr k" "fold_project_identity j = Inr m"
    and "hex_text (sha k) @ ''.lock'' = hex_text (sha m) @ ''.lock''"
    using assms(4) j(2) unfolding fence_lock_def by (auto split: sum.splits)
  then have "sha k = sha m" by simp
  moreover have mem: "i \<in> set (plan_identities plan)" "j \<in> set (plan_identities plan)" using p j(1) by simp_all
  ultimately have "k = m" using assms(2,3) k unfolding collision_free_def inj_on_def by blast
  with k lk mem have "i = j" unfolding lockable_def by blast
  with j(1) p lk show False by (simp add: lockable_def)
qed

lemma identity_holder_advances:
  assumes "locks_fine sha s" "W \<noteq> {}" "fs_pc s t = Taking plan is held" "fs_locks s l = Some u" "u \<noteq> t"
  shows "\<exists>s'. fence_step sha W Q u Advances s s'"
proof -
  have l: "l \<in> set (held_locks (fs_pc s u))" using assms(1,4) locks_fine_iff by blast
  have n: "transition_lock \<notin> set (held_locks (fs_pc s u))"
    using transition_holder [OF assms(1) _ assms(3)] assms(5) by blast
  have "\<not> fence_waits sha s u m" for m
    using l n by (auto simp: fence_waits_def split: fence_pc.splits list.splits)
  moreover have "fs_pc s u \<noteq> Resting r" for r using l by auto
  ultimately show ?thesis using advances_or_waits [OF _ assms(2)] by blast
qed

text \<open>
  C29. The fence never deadlocks: whoever waits for a lock waits for another process, and that one can
  go on, or it waits for an identity held by a third one that can. A process on its way that waits for
  nothing can go on. So as long as the operations under a claim end, every request is answered.
\<close>

theorem fence_no_deadlock:
  assumes "fence_reachable sha W Q f s" "observed_claims Q" "W \<noteq> {}" "collision_free sha s"
  shows "(\<forall>t l. fence_waits sha s t l \<longrightarrow>
      (\<exists>u. fs_locks s l = Some u \<and> u \<noteq> t \<and>
        ((\<exists>s'. fence_step sha W Q u Advances s s') \<or>
         (\<exists>m v s'. fence_waits sha s u m \<and> fs_locks s m = Some v \<and> v \<noteq> u \<and> v \<noteq> t
            \<and> fence_step sha W Q v Advances s s'))))
    \<and> (\<forall>t. (\<forall>r. fs_pc s t \<noteq> Resting r) \<longrightarrow> (\<forall>l. \<not> fence_waits sha s t l) \<longrightarrow>
        (\<exists>s'. fence_step sha W Q t Advances s s'))"
proof (intro conjI allI impI)
  note fine = reachable_locks_fine [OF assms(1,2)]
  fix t l
  assume w: "fence_waits sha s t l"
  then obtain u where u: "fs_locks s l = Some u" by (auto simp: fence_waits_def)
  then have l: "l \<in> set (held_locks (fs_pc s u))" using locks_fine_iff [OF fine] by blast
  show "\<exists>u. fs_locks s l = Some u \<and> u \<noteq> t \<and>
        ((\<exists>s'. fence_step sha W Q u Advances s s') \<or>
         (\<exists>m v s'. fence_waits sha s u m \<and> fs_locks s m = Some v \<and> v \<noteq> u \<and> v \<noteq> t
            \<and> fence_step sha W Q v Advances s s'))"
  proof (cases "fs_pc s t")
    case (Wanting q)
    then have "u \<noteq> t" using l by auto
    moreover have "fs_pc s u \<noteq> Resting r" for r using l by auto
    then consider s' where "fence_step sha W Q u Advances s s'" | m where "fence_waits sha s u m"
      using advances_or_waits [OF _ assms(3), of s u sha Q] by blast
    then have "(\<exists>s'. fence_step sha W Q u Advances s s') \<or>
         (\<exists>m v s'. fence_waits sha s u m \<and> fs_locks s m = Some v \<and> v \<noteq> u \<and> v \<noteq> t
            \<and> fence_step sha W Q v Advances s s')"
    proof cases
      case (2 m)
      then obtain v where v: "fs_locks s m = Some v" by (auto simp: fence_waits_def)
      from 2 l obtain plan i js held where pc: "fs_pc s u = Taking plan (i # js) held" and m: "fence_lock sha i = Inr m"
        by (auto simp: fence_waits_def split: fence_pc.splits list.splits)
      have mv: "m \<in> set (held_locks (fs_pc s v))" using v locks_fine_iff [OF fine] by blast
      have "v \<noteq> u" using own_lock_free [OF fine assms(4) pc m] mv by auto
      moreover have "v \<noteq> t" using mv Wanting by auto
      moreover from identity_holder_advances [OF fine assms(3) pc v \<open>v \<noteq> u\<close>]
      have "\<exists>s'. fence_step sha W Q v Advances s s'" .
      ultimately show ?thesis using 2 v by blast
    qed blast
    ultimately show ?thesis using u by blast
  next
    case (Taking plan "is" held)
    with w obtain i js where pc: "fs_pc s t = Taking plan (i # js) held" and i: "fence_lock sha i = Inr l"
      by (auto simp: fence_waits_def split: list.splits)
    have "u \<noteq> t" using own_lock_free [OF fine assms(4) pc i] l by auto
    with identity_holder_advances [OF fine assms(3) pc u] u show ?thesis by blast
  qed (use w in \<open>auto simp: fence_waits_def\<close>)
next
  fix t
  assume "\<forall>r. fs_pc s t \<noteq> Resting r" "\<forall>l. \<not> fence_waits sha s t l"
  then show "\<exists>s'. fence_step sha W Q t Advances s s'"
    using advances_or_waits [OF _ assms(3), of s t sha Q] by blast
qed

end
