(* ===== verification/Project_Store_Spec.thy ===== *)
theory Project_Store_Spec
  imports Project_Store
begin

text \<open>
  The changes of the configuration file: the compare-and-swap of a registration, registering, and the
  workspaces.
\<close>

subsection \<open>The store\<close>

lemma store_mutate_cases:
  assumes "store_mutate io change f = (f', r)"
  obtains "f' = f" "r \<noteq> Inr True" | g where "change f = Inr (Some g)" "f' = g" "r = Inr True"
  using assms by (auto simp: store_mutate_def split: option.splits sum.splits)

subsection \<open>Raw entries\<close>

lemma update_raw_fields:
  "map_of (update_raw_project raw p) =
     (map_of raw)(''repository'' \<mapsto> V_String (pj_repository p), ''name'' \<mapsto> V_String (pj_name p),
        ''path'' \<mapsto> V_String (pj_path p), ''last_touched'' \<mapsto> V_String (pj_last_touched p))"
  by (simp add: update_raw_project_def update_conv')

subsection \<open>Compare-and-swap\<close>

lemma swap_entry_Some:
  assumes "swap_entry env ps raws e repl = Some raws'"
  obtains m where "m < length raws" "raw_matches (rg_raw e) (raws ! m)"
    "\<forall>i < length raws. raw_matches (rg_raw e) (raws ! i) \<longrightarrow> i = m"
    "raws' = take m raws @ (case repl of None \<Rightarrow> [] | Some r \<Rightarrow> [update_raw_project (raws ! m) r]) @ drop (Suc m) raws"
proof -
  from assms obtain m where m: "filter (\<lambda>i. raw_matches (rg_raw e) (raws ! i)) [0..<length raws] = [m]"
    unfolding swap_entry_def by (auto split: list.splits)
  then have s: "{i. i < length raws \<and> raw_matches (rg_raw e) (raws ! i)} = {m}"
    using arg_cong [OF m, of set] unfolding set_filter set_upt by auto
  then have lt: "m < length raws" and rm: "raw_matches (rg_raw e) (raws ! m)" by blast+
  have all: "\<forall>i < length raws. raw_matches (rg_raw e) (raws ! i) \<longrightarrow> i = m" using s by blast
  have "raws' = take m raws @ (case repl of None \<Rightarrow> [] | Some r \<Rightarrow> [update_raw_project (raws ! m) r]) @ drop (Suc m) raws"
    using assms m lt by (auto simp: swap_entry_def upd_conv_take_nth_drop split: option.splits if_splits)
  then show ?thesis using that lt rm all by blast
qed

lemma swap_project_exact_cases:
  assumes "compare_and_swap_project env io e repl f = (f', r)"
  shows "(r = Inr True \<longrightarrow> (\<exists>pre raw post. cf_projects f = pre @ raw # post \<and> raw_matches (rg_raw e) raw
        \<and> list_all (\<lambda>x. \<not> raw_matches (rg_raw e) x) (pre @ post)
        \<and> f' = f\<lparr>cf_projects := pre @ (case repl of None \<Rightarrow> [] | Some p \<Rightarrow> [update_raw_project raw p]) @ post\<rparr>))
    \<and> (r \<noteq> Inr True \<longrightarrow> f' = f)"
  using assms unfolding compare_and_swap_project_def
proof (rule store_mutate_cases, goal_cases)
  case 1
  then show ?case by simp
next
  case (2 g)
  from 2(1) obtain raws ps raws' where raws: "raws = cf_projects f" and g: "g = f\<lparr>cf_projects := raws'\<rparr>"
    and sw: "swap_entry env ps raws e repl = Some raws'"
    by (auto simp: raw_project_entries_def split: sum.splits option.splits)
  from sw obtain m where m: "m < length raws" "raw_matches (rg_raw e) (raws ! m)"
    "\<forall>i < length raws. raw_matches (rg_raw e) (raws ! i) \<longrightarrow> i = m"
    "raws' = take m raws @ (case repl of None \<Rightarrow> [] | Some r \<Rightarrow> [update_raw_project (raws ! m) r]) @ drop (Suc m) raws"
    by (rule swap_entry_Some)
  have "list_all (\<lambda>x. \<not> raw_matches (rg_raw e) x) (take m raws @ drop (Suc m) raws)"
    unfolding list_all_append
  proof (intro conjI; unfold list_all_length, intro allI impI)
    fix n assume "n < length (take m raws)"
    then show "\<not> raw_matches (rg_raw e) (take m raws ! n)" using m(1,3) by (metis length_take less_trans min_less_iff_conj nat_neq_iff nth_take)
  next
    fix n assume "n < length (drop (Suc m) raws)"
    then show "\<not> raw_matches (rg_raw e) (drop (Suc m) raws ! n)" using m(1) m(3) [rule_format, of "Suc m + n"] by fastforce
  qed
  moreover have "raws = take m raws @ raws ! m # drop (Suc m) raws" using m(1) by (rule id_take_nth_drop)
  ultimately show ?case using 2(2,3) g m(2,4) raws by blast
qed

text \<open>
  C30. The compare-and-swap of a registration changes exactly the entry that was observed: it succeeds only
  when exactly one entry of the file equals the expected one, key by key; it removes that entry, or
  writes the four known fields into it and keeps every other key; everything else stays as it was. If
  it does not succeed, the file stays as it was.
\<close>

theorem swap_project_exact:
  assumes "compare_and_swap_project env io e repl f = (f', r)"
  shows "(r = Inr True \<longrightarrow> (\<exists>pre raw post. cf_projects f = pre @ raw # post \<and> raw_matches (rg_raw e) raw
        \<and> list_all (\<lambda>x. \<not> raw_matches (rg_raw e) x) (pre @ post)
        \<and> f' = f\<lparr>cf_projects := pre @ (case repl of None \<Rightarrow> [] | Some p \<Rightarrow> [update_raw_project raw p]) @ post\<rparr>))
    \<and> (r \<noteq> Inr True \<longrightarrow> f' = f)"
  by (rule swap_project_exact_cases [OF assms])

subsection \<open>Registering\<close>

lemma update_first_Some:
  "update_first env p ps raws = Some i \<Longrightarrow>
     i < length ps \<and> i < length raws \<and> same_project env (ps ! i) p \<and> (\<forall>j < i. \<not> same_project env (ps ! j) p)"
  by (induction env p ps raws arbitrary: i rule: update_first.induct)
     (auto split: if_splits simp: less_Suc_eq_0_disj nth_Cons split: nat.splits)

lemma update_first_None:
  "update_first env p ps raws = None \<Longrightarrow> length ps = length raws \<Longrightarrow> \<forall>q \<in> set ps. \<not> same_project env q p"
  by (induction env p ps raws rule: update_first.induct) (auto split: if_splits)

lemma register_project_cases:
  assumes "register_project sha env io now p f = (f', r)"
  shows "(\<forall>q fp. r = Inr (q, fp) \<longrightarrow>
      (\<exists>ps i. ci_decode io (cf_projects f) = Inr ps \<and> length ps = length (cf_projects f)
        \<and> registered_project env now p = Inr q \<and> i \<le> length ps \<and> list_all (\<lambda>x. \<not> same_project env x q) (take i ps)
        \<and> (i < length ps \<longrightarrow> same_project env (ps ! i) q)
        \<and> (let old = (if i < length ps then cf_projects f ! i else []) in
             f' = f\<lparr>cf_projects := take i (cf_projects f) @ update_raw_project old q # drop (Suc i) (cf_projects f)\<rparr>
             \<and> fingerprint sha (Some (update_raw_project old q)) = Inr fp)))
    \<and> ((\<exists>e. r = Inl e) \<longrightarrow> f' = f)"
proof (cases "registered_project env now p")
  case (Inl e)
  with assms show ?thesis by (auto simp: register_project_def)
next
  case (Inr q)
  let ?change = "\<lambda>f. map_sum id (\<lambda>(f', fp). Some f') (register_change sha env io q f)"
  obtain g s where st: "store_mutate io ?change f = (g, s)" by (cases "store_mutate io ?change f")
  from st show ?thesis
  proof (rule store_mutate_cases)
    assume "g = f" "s \<noteq> Inr True"
    moreover have "?change f \<noteq> Inr None" by (cases "register_change sha env io q f") auto
    with st have "s \<noteq> Inr False" unfolding store_mutate_def by (auto split: option.splits sum.splits)
    ultimately obtain e where "s = Inl e" "g = f" by (cases s) auto
    with st assms Inr show ?thesis by (auto simp: register_project_def)
  next
    fix h assume h: "?change f = Inr (Some h)" "g = h" "s = Inr True"
    then obtain fp where ch: "register_change sha env io q f = Inr (h, fp)"
      by (cases "register_change sha env io q f") auto
    with st h assms Inr have f': "f' = h" "r = Inr (q, fp)" by (simp_all add: register_project_def)
    from ch obtain ps raws' raw where ps: "ci_decode io (cf_projects f) = Inr ps" "length ps = length (cf_projects f)"
      and re: "register_entry env q ps (cf_projects f) = (raws', raw)" and hh: "h = f\<lparr>cf_projects := raws'\<rparr>"
      and fp: "fingerprint sha (Some raw) = Inr fp"
      by (auto simp: register_change_def typed_projects_def raw_project_entries_def check_representations_def
          split: sum.splits option.splits if_splits prod.splits)
    show ?thesis
    proof (cases "update_first env q ps (cf_projects f)")
      case None
      have "list_all (\<lambda>x. \<not> same_project env x q) (take (length ps) ps)"
        using update_first_None [OF None ps(2)] by (simp add: list_all_iff)
      with None re ps Inr f' hh fp show ?thesis
        by (auto simp: register_entry_def Let_def intro!: exI [of _ "length ps"])
    next
      case (Some i)
      note u = update_first_Some [OF Some]
      have "list_all (\<lambda>x. \<not> same_project env x q) (take i ps)" using u by (auto simp: list_all_length)
      with Some u re ps Inr f' hh fp show ?thesis
        by (auto simp: register_entry_def Let_def upd_conv_take_nth_drop intro!: exI [of _ i])
    qed
  qed
qed


subsection \<open>Workspaces\<close>

text \<open>No two workspaces have the same path or, but for the case of letters, the same name.\<close>

fun workspaces_distinct :: "path_env \<Rightarrow> (string \<Rightarrow> string \<Rightarrow> bool) \<Rightarrow> workspace list \<Rightarrow> bool" where
  "workspaces_distinct env fold_eq [] = True"
| "workspaces_distinct env fold_eq (w # ws) \<longleftrightarrow>
     list_all (\<lambda>v. \<not> same_project_path env (wk_path w) (wk_path v) \<and> \<not> fold_eq (wk_name w) (wk_name v)) ws
     \<and> workspaces_distinct env fold_eq ws"

lemma same_project_path_sym: "same_project_path env p q = same_project_path env q p"
  by (auto simp: same_project_path_def Let_def)

lemma same_project_path_trans:
  "same_project_path env p q \<Longrightarrow> same_project_path env q r \<Longrightarrow> same_project_path env p r"
  by (auto simp: same_project_path_def Let_def split: if_splits)

lemma place_workspace_other:
  assumes "place_workspace env fold_eq w vs = Inr (vs', u)" "x \<in> set vs'"
  shows "x = w \<or> (x \<in> set vs \<and> \<not> same_project_path env (wk_path x) (wk_path w) \<and> \<not> fold_eq (wk_name x) (wk_name w))"
  using assms
proof (induction vs arbitrary: vs' u)
  case (Cons v vs)
  from Cons.prems(1) obtain ws z where p: "place_workspace env fold_eq w vs = Inr (ws, z)"
    and vs': "vs' = (if same_project_path env (wk_path v) (wk_path w) then w else v) # ws"
    and n: "\<not> same_project_path env (wk_path v) (wk_path w) \<longrightarrow> \<not> fold_eq (wk_name v) (wk_name w)"
    by (auto split: if_split_asm sum.split_asm)
  from Cons.prems(2) vs' n Cons.IH [OF p] show ?case
    by (cases "same_project_path env (wk_path v) (wk_path w)") (simp_all, blast+)
qed simp

lemma place_workspace_fresh:
  "place_workspace env fold_eq w vs = Inr (vs', False) \<Longrightarrow>
     vs' = vs \<and> list_all (\<lambda>v. \<not> same_project_path env (wk_path v) (wk_path w) \<and> \<not> fold_eq (wk_name v) (wk_name w)) vs"
  by (induction vs arbitrary: vs') (auto split: if_splits sum.splits)

lemma place_workspace_distinct:
  assumes sym: "\<And>a b. fold_eq a b = fold_eq b a" and "workspaces_distinct env fold_eq vs"
    and "place_workspace env fold_eq w vs = Inr (vs', u)"
  shows "workspaces_distinct env fold_eq vs'"
  using assms(2,3)
proof (induction vs arbitrary: vs' u)
  case (Cons v vs)
  show ?case
  proof (cases "same_project_path env (wk_path v) (wk_path w)")
    case True
    with Cons.prems obtain ws x where p: "place_workspace env fold_eq w vs = Inr (ws, x)" and vs': "vs' = w # ws"
      by (auto split: sum.splits)
    have none: "\<not> same_project_path env (wk_path y) (wk_path w)" if "y \<in> set vs" for y
    proof
      assume "same_project_path env (wk_path y) (wk_path w)"
      then have "same_project_path env (wk_path w) (wk_path y)" by (subst same_project_path_sym)
      from same_project_path_trans [OF True this] Cons.prems(1) that show False by (simp add: list_all_iff)
    qed
    have "\<not> x" "ws = vs \<and> list_all (\<lambda>v. \<not> same_project_path env (wk_path v) (wk_path w) \<and> \<not> fold_eq (wk_name v) (wk_name w)) vs"
    proof -
      have "place_workspace env fold_eq w vs = Inr (ws, x) \<Longrightarrow> \<not> x" if "\<forall>y \<in> set vs. \<not> same_project_path env (wk_path y) (wk_path w)"
        for vs ws x using that by (induction vs arbitrary: ws x) (auto split: if_splits sum.splits)
      with none p show "\<not> x" by blast
      with p show "ws = vs \<and> list_all (\<lambda>v. \<not> same_project_path env (wk_path v) (wk_path w) \<and> \<not> fold_eq (wk_name v) (wk_name w)) vs"
        using place_workspace_fresh [of env fold_eq w vs ws] by simp
    qed
    moreover have "same_project_path env (wk_path w) p = same_project_path env p (wk_path w)"
      "fold_eq (wk_name w) m = fold_eq m (wk_name w)" for p m by (rule same_project_path_sym, rule sym)
    ultimately show ?thesis using Cons.prems(1) unfolding vs' by (simp add: list_all_iff)
  next
    case False
    with Cons.prems obtain ws where p: "place_workspace env fold_eq w vs = Inr (ws, u)" and vs': "vs' = v # ws"
      and n: "\<not> fold_eq (wk_name v) (wk_name w)"
      by (auto split: sum.splits if_splits)
    from Cons.IH [OF _ p] Cons.prems(1) have "workspaces_distinct env fold_eq ws" by simp
    moreover have "list_all (\<lambda>x. \<not> same_project_path env (wk_path v) (wk_path x) \<and> \<not> fold_eq (wk_name v) (wk_name x)) ws"
      using place_workspace_other [OF p] Cons.prems(1) False n by (fastforce simp: list_all_iff)
    ultimately show ?thesis by (simp add: vs')
  qed
qed simp

lemma workspaces_append:
  "workspaces_distinct env fold_eq (vs @ [w]) \<longleftrightarrow> workspaces_distinct env fold_eq vs \<and>
     list_all (\<lambda>v. \<not> same_project_path env (wk_path v) (wk_path w) \<and> \<not> fold_eq (wk_name v) (wk_name w)) vs"
  by (induction vs) auto

lemma workspaces_filter: "workspaces_distinct env fold_eq vs \<Longrightarrow> workspaces_distinct env fold_eq (filter P vs)"
  by (induction vs) (auto simp: list_all_iff)

lemma workspace_change_distinct:
  assumes "\<And>a b. fold_eq a b = fold_eq b a" "workspaces_distinct env fold_eq (cf_workspaces f)"
    and "workspace_change env fold_eq err w f = Inr (Some g)"
  shows "workspaces_distinct env fold_eq (cf_workspaces g)"
proof -
  from assms(3) obtain ws u where pw: "place_workspace env fold_eq w (cf_workspaces f) = Inr (ws, u)"
    and g: "g = f\<lparr>cf_workspaces := (if u then ws else ws @ [w])\<rparr>"
    unfolding workspace_change_def by (auto split: option.splits sum.splits prod.splits)
  have "workspaces_distinct env fold_eq ws" using place_workspace_distinct [OF assms(1,2) pw] .
  moreover have "\<not> u \<Longrightarrow> workspaces_distinct env fold_eq (ws @ [w])"
    using pw place_workspace_fresh [of env fold_eq w "cf_workspaces f" ws] assms(2) by (simp add: workspaces_append)
  ultimately show ?thesis unfolding g by simp
qed

lemma workspace_removal_distinct:
  "workspaces_distinct env fold_eq (cf_workspaces f) \<Longrightarrow> workspace_removal fold_eq err name f = Inr (Some g) \<Longrightarrow>
     workspaces_distinct env fold_eq (cf_workspaces g)"
  by (auto simp: workspace_removal_def Let_def workspaces_filter split: option.splits if_splits)

text \<open>
  C32. Registering and unregistering keep the workspaces distinct, in path and in name: a name that is
  taken by another path is refused, and a path that is registered again is updated in place.
\<close>

theorem workspaces_stay_distinct:
  assumes "\<And>a b. fold_eq a b = fold_eq b a" "workspaces_distinct env fold_eq (cf_workspaces f)"
  shows "workspaces_distinct env fold_eq (cf_workspaces (fst (register_workspace env fold_eq stat io err w f)))
    \<and> workspaces_distinct env fold_eq (cf_workspaces (fst (unregister_workspace fold_eq io err name f)))"
proof
  have kept: "workspaces_distinct env fold_eq (cf_workspaces g)"
    if "store_mutate io change f = (g, s)"
      and "\<And>h. change f = Inr (Some h) \<Longrightarrow> workspaces_distinct env fold_eq (cf_workspaces h)" for change g s
    using that(1) by (rule store_mutate_cases) (use that(2) assms(2) in auto)
  show "workspaces_distinct env fold_eq (cf_workspaces (fst (register_workspace env fold_eq stat io err w f)))"
    using kept workspace_change_distinct [OF assms] assms(2)
    by (auto simp: register_workspace_def split: sum.splits prod.splits)
  show "workspaces_distinct env fold_eq (cf_workspaces (fst (unregister_workspace fold_eq io err name f)))"
    using kept workspace_removal_distinct [OF assms(2)]
    by (auto simp: unregister_workspace_def split: sum.splits prod.splits)
qed

end
