(* ===== verification/Project_Claim_Spec.thy ===== *)
theory Project_Claim_Spec
  imports Project_Fence_Spec Project_Store_Spec
begin

text \<open>
  What a claim is for: while a process works under the claim of a registered project, its registration
  stays in the file as it was claimed.
\<close>

subsection \<open>A system whose parts agree\<close>

text \<open>
  The calls see one file system, one git and one decoding of the entries, which depends on the values of an
  entry only; every client expands paths alike, and nothing resolves to the empty path.
\<close>

record fence_setting =
  se_paths :: path_env
  se_git :: "string \<Rightarrow> repo_git"
  se_decode :: "raw_entry \<Rightarrow> project"
  se_expansion :: expansion_context

definition agreeing_worlds :: "fence_setting \<Rightarrow> project_world set \<Rightarrow> bool" where
  "agreeing_worlds e W \<longleftrightarrow>
     (\<forall>w \<in> W. pw_paths w = se_paths e \<and> pw_git w = se_git e
        \<and> (\<forall>raws ps. ci_decode (pw_io w) raws = Inr ps \<longrightarrow> ps = map (se_decode e) raws))
     \<and> (\<forall>a b. same_value (V_Map (Some a)) (V_Map (Some b)) \<longrightarrow> se_decode e a = se_decode e b)
     \<and> (\<forall>p. expand_with (se_expansion e) p = expand_path (se_paths e) p)
     \<and> validate_expansion (se_expansion e) = None \<and> (\<forall>p q. pe_eval (se_paths e) p = Some q \<longrightarrow> q \<noteq> [])"

text \<open>
  Requests as the program makes them: claims are observed, everybody expands alike, a project is registered
  with a repository and a path that stays as it is once expanded and resolved, and a registration is only
  relocated to a checkout of the same repository.
\<close>

definition fair_request :: "fence_setting \<Rightarrow> fence_request \<Rightarrow> bool" where
  "fair_request e q \<longleftrightarrow>
     (case q of
        Claim c \<Rightarrow> pc_expansion c = se_expansion e
          \<and> (\<forall>k. pc_registered c \<longrightarrow> fold_project_identity (pc_identity c) = Inr k \<longrightarrow> k \<in> set (claim_identities c))
      | Change x (Register p now) \<Rightarrow> x = se_expansion e \<and> pj_repository p \<noteq> [] \<and>
          (\<forall>q. normalize_project_path (se_paths e) (pj_path p) = Inr q \<longrightarrow> normalize_project_path (se_paths e) q = Inr q)
      | Change x (Relocate r p) \<Rightarrow> x = se_expansion e \<and>
          (\<exists>raw i j. rg_raw r = Some raw \<and> canonical_repository_identity (pj_repository (se_decode e raw)) = Some i
             \<and> canonical_repository_identity (pj_repository p) = Some j
             \<and> fold_repository_identity i = fold_repository_identity j)
      | Removal x r \<Rightarrow> rr_expansion r = se_expansion e)"

lemma fold_all_mem: "fold_all is = Inr js \<Longrightarrow> i \<in> set is \<Longrightarrow> fold_project_identity i = Inr k \<Longrightarrow> k \<in> set js"
  by (induction "is" arbitrary: js) (auto split: sum.splits)

lemma stable_set_mem:
  "stable_identity_set is = Inr js \<Longrightarrow> i \<in> set is \<Longrightarrow> fold_project_identity i = Inr k \<Longrightarrow> k \<in> set js"
  by (auto simp: stable_identity_set_def split: sum.splits dest: fold_all_mem)

lemma observed_fair:
  assumes "observe_project_claim w main x f = Inr c" "x = se_expansion e"
  shows "fair_request e (Claim c)"
proof -
  from assms(1) have c: "pc_expansion c = x \<and> (\<exists>ids. pc_identity c \<in> set ids \<and> stable_identity_set ids = Inr (pc_identities c))"
    unfolding observe_project_claim_def by (auto split: option.splits sum.splits list.splits intro: exI [of _ "[_]"] exI [of _ "[_, _]"])
  then show ?thesis
    using assms(2) stable_set_mem by (fastforce simp: fair_request_def claim_identities_def)
qed

subsection \<open>Entries\<close>

definition registration_of :: "fence_setting \<Rightarrow> raw_entry \<Rightarrow> registration" where
  "registration_of e raw = \<lparr>rg_persisted = se_decode e raw,
     rg_effective = (case expand_registered (expand_with (se_expansion e)) (se_paths e) (se_decode e raw) of
                       Inr q \<Rightarrow> q | Inl _ \<Rightarrow> se_decode e raw),
     rg_raw = Some raw\<rparr>"

text \<open>Some call resolved the entry to the folded identity.\<close>

definition entry_folds :: "project_world set \<Rightarrow> registration \<Rightarrow> string \<Rightarrow> bool" where
  "entry_folds W r k \<longleftrightarrow> (\<exists>w \<in> W. folded_identity w r = Inr k)"

lemma folded_agree:
  assumes "agreeing_worlds e W" "w \<in> W" "w' \<in> W" "folded_identity w r = Inr j" "folded_identity w' r = Inr k"
    and "rg_persisted r' = rg_persisted r" "rg_effective r' = rg_effective r"
  shows "j = k"
proof -
  have "pw_paths w = pw_paths w'" "pw_git w = pw_git w'" using assms(1-3) by (simp_all add: agreeing_worlds_def)
  then show ?thesis using assms(4,5)
    by (auto simp: folded_identity_def resolve_project_identity_def stable_project_identity_def
        split: sum.splits option.splits if_splits)
qed

lemma entry_folds_unique: "agreeing_worlds e W \<Longrightarrow> entry_folds W r j \<Longrightarrow> entry_folds W r k \<Longrightarrow> j = k"
  unfolding entry_folds_def using folded_agree by blast

lemma folded_raw: "folded_identity w (r\<lparr>rg_raw := x\<rparr>) = folded_identity w r"
proof -
  have "rg_effective (r\<lparr>rg_raw := x\<rparr>) = rg_effective r" "rg_persisted (r\<lparr>rg_raw := x\<rparr>) = rg_persisted r" by simp_all
  then show ?thesis unfolding folded_identity_def resolve_project_identity_def stable_project_identity_def by presburger
qed

lemma entry_folds_value:
  assumes "agreeing_worlds e W" "same_value (V_Map (Some a)) (V_Map (Some b))"
  shows "entry_folds W (registration_of e a) k = entry_folds W (registration_of e b) k"
proof -
  have "se_decode e a = se_decode e b" using assms by (simp add: agreeing_worlds_def)
  then have "registration_of e a = (registration_of e b)\<lparr>rg_raw := Some a\<rparr>"
    unfolding registration_of_def by (simp split: sum.split)
  then show ?thesis by (simp add: entry_folds_def folded_raw)
qed

lemma expand_with_ok: "\<exists>q. expand_with x p = Inr q"
  by (simp add: expand_with_def Let_def)

lemma load_registrations_eq:
  assumes "agreeing_worlds e W" "w \<in> W" "load_registrations w (se_expansion e) f = Inr rs"
  shows "rs = map (registration_of e) (cf_projects f)"
proof -
  have ok: "\<exists>q. expand_registered (expand_with (se_expansion e)) (se_paths e) p = Inr q" for p
    using expand_with_ok [of "se_expansion e" "pj_path p"] by (auto simp: expand_registered_def)
  have all: "expand_all (expand_with (se_expansion e)) (se_paths e) ps = Inr qs \<Longrightarrow> length raws = length ps \<Longrightarrow>
      ps = map (se_decode e) raws \<Longrightarrow> pair_up ps qs raws = map (registration_of e) raws" for ps qs raws
  proof (induction ps arbitrary: qs raws)
    case (Cons p ps)
    then obtain r rs where raws: "raws = r # rs" by (cases raws) auto
    obtain q where q: "expand_registered (expand_with (se_expansion e)) (se_paths e) p = Inr q" using ok by blast
    with Cons.prems(1) obtain qs' where qs: "qs = q # qs'"
      "expand_all (expand_with (se_expansion e)) (se_paths e) ps = Inr qs'" by (auto split: sum.splits)
    from Cons.IH [OF qs(2), of rs] Cons.prems q show ?case by (simp add: raws qs(1) registration_of_def)
  qed simp
  have p: "pw_paths w = se_paths e" using assms(1,2) by (simp add: agreeing_worlds_def)
  from assms(3) obtain ps qs where "ci_decode (pw_io w) (cf_projects f) = Inr ps"
    and e: "expand_all (expand_with (se_expansion e)) (se_paths e) ps = Inr qs"
    and l: "length ps = length (cf_projects f)" and rs: "rs = pair_up ps qs (cf_projects f)"
    unfolding load_registrations_def load_snapshot_def p
    by (auto simp: raw_project_entries_def check_representations_def split: option.splits sum.splits if_splits)
  then have "ps = map (se_decode e) (cf_projects f)" using assms(1,2) by (simp add: agreeing_worlds_def)
  with all [OF e] l rs show ?thesis by simp
qed

subsection \<open>What a change covers\<close>

text \<open>The entry that registering updates, or that is relocated, is one the change took the locks of.\<close>

lemma expanded_path:
  assumes "agreeing_worlds e W" "pj_path p \<noteq> []"
    and "expand_registered (expand_with (se_expansion e)) (se_paths e) p = Inr q"
  shows "normalize_project_path (se_paths e) (pj_path p) = Inr (pj_path q)"
  using assms by (auto simp: expand_registered_def normalize_project_path_def agreeing_worlds_def split: sum.splits)

lemma join_path_nonempty: "is_abs d \<Longrightarrow> join_path d p \<noteq> []"
  by (auto simp: join_path_def clean_path_def build_path_def is_abs_def)

lemma normalize_nonempty:
  assumes "agreeing_worlds e W" "p \<noteq> []" "normalize_project_path (se_paths e) p = Inr q"
  shows "q \<noteq> []"
proof -
  have x: "is_abs (ex_wd (se_expansion e))" "expand_with (se_expansion e) p = expand_path (se_paths e) p"
    and ev: "\<And>a b. pe_eval (se_paths e) a = Some b \<Longrightarrow> b \<noteq> []"
    using assms(1) by (auto simp: agreeing_worlds_def validate_expansion_def split: if_splits)
  from assms(3) obtain y where y: "expand_with (se_expansion e) p = Inr y"
    and q: "q = (case pe_eval (se_paths e) y of Some r \<Rightarrow> r | None \<Rightarrow> y)"
    unfolding normalize_project_path_def x(2) by (auto split: sum.splits)
  have "y \<noteq> []" using y assms(2) x(1) join_path_nonempty
    by (auto simp: expand_with_def Let_def is_abs_def split: if_splits)
  with q ev show ?thesis by (auto split: option.splits)
qed

lemma registration_path:
  assumes "agreeing_worlds e W" "pj_path (se_decode e raw) \<noteq> []"
  obtains x where "normalize_project_path (se_paths e) (pj_path (se_decode e raw)) = Inr x"
    "pj_path (rg_effective (registration_of e raw)) = x" "x \<noteq> []"
proof -
  obtain q where q: "expand_registered (expand_with (se_expansion e)) (se_paths e) (se_decode e raw) = Inr q"
    using expand_with_ok [of "se_expansion e" "pj_path (se_decode e raw)"]
    unfolding expand_registered_def by (cases "pj_path (se_decode e raw) = []") auto
  from expanded_path [OF assms q] normalize_nonempty [OF assms] q that show ?thesis by (simp add: registration_of_def)
qed

lemma next_path:
  assumes "agreeing_worlds e W" "w \<in> W" "pj_path p \<noteq> []"
    and "next_registration w (se_expansion e) p = Inr n"
  shows "normalize_project_path (se_paths e) (pj_path p) = Inr (pj_path (rg_effective n))" and "rg_persisted n = p"
  using assms by (auto simp: next_registration_def normalize_project_path_def agreeing_worlds_def split: sum.splits)

lemma update_matches_path:
  assumes "agreeing_worlds e W" "w \<in> W" "pj_path p \<noteq> []"
    and "next_registration w (se_expansion e) p = Inr n" "pj_path (rg_effective n) = y"
    and "same_project_path (se_paths e) (pj_path (se_decode e raw)) y"
    and y: "normalize_project_path (se_paths e) y = Inr y"
  shows "update_matches (se_paths e) (registration_of e raw) n"
proof -
  have ne: "pj_path (se_decode e raw) \<noteq> []" "y \<noteq> []" using assms(6) by (auto simp: same_project_path_def split: if_splits)
  obtain x where x: "normalize_project_path (se_paths e) (pj_path (se_decode e raw)) = Inr x"
    "pj_path (rg_effective (registration_of e raw)) = x" "x \<noteq> []" by (rule registration_path [OF assms(1) ne(1)])
  have "utils_path_key (se_paths e) x = utils_path_key (se_paths e) y"
    using assms(6) ne x(1) y by (simp add: same_project_path_def)
  then show ?thesis using x ne assms(5) by (simp add: update_matches_def)
qed

lemma register_covered:
  assumes agree: "agreeing_worlds e W" and w: "w \<in> W" and fair: "fair_request e (Change x (Register p now))"
    and q: "registered_project (se_paths e) now p = Inr q" and n: "next_registration w (se_expansion e) p = Inr n"
    and same: "same_project (se_paths e) (se_decode e raw) q"
  shows "update_matches (se_paths e) (registration_of e raw) n"
proof -
  have repo: "pj_repository p \<noteq> []" using fair by (simp add: fair_request_def)
  from q have ne: "pj_path p \<noteq> []" and qp: "normalize_project_path (se_paths e) (pj_path p) = Inr (pj_path q)"
    and qr: "pj_repository q = pj_repository p"
    using repo by (auto simp: registered_project_def split: if_splits sum.splits)
  note np = next_path [OF agree w ne n]
  have path: "pj_path (rg_effective n) = pj_path q" using qp np(1) by simp
  have pq: "pj_path q \<noteq> []" using normalize_nonempty [OF agree ne qp] .
  have rp: "pj_repository (rg_persisted (registration_of e raw)) = pj_repository (se_decode e raw)"
    by (simp add: registration_of_def)
  show ?thesis
  proof (cases "same_project_path (se_paths e) (pj_path (se_decode e raw)) (pj_path q)")
    case True
    moreover have "normalize_project_path (se_paths e) (pj_path q) = Inr (pj_path q)"
      using fair qp by (simp add: fair_request_def)
    ultimately show ?thesis by (rule update_matches_path [OF agree w ne n path])
  next
    case False
    then have "pj_path (se_decode e raw) \<noteq> pj_path q" using pq by (auto simp: same_project_path_def split: sum.splits)
    with same False repo have "pj_repository (se_decode e raw) \<noteq> []" and
      m: "(case (canonical_repository_identity (pj_repository (se_decode e raw)), canonical_repository_identity (pj_repository p)) of
           (Some i, Some j) \<Rightarrow> fold_repository_identity i = fold_repository_identity j
         | _ \<Rightarrow> pj_repository (se_decode e raw) = pj_repository p)"
      unfolding same_project_def qr by (auto split: if_splits)
    then show ?thesis unfolding update_matches_def rp np(2)
      by (auto split: option.splits)
  qed
qed

lemma relocate_covered:
  assumes agree: "agreeing_worlds e W" and "fair_request e (Change x (Relocate r p))" and "raw_matches (rg_raw r) raw"
    and n: "next_registration w (se_expansion e) p = Inr n"
  shows "update_matches (se_paths e) (registration_of e raw) n"
proof -
  from assms(2) obtain raw0 i j where r: "rg_raw r = Some raw0"
    "canonical_repository_identity (pj_repository (se_decode e raw0)) = Some i"
    "canonical_repository_identity (pj_repository p) = Some j" "fold_repository_identity i = fold_repository_identity j"
    by (auto simp: fair_request_def)
  have "se_decode e raw = se_decode e raw0" using assms(3) agree by (simp add: raw_matches_def r(1) agreeing_worlds_def)
  moreover have "rg_persisted n = p" using n by (auto simp: next_registration_def split: sum.splits)
  ultimately show ?thesis using r by (simp add: update_matches_def registration_of_def)
qed

subsection \<open>Plans\<close>

text \<open>The plan a process works on, or is about to once it has released the transition lock.\<close>

fun plan_of :: "fence_pc \<Rightarrow> fence_plan option" where
  "plan_of (Working plan held) = Some plan"
| "plan_of (Freeing ls k) = plan_of k"
| "plan_of _ = None"

definition plan_fine :: "fence_setting \<Rightarrow> project_world set \<Rightarrow> config_file \<Rightarrow> fence_plan \<Rightarrow> bool" where
  "plan_fine e W f plan \<longleftrightarrow>
     (case plan of
        Holding c \<Rightarrow> pc_registered c \<longrightarrow>
          (\<exists>raw \<in> set (cf_projects f). \<exists>k. same_value (V_Map (Some raw)) (V_Map (rg_raw (pc_registration c)))
             \<and> entry_folds W (registration_of e raw) k \<and> fold_project_identity (pc_identity c) = Inr k)
      | Changing x m is \<Rightarrow> (\<exists>w \<in> W. \<exists>n. next_registration w (se_expansion e) (mutation_project m) = Inr n \<and>
          (\<forall>raw \<in> set (cf_projects f). update_matches (se_paths e) (registration_of e raw) n \<longrightarrow>
             (\<exists>k \<in> set is. entry_folds W (registration_of e raw) k)))
      | Removing r i reg \<Rightarrow>
          (\<exists>raw k. rg_raw reg = Some raw \<and> entry_folds W (registration_of e raw) k \<and> fold_project_identity i = Inr k))"

lemma plan_locks:
  assumes "locks_fine sha s" "plan_of (fs_pc s t) = Some plan" "i \<in> set (plan_identities plan)"
    and "fold_project_identity i = Inr k"
  shows "hex_text (sha k) @ ''.lock'' \<in> set (held_locks (fs_pc s t))"
proof -
  have "hex_text (sha k) @ ''.lock'' \<in> set (held_locks pc)" if "plan_of pc = Some plan" "pc_ok sha pc" for pc
    using that
  proof (induction pc)
    case (Working p held)
    then have "locks_of sha (plan_identities plan) held" by simp
    then have "fence_lock sha i \<in> Inr ` set held"
      using assms(3) unfolding locks_of_def by (metis image_eqI list.set_map set_rev)
    then show ?case using assms(4) by (auto simp: fence_lock_def)
  qed auto
  then show ?thesis using assms(1,2) locks_fine_pc by (auto simp: pc_fine_def)
qed

lemma plan_identity_valid:
  assumes "locks_fine sha s" "plan_of (fs_pc s t) = Some plan" "i \<in> set (plan_identities plan)" "settled i"
  shows "fold_project_identity i = Inr i"
proof -
  have "\<exists>l. fence_lock sha i = Inr l" if "plan_of pc = Some plan" "pc_ok sha pc" for pc
    using that
  proof (induction pc)
    case (Working p held)
    then have "locks_of sha (plan_identities plan) held" by simp
    then have "fence_lock sha i \<in> Inr ` set held"
      using assms(3) unfolding locks_of_def by (metis image_eqI list.set_map set_rev)
    then show ?case by blast
  qed auto
  then have "\<exists>l. fence_lock sha i = Inr l" using assms(1,2) locks_fine_pc by (auto simp: pc_fine_def)
  then obtain k where "fold_project_identity i = Inr k" by (auto simp: fence_lock_def split: sum.splits)
  with assms(4) show ?thesis by (simp add: settled_def)
qed

text \<open>Two processes whose plans hold the same folded identity are one.\<close>

lemma plans_exclusive:
  assumes "locks_fine sha s" "plan_of (fs_pc s t) = Some p" "plan_of (fs_pc s u) = Some p'"
    and "i \<in> set (plan_identities p)" "fold_project_identity i = Inr k"
    and "j \<in> set (plan_identities p')" "fold_project_identity j = Inr k"
  shows "t = u"
  using holder_unique [OF assms(1)] plan_locks [OF assms(1,2,4,5)] plan_locks [OF assms(1,3,6,7)] by blast

subsection \<open>What a recheck establishes\<close>

lemma folded_equal:
  assumes "resolve_project_identity w r = Inr i" "equal_project_identity i j" "w \<in> W"
  shows "\<exists>k. entry_folds W r k \<and> fold_project_identity j = Inr k"
proof -
  from assms(2) obtain k where k: "fold_project_identity i = Inr k" "fold_project_identity j = Inr k"
    by (auto simp: equal_project_identity_def split: sum.splits)
  have "folded_identity w r = Inr k" by (simp add: folded_identity_def assms(1) k(1))
  with k(2) assms(3) show ?thesis unfolding entry_folds_def by blast
qed

lemma claim_recheck:
  assumes agree: "agreeing_worlds e W" and w: "w \<in> W" and c: "fair_request e (Claim c)"
    and "project_claim_matches w c f = Inr True"
  shows "plan_fine e W f (Holding c)"
proof (cases "pc_registered c")
  case True
  from c have x: "pc_expansion c = se_expansion e" by (simp add: fair_request_def)
  from assms(4) True obtain rs r where rs: "load_registrations w (se_expansion e) f = Inr rs"
    and r: "List.find (\<lambda>r. same_persisted_entry r (pc_registration c)) rs = Some r"
    and m: "claim_entry_matches w c r = Inr True"
    by (auto simp: project_claim_matches_def x split: sum.splits option.splits)
  from r have "r \<in> set rs" "same_persisted_entry r (pc_registration c)" by (auto simp: find_Some_iff)
  moreover note load_registrations_eq [OF agree w rs]
  ultimately obtain raw where raw: "raw \<in> set (cf_projects f)" "r = registration_of e raw"
    and same: "same_value (V_Map (Some raw)) (V_Map (rg_raw (pc_registration c)))"
    by (auto simp: same_persisted_entry_def registration_of_def simp del: same_value.simps)
  from m obtain i where "resolve_project_identity w r = Inr i" "equal_project_identity i (pc_identity c)"
    by (auto simp: claim_entry_matches_def split: if_splits sum.splits)
  from folded_equal [OF this w] raw same show ?thesis by (auto simp: plan_fine_def simp del: same_value.simps)
qed (simp add: plan_fine_def)

lemma matching_identities_cover:
  "matching_identities w n rs = Inr js \<Longrightarrow> r \<in> set rs \<Longrightarrow> update_matches (pw_paths w) r n \<Longrightarrow>
     \<exists>k \<in> set js. folded_identity w r = Inr k"
  by (induction rs arbitrary: js) (auto simp: entry_identities_def split: sum.splits if_splits)

lemma change_recheck:
  assumes agree: "agreeing_worlds e W" and w: "w \<in> W" and x: "x = se_expansion e"
    and t: "transition_identities w x (mutation_project m) f = Inr is"
  shows "\<exists>n. next_registration w (se_expansion e) (mutation_project m) = Inr n \<and>
          (\<forall>raw \<in> set (cf_projects f). update_matches (se_paths e) (registration_of e raw) n \<longrightarrow>
             (\<exists>k \<in> set is. entry_folds W (registration_of e raw) k))"
proof -
  from t obtain rs n js a b where rs: "load_registrations w (se_expansion e) f = Inr rs"
    and n: "next_registration w (se_expansion e) (mutation_project m) = Inr n"
    and js: "matching_identities w n rs = Inr js" and "is = remdups_adj (sort ([a, b] @ js))"
    unfolding transition_identities_def x by (auto split: sum.splits simp del: sort_key_simps append.simps)
  then have sub: "set js \<subseteq> set is" by (simp del: sort_key_simps) blast
  have p: "pw_paths w = se_paths e" using agree w by (simp add: agreeing_worlds_def)
  have "\<exists>k \<in> set is. entry_folds W (registration_of e raw) k"
    if "raw \<in> set (cf_projects f)" "update_matches (se_paths e) (registration_of e raw) n" for raw
  proof -
    have "registration_of e raw \<in> set rs" using that(1) load_registrations_eq [OF agree w rs] by simp
    from matching_identities_cover [OF js this] that(2) p sub w show ?thesis by (auto simp: entry_folds_def)
  qed
  with n show ?thesis by blast
qed

lemma removal_recheck_fine:
  assumes agree: "agreeing_worlds e W" and w: "w \<in> W" and x: "rr_expansion q = se_expansion e"
    and "removal_recheck w q i r f = Inr reg"
  shows "plan_fine e W f (Removing q i reg)"
proof -
  from assms(4) obtain rs where rs: "load_registrations w (se_expansion e) f = Inr rs"
    and c: "find_exact_registration rs (rr_path q) = [reg]"
    and j: "\<exists>j. resolve_project_identity w reg = Inr j \<and> equal_project_identity j i"
    unfolding removal_recheck_def x by (auto split: sum.splits list.splits if_splits)
  have "reg \<in> set rs" using arg_cong [OF c, of set] by (auto simp: find_exact_registration_def)
  then obtain raw where "reg = registration_of e raw" using load_registrations_eq [OF agree w rs] by auto
  then show ?thesis using j folded_equal [OF _ _ w] by (fastforce simp: plan_fine_def registration_of_def)
qed

subsection \<open>What a plan does to the file\<close>

text \<open>The only entry a plan takes out of the file, if any, is one whose identity it has locked.\<close>

definition takes_only :: "fence_setting \<Rightarrow> project_world set \<Rightarrow> fence_plan \<Rightarrow> config_file \<Rightarrow> config_file \<Rightarrow> bool" where
  "takes_only e W p f f' \<longleftrightarrow>
     (set (cf_projects f) \<subseteq> set (cf_projects f') \<or>
      (\<exists>a k. set (cf_projects f) - {a} \<subseteq> set (cf_projects f') \<and> entry_folds W (registration_of e a) k
         \<and> (\<exists>i \<in> set (plan_identities p). fold_project_identity i = Inr k \<or> i = k)))
     \<and> (set (cf_projects f') \<subseteq> set (cf_projects f) \<or> keeps_transition p)"

lemma takes_nothing: "takes_only e W p f f"
  by (simp add: takes_only_def)

lemma swap_takes:
  assumes "compare_and_swap_project env io r repl f = (f', res)"
    and "\<And>a. a \<in> set (cf_projects f) \<Longrightarrow> raw_matches (rg_raw r) a \<Longrightarrow>
      \<exists>k. entry_folds W (registration_of e a) k \<and> (\<exists>i \<in> set (plan_identities p). fold_project_identity i = Inr k \<or> i = k)"
    and "repl = None \<or> keeps_transition p"
  shows "takes_only e W p f f'"
proof (cases "res = Inr True")
  case True
  with swap_project_exact_cases [OF assms(1)] obtain pre raw post where f: "cf_projects f = pre @ raw # post"
    "raw_matches (rg_raw r) raw"
    and f': "f' = f\<lparr>cf_projects := pre @ (case repl of None \<Rightarrow> [] | Some p \<Rightarrow> [update_raw_project raw p]) @ post\<rparr>"
    by blast
  from assms(2) [of raw] f obtain k where k: "entry_folds W (registration_of e raw) k"
    "\<exists>i \<in> set (plan_identities p). fold_project_identity i = Inr k \<or> i = k" by auto
  have "set (cf_projects f) - {raw} \<subseteq> set (cf_projects f')" unfolding f f' by auto
  moreover have "set (cf_projects f') \<subseteq> set (cf_projects f) \<or> keeps_transition p"
    using assms(3) unfolding f f' by auto
  ultimately show ?thesis using k unfolding takes_only_def by blast
next
  case False
  with swap_project_exact_cases [OF assms(1)] have "f' = f" by blast
  then show ?thesis by (simp add: takes_nothing)
qed

lemma work_takes:
  assumes agree: "agreeing_worlds e W" and w: "w \<in> W" and fine: "plan_fine e W f p"
    and fair: "fair_request e (plan_request p)" and work: "work sha w outcome p f = (f', r)"
  shows "takes_only e W p f f'"
proof (cases p)
  case (Holding c)
  with work show ?thesis by (simp add: work_def takes_nothing)
next
  case (Removing q i reg)
  from fine obtain raw k where reg: "rg_raw reg = Some raw" "entry_folds W (registration_of e raw) k"
    "fold_project_identity i = Inr k" by (auto simp: plan_fine_def Removing)
  show ?thesis
  proof (cases "compare_and_swap_project (pw_paths w) (pw_io w) reg None f")
    case (Pair g res)
    have "takes_only e W p f g"
    proof (rule swap_takes [OF Pair])
      fix a assume "a \<in> set (cf_projects f)" "raw_matches (rg_raw reg) a"
      then have "same_value (V_Map (Some a)) (V_Map (Some raw))" by (simp only: raw_matches_def reg(1))
      from entry_folds_value [OF agree this] reg(2) have "entry_folds W (registration_of e a) k" by simp
      then show "\<exists>k. entry_folds W (registration_of e a) k \<and> (\<exists>i \<in> set (plan_identities p). fold_project_identity i = Inr k \<or> i = k)"
        using reg(3) Removing by auto
    qed simp
    moreover have "f' = g \<or> f' = f"
      using work Pair by (auto simp: work_def Removing removal_commit_def split: option.splits sum.splits)
    ultimately show ?thesis using takes_nothing by blast
  qed
next
  case (Changing x m "is")
  from fine obtain w' n where w': "w' \<in> W" "next_registration w' (se_expansion e) (mutation_project m) = Inr n"
    and cover: "\<forall>raw \<in> set (cf_projects f). update_matches (se_paths e) (registration_of e raw) n \<longrightarrow>
             (\<exists>k \<in> set is. entry_folds W (registration_of e raw) k)" by (auto simp: plan_fine_def Changing)
  have env: "pw_paths v = se_paths e" if "v \<in> W" for v using agree that unfolding agreeing_worlds_def by blast
  have n: "next_registration w (se_expansion e) (mutation_project m) = Inr n"
    using w'(2) unfolding next_registration_def env [OF w] env [OF w'(1)] .
  note env = env [OF w]
  have keeps: "keeps_transition p" by (simp add: keeps_transition_def Changing)
  have ids: "plan_identities p = is" by (simp add: Changing)
  show ?thesis
  proof (cases m)
    case (Relocate reg q)
    show ?thesis
    proof (cases "compare_and_swap_project (pw_paths w) (pw_io w) reg (Some q) f")
      case (Pair g res)
      have "takes_only e W p f g"
      proof (rule swap_takes [OF Pair])
        fix a assume a: "a \<in> set (cf_projects f)" "raw_matches (rg_raw reg) a"
        have "update_matches (se_paths e) (registration_of e a) n"
          using relocate_covered [OF agree _ a(2)] fair n by (simp add: plan_request_def Changing Relocate)
        with cover a(1) show "\<exists>k. entry_folds W (registration_of e a) k \<and> (\<exists>i \<in> set (plan_identities p). fold_project_identity i = Inr k \<or> i = k)"
          unfolding ids by blast
      qed (simp add: keeps)
      moreover have "f' = g"
        using work Pair by (auto simp: work_def Changing Relocate perform_mutation_def split: sum.splits)
      ultimately show ?thesis by simp
    qed
  next
    case (Register q now)
    show ?thesis
    proof (cases "register_project sha (pw_paths w) (pw_io w) now q f")
      case (Pair g res)
      have f': "f' = g"
        using work Pair by (auto simp: work_def Changing Register perform_mutation_def split: sum.splits)
      show ?thesis
      proof (cases res)
        case (Inl err)
        with register_project_cases [OF Pair] have "f' = f" by (simp add: f')
        then show ?thesis by (simp add: takes_nothing)
      next
        case (Inr a)
        obtain q' fp where a: "a = (q', fp)" by (cases a)
        have "res = Inr (q', fp)" using Inr a by simp
        from register_project_cases [OF Pair, THEN conjunct1, rule_format, OF this] obtain ps i where ps: "ci_decode (pw_io w) (cf_projects f) = Inr ps"
          "length ps = length (cf_projects f)" and q': "registered_project (pw_paths w) now q = Inr q'"
          and i: "i < length ps \<longrightarrow> same_project (pw_paths w) (ps ! i) q'"
          and "g = f\<lparr>cf_projects := take i (cf_projects f) @
            update_raw_project (if i < length ps then cf_projects f ! i else []) q' # drop (Suc i) (cf_projects f)\<rparr>"
          unfolding Let_def by blast
        then have g: "\<exists>new. cf_projects g = take i (cf_projects f) @ new # drop (Suc i) (cf_projects f)" by simp
        have dec: "ps = map (se_decode e) (cf_projects f)" using ps(1) agree w by (simp add: agreeing_worlds_def)
        show ?thesis
        proof (cases "i < length ps")
          case True
          let ?a = "cf_projects f ! i"
          have "same_project (se_paths e) (se_decode e ?a) q'" using i True dec ps(2) env by simp
          moreover have "fair_request e (Change x (Register q now))" using fair by (simp add: plan_request_def Changing Register)
          moreover have "registered_project (se_paths e) now q = Inr q'" using q' by (simp only: env)
          moreover have "next_registration w (se_expansion e) q = Inr n" using n by (simp add: Register)
          ultimately have "update_matches (se_paths e) (registration_of e ?a) n" by (metis register_covered [OF agree w])
          then have "\<exists>k \<in> set is. entry_folds W (registration_of e ?a) k" using cover True ps(2) by simp
          moreover have "set (cf_projects f) - {?a} \<subseteq> set (cf_projects f')"
          proof -
            have "cf_projects f = take i (cf_projects f) @ ?a # drop (Suc i) (cf_projects f)"
              using True ps(2) by (intro id_take_nth_drop) simp
            from arg_cong [OF this, of set] g show ?thesis unfolding f' by auto
          qed
          ultimately show ?thesis using keeps ids unfolding takes_only_def by blast
        next
          case False
          then have "set (cf_projects f) \<subseteq> set (cf_projects f')" using g ps(2) unfolding f' by auto
          then show ?thesis using keeps by (simp add: takes_only_def)
        qed
      qed
    qed
  qed
qed

subsection \<open>Every step keeps the claims\<close>

definition claims_fine :: "fence_setting \<Rightarrow> project_world set \<Rightarrow> fence_state \<Rightarrow> bool" where
  "claims_fine e W s \<longleftrightarrow> (\<forall>t. (\<forall>q \<in> pc_requests (fs_pc s t). fair_request e q)
     \<and> (\<forall>p. plan_of (fs_pc s t) = Some p \<longrightarrow> plan_fine e W (fs_file s) p))"

lemma claims_fineD:
  "claims_fine e W s \<Longrightarrow> q \<in> pc_requests (fs_pc s t) \<Longrightarrow> fair_request e q"
  "claims_fine e W s \<Longrightarrow> plan_of (fs_pc s t) = Some p \<Longrightarrow> plan_fine e W (fs_file s) p"
  by (simp_all add: claims_fine_def)

lemma claims_keep:
  assumes "claims_fine e W s" "\<forall>q \<in> pc_requests pc. fair_request e q"
    and "\<And>p. plan_of pc = Some p \<Longrightarrow> plan_fine e W (fs_file s) p"
  shows "claims_fine e W (set_fence_pc t pc s)"
  using assms by (simp add: claims_fine_def set_fence_pc_def)

lemma claims_lock [simp]: "claims_fine e W (set_lock l v s) = claims_fine e W s"
  by (simp add: claims_fine_def set_lock_def)

lemma fs_file_lock [simp]: "fs_file (set_lock l v s) = fs_file s"
  by (simp add: set_lock_def)

lemma decide_request:
  assumes "decide sha w f q = Inr (plan, is)" "fair_request e q"
  shows "fair_request e (plan_request plan)"
  using assms by (cases q) (auto simp: decide_def plan_request_def fair_request_def split: sum.splits if_splits)

lemma recheck_fine_plan:
  assumes agree: "agreeing_worlds e W" and w: "w \<in> W" and fair: "fair_request e (plan_request plan)"
    and r: "recheck w f plan = Inr (Some plan')"
  shows "plan_fine e W f plan' \<and> plan_request plan' = plan_request plan"
proof (cases plan)
  case (Holding c)
  with r have "project_claim_matches w c f = Inr True" "plan' = plan"
    by (auto simp: recheck_def split: sum.splits if_splits)
  with claim_recheck [OF agree w] fair Holding show ?thesis by (simp add: plan_request_def)
next
  case (Changing x m "is")
  with r have t: "transition_identities w x (mutation_project m) f = Inr is" and p: "plan' = plan"
    by (auto simp: recheck_def split: sum.splits if_splits)
  have "x = se_expansion e" using fair Changing by (cases m) (auto simp: plan_request_def fair_request_def)
  from change_recheck [OF agree w this t] w show ?thesis unfolding p by (auto simp: plan_fine_def Changing)
next
  case (Removing q i reg)
  with r obtain reg' where rr: "removal_recheck w q i reg f = Inr reg'" and p: "plan' = Removing q i reg'"
    by (auto simp: recheck_def split: sum.splits)
  have "rr_expansion q = se_expansion e" using fair Removing by (simp add: plan_request_def fair_request_def)
  from removal_recheck_fine [OF agree w this rr] show ?thesis unfolding p by (simp add: plan_request_def Removing)
qed

lemma other_plan_fine:
  assumes agree: "agreeing_worlds e W" and locks: "locks_fine sha s" and pc: "fs_pc s t = Working p held"
    and u: "plan_of (fs_pc s u) = Some p'" "u \<noteq> t" and fine: "plan_fine e W (fs_file s) p'"
    and fair: "fair_request e (plan_request p')" and takes: "takes_only e W p (fs_file s) f'"
  shows "plan_fine e W f' p'"
proof (cases p')
  case (Removing q i reg)
  with fine show ?thesis by (simp add: plan_fine_def)
next
  case (Changing x m "is")
  have "keeps_transition p'" by (simp add: keeps_transition_def Changing)
  have "transition_lock \<in> set (held_locks pc)" if "plan_of pc = Some p'" "pc_ok sha pc" for pc
    using that by (induction pc) (auto simp: \<open>keeps_transition p'\<close> split: fence_pc.splits)
  then have "transition_lock \<in> set (held_locks (fs_pc s u))" using u(1) locks_fine_pc [OF locks, of u] by (simp add: pc_fine_def)
  then have "\<not> keeps_transition p" using holder_unique [OF locks, of transition_lock t u] u(2) pc by auto
  with takes have "set (cf_projects f') \<subseteq> set (cf_projects (fs_file s))" by (simp add: takes_only_def)
  with fine show ?thesis unfolding plan_fine_def Changing by fastforce
next
  case (Holding c)
  show ?thesis
  proof (cases "pc_registered c")
    case True
    with fine obtain raw k where raw: "raw \<in> set (cf_projects (fs_file s))"
      "same_value (V_Map (Some raw)) (V_Map (rg_raw (pc_registration c)))"
      "entry_folds W (registration_of e raw) k" "fold_project_identity (pc_identity c) = Inr k"
      unfolding plan_fine_def Holding by auto
    have "raw \<in> set (cf_projects f')"
    proof (rule ccontr)
      assume gone: "raw \<notin> set (cf_projects f')"
      with takes raw(1) obtain a j i where a: "set (cf_projects (fs_file s)) - {a} \<subseteq> set (cf_projects f')"
        and j: "entry_folds W (registration_of e a) j" and i: "i \<in> set (plan_identities p)"
        and ij: "fold_project_identity i = Inr j \<or> i = j" unfolding takes_only_def by blast
      have "a = raw" using a gone raw(1) by blast
      with j raw(3) entry_folds_unique [OF agree] have jk: "j = k" by blast
      have settled: "settled k" using raw(3) folded_settled by (auto simp: entry_folds_def)
      have pt: "plan_of (fs_pc s t) = Some p" using pc by simp
      have ik: "fold_project_identity i = Inr k"
        using ij plan_identity_valid [OF locks pt i] settled unfolding jk by blast
      have "k \<in> set (plan_identities p')"
        using fair raw(4) True by (simp add: Holding plan_request_def fair_request_def)
      from plans_exclusive [OF locks pt u(1) i ik this plan_identity_valid [OF locks u(1) this settled]] u(2)
      show False by simp
    qed
    with raw show ?thesis unfolding plan_fine_def Holding by auto
  qed (simp add: plan_fine_def Holding)
qed

lemma plan_request_of: "plan_of pc = Some p \<Longrightarrow> plan_request p \<in> pc_requests pc"
  by (induction pc) auto

lemma step_claims_fine:
  assumes step: "fence_step sha W Q t a s s'" and agree: "agreeing_worlds e W"
    and Q: "\<forall>q \<in> Q. fair_request e q" and locks: "locks_fine sha s" and fine: "claims_fine e W s"
  shows "claims_fine e W s'"
  using step
proof cases
  case (Begin r q)
  then have "\<forall>q \<in> pc_requests (fence_begin q). fair_request e q" and "plan_of (fence_begin q) = None"
    using Q by (auto simp: fence_begin_def split: fence_request.splits sum.splits)
  then show ?thesis unfolding Begin(2) by (intro claims_keep [OF fine]) simp_all
next
  case (Decide q w)
  have q: "fair_request e q" using claims_fineD(1) [OF fine, of q t] Decide(3) by simp
  show ?thesis unfolding Decide(2)
  proof (rule claims_keep [OF fine])
    show "\<forall>r \<in> pc_requests (after_decision (decide sha w (fs_file s) q)). fair_request e r"
      using decide_request [OF _ q] by (auto simp: after_decision_def split: sum.splits)
    show "\<And>p. plan_of (after_decision (decide sha w (fs_file s) q)) = Some p \<Longrightarrow> plan_fine e W (fs_file s) p"
      by (auto simp: after_decision_def split: sum.splits prod.splits)
  qed
next
  case (Recheck plan held w)
  have q: "fair_request e (plan_request plan)" using claims_fineD(1) [OF fine, of _ t] Recheck(3) by simp
  show ?thesis unfolding Recheck(2)
  proof (rule claims_keep [OF fine])
    show "\<forall>r \<in> pc_requests (after_recheck plan held (recheck w (fs_file s) plan)). fair_request e r"
      using recheck_fine_plan [OF agree Recheck(4) q] q
      by (auto simp: after_recheck_def split: sum.splits option.splits if_splits)
    show "\<And>p. plan_of (after_recheck plan held (recheck w (fs_file s) plan)) = Some p \<Longrightarrow> plan_fine e W (fs_file s) p"
      using recheck_fine_plan [OF agree Recheck(4) q]
      by (auto simp: after_recheck_def split: sum.splits option.splits if_splits)
  qed
next
  case (Work plan held w outcome f r)
  have req: "fair_request e (plan_request plan)" using claims_fineD(1) [OF fine, of _ t] Work(3) by simp
  have "plan_fine e W (fs_file s) plan" using claims_fineD(2) [OF fine, of t] Work(3) by simp
  from work_takes [OF agree Work(4) this req Work(5)] have takes: "takes_only e W plan (fs_file s) f" .
  have "plan_fine e W f p" if "plan_of (fs_pc s u) = Some p" "u \<noteq> t" for u p
    using other_plan_fine [OF agree locks Work(3) that claims_fineD(2) [OF fine that(1)] _ takes]
      claims_fineD(1) [OF fine plan_request_of [OF that(1)]] by blast
  then show ?thesis unfolding Work(2) using fine
    by (simp add: claims_fine_def set_fence_pc_def after_work_def)
qed (use claims_fineD(1) [OF fine, of _ t] claims_fineD(2) [OF fine, of t] in \<open>auto intro!: claims_keep simp: fine\<close>)


end
