(* ===== verification/Local_Identity_Spec.thy ===== *)
theory Local_Identity_Spec
  imports Local_Identity
begin

text \<open>
  The identity of a path tells paths apart, but for those the code takes for Windows ones.
\<close>

definition escape_local :: "string \<Rightarrow> string" where
  "escape_local s = replace_char (CHR 0x5C) ''%5C'' (replace_char (CHR ''%'') ''%25'' s)"

lemma escape_local_Cons:
  "escape_local (c # s) =
     (if c = CHR ''%'' then ''%25'' else if c = CHR 0x5C then ''%5C'' else [c]) @ escape_local s"
  by (simp add: escape_local_def)

lemma escape_local_Nil: "escape_local [] = []" by (simp add: escape_local_def)

lemma escape_local_inject: "escape_local s = escape_local t \<Longrightarrow> s = t"
proof (induction s arbitrary: t)
  case Nil
  then show ?case by (cases t) (auto simp: escape_local_Nil escape_local_Cons split: if_splits)
next
  case (Cons c s)
  then obtain d t' where t: "t = d # t'" by (cases t) (auto simp: escape_local_Nil escape_local_Cons split: if_splits)
  from Cons.prems have "c = d \<and> escape_local s = escape_local t'"
    unfolding t escape_local_Cons by (cases "c = CHR ''%''"; cases "c = CHR 0x5C"; cases "d = CHR ''%''"; cases "d = CHR 0x5C") simp_all
  with Cons.IH t show ?case by blast
qed

text \<open>A clean absolute path: a slash and what does not start with one.\<close>

lemma clean_absolute:
  assumes "is_abs p" and "clean_path p = p"
  shows "\<exists>r. p = CHR ''/'' # r \<and> (r = [] \<or> hd r \<noteq> CHR ''/'')"
proof -
  obtain names n where e: "clean_elems True (elems p) = replicate n ''..'' @ names" and ok: "list_all proper names"
    and n: "True \<longrightarrow> n = 0"
    by (rule clean_elems_ok [of "elems p" True]) (auto simp: elems_no_sep)
  have p: "p = CHR ''/'' # join ''/'' names"
    using assms e n by (simp add: clean_path_def build_path_def)
  have "names = [] \<or> hd (join ''/'' names) \<noteq> CHR ''/''"
    using join_hd [of names] ok by (cases names) (auto simp: proper_def)
  with p show ?thesis by auto
qed

lemma local_full_path_unix:
  assumes "p = CHR ''/'' # r" and "r = [] \<or> hd r \<noteq> CHR ''/'' \<and> hd r \<noteq> CHR '':''"
  shows "local_repository_full_path p = (if r = [] then ''local'' else ''local/'' @ escape_local r)"
proof -
  have "\<not> is_windows_path_literal p"
    using assms by (cases r) (auto simp: is_windows_path_literal_def has_prefix_def)
  then have s: "slash_local_path p = CHR ''/'' # escape_local r"
    by (simp add: slash_local_path_def escape_local_def assms(1))
  have hd: "r \<noteq> [] \<Longrightarrow> escape_local r \<noteq> [] \<and> hd (escape_local r) \<noteq> CHR ''/'' \<and> hd (escape_local r) \<noteq> CHR '':''"
    using assms(2) by (cases r) (auto simp: escape_local_Cons)
  have "split_local_path_volume (CHR ''/'' # e) = ([], CHR ''/'' # e)" if "e = [] \<or> hd e \<noteq> CHR ''/'' \<and> hd e \<noteq> CHR '':''" for e
    using that by (cases e) (auto simp: split_local_path_volume_def has_prefix_def)
  moreover have "escape_local r = [] \<or> hd (escape_local r) \<noteq> CHR ''/'' \<and> hd (escape_local r) \<noteq> CHR '':''"
    using hd by (cases r) (auto simp: escape_local_Nil)
  ultimately have "split_local_path_volume (CHR ''/'' # escape_local r) = ([], CHR ''/'' # escape_local r)" by blast
  moreover have "trim_left_char (CHR ''/'') (CHR ''/'' # escape_local r) = escape_local r"
    using hd by (cases r; cases "escape_local r") (auto simp: trim_left_char_def escape_local_Nil)
  moreover have "trim_char (CHR ''/'') [] = []" by (simp add: trim_char_def trim_left_char_def)
  ultimately show ?thesis using hd
    by (cases r) (simp_all add: local_repository_full_path_def s Let_def escape_local_Nil)
qed

text \<open>
  C33. Two repositories without a remote are told apart: clean absolute paths have the same local
  identity only when they are equal, if neither has a colon right after the root.
\<close>

lemma local_identity_inject:
  assumes "is_abs p" "clean_path p = p" "\<not> has_prefix p ''/:''" and "is_abs q" "clean_path q = q" "\<not> has_prefix q ''/:''"
  shows "local_repository_full_path p = local_repository_full_path q \<longleftrightarrow> p = q"
proof
  have form: "\<exists>r. x = CHR ''/'' # r \<and> (r = [] \<or> hd r \<noteq> CHR ''/'' \<and> hd r \<noteq> CHR '':'')"
    if x: "is_abs x" "clean_path x = x" "\<not> has_prefix x ''/:''" for x
  proof -
    from clean_absolute [OF x(1,2)] obtain r where r: "x = CHR ''/'' # r" "r = [] \<or> hd r \<noteq> CHR ''/''" by blast
    with x(3) show ?thesis by (cases r) (auto simp: has_prefix_def)
  qed
  from form [OF assms(1-3)] obtain r where r: "p = CHR ''/'' # r" "r = [] \<or> hd r \<noteq> CHR ''/'' \<and> hd r \<noteq> CHR '':''" by blast
  from form [OF assms(4-6)] obtain u where u: "q = CHR ''/'' # u" "u = [] \<or> hd u \<noteq> CHR ''/'' \<and> hd u \<noteq> CHR '':''" by blast
  assume "local_repository_full_path p = local_repository_full_path q"
  then have "(if r = [] then ''local'' else ''local/'' @ escape_local r) = (if u = [] then ''local'' else ''local/'' @ escape_local u)"
    unfolding local_full_path_unix [OF r] local_full_path_unix [OF u] .
  then have "r = u" by (auto dest: escape_local_inject split: if_splits)
  then show "p = q" by (simp only: r(1) u(1))
qed simp

lemma local_identity_inject_witness:
  "local_repository_full_path ''/a/b'' \<noteq> local_repository_full_path ''/a/c''"
  using local_identity_inject [of "''/a/b''" "''/a/c''"]
  by (simp add: is_abs_def clean_path_def build_path_def clean_elems_def clean_step_def has_prefix_def)

text \<open>A directory of the root whose name starts with a colon is taken for a Windows volume, and has the
  identity of its namesake without the colon.\<close>

lemma local_identity_collision:
  "local_repository_full_path ''/:a'' = local_repository_full_path ''/a''"
  by (simp add: local_repository_full_path_def slash_local_path_def is_windows_path_literal_def
      split_local_path_volume_def has_prefix_def trim_left_char_def trim_char_def Let_def replace_char_def)

end
