(* ===== verification/Project_Fence_Demo.thy ===== *)
theory Project_Fence_Demo
  imports Project_Claim_Spec Local_Identity_Spec Repo_Url_Spec
begin

text \<open>
  The fence at work: a claim that nobody contends is granted, and concrete runs at which the properties of
  the fence apply.
\<close>

subsection \<open>A claim that is granted\<close>

lemma fence_run_take:
  assumes "fence_reachable sha W Q f s" "fs_pc s t = Taking plan is held"
    and "map (fence_lock sha) is = map Inr ls" "distinct ls" "\<forall>l \<in> set ls. fs_locks s l = None"
  shows "\<exists>s'. fence_reachable sha W Q f s' \<and> fs_pc s' = (fs_pc s)(t := Taking plan [] (rev ls @ held))
    \<and> fs_file s' = fs_file s \<and> fs_locks s' = (\<lambda>l. if l \<in> set ls then Some t else fs_locks s l)"
  using assms
proof (induction "is" arbitrary: s held ls)
  case Nil
  then show ?case by (intro exI [of _ s]) (auto simp: fun_upd_idem)
next
  case (Cons i js)
  then obtain l ls' where ls: "ls = l # ls'" and l: "fence_lock sha i = Inr l" by auto
  let ?s = "set_fence_pc t (Taking plan js (l # held)) (set_lock l (Some t) s)"
  have reach: "fence_reachable sha W Q f ?s"
    using Cons.prems(1) Take_Fence [OF Cons.prems(2) l] Cons.prems(5) ls by (auto intro: Fence_Next)
  have free: "\<forall>m \<in> set ls'. fs_locks ?s m = None"
    using Cons.prems(4,5) ls by (auto simp: set_fence_pc_def set_lock_def)
  have pc: "fs_pc ?s t = Taking plan js (l # held)" by (simp add: set_fence_pc_def)
  have rest: "map (fence_lock sha) js = map Inr ls'" "distinct ls'" using Cons.prems(3,4) ls by simp_all
  obtain s' where "fence_reachable sha W Q f s'"
    "fs_pc s' = (fs_pc ?s)(t := Taking plan [] (rev ls' @ l # held))" "fs_file s' = fs_file ?s"
    "fs_locks s' = (\<lambda>m. if m \<in> set ls' then Some t else fs_locks ?s m)"
    using Cons.IH [OF reach pc rest free] by blast
  then show ?case unfolding ls
    by (intro exI [of _ s']) (auto simp: set_fence_pc_def set_lock_def)
qed

text \<open>A claim that still matches is granted when its locks are free, and leaves everything else as it is.\<close>

lemma claim_granted:
  assumes reach: "fence_reachable sha W Q f s" and pc: "fs_pc s t = Resting r" and "Claim c \<in> Q" "w \<in> W"
    and matches: "project_claim_matches w c (fs_file s) = Inr True"
    and locks: "map (fence_lock sha) (claim_identities c) = map Inr ls" "distinct ls"
    and free: "\<forall>l \<in> set (transition_lock # ls). fs_locks s l = None"
  shows "\<exists>s'. fence_reachable sha W Q f s' \<and> fs_pc s' = (fs_pc s)(t := Working (Holding c) (rev ls))
    \<and> fs_file s' = fs_file s \<and> fs_locks s' = (\<lambda>l. if l \<in> set ls then Some t else fs_locks s l)"
proof -
  have no: "transition_lock \<notin> set ls"
    using locks(1) transition_lock_other by (metis in_set_conv_nth length_map nth_map)
  let ?s1 = "set_fence_pc t (Wanting (Claim c)) s"
  let ?s2 = "set_fence_pc t (Deciding (Claim c)) (set_lock transition_lock (Some t) ?s1)"
  let ?s3 = "set_fence_pc t (Taking (Holding c) (claim_identities c) []) ?s2"
  have "fence_step sha W Q t Begins s (set_fence_pc t (fence_begin (Claim c)) s)" using pc assms(3) by (rule Begin)
  then have "fence_reachable sha W Q f ?s1" using reach by (simp add: fence_begin_def) (rule Fence_Next)
  moreover have "fence_step sha W Q t Advances ?s1 ?s2"
    by (rule Take_Transition) (use free in \<open>simp_all add: set_fence_pc_def\<close>)
  ultimately have "fence_reachable sha W Q f ?s2" by (rule Fence_Next)
  moreover have "fence_step sha W Q t Advances ?s2 (set_fence_pc t (after_decision (decide sha w (fs_file ?s2) (Claim c))) ?s2)"
    by (rule Decide) (use assms(4) in \<open>simp_all add: set_fence_pc_def\<close>)
  moreover have "after_decision (decide sha w (fs_file ?s2) (Claim c)) = Taking (Holding c) (claim_identities c) []"
    using matches by (simp add: after_decision_def decide_def set_fence_pc_def set_lock_def)
  ultimately have s3: "fence_reachable sha W Q f ?s3" by (metis Fence_Next)
  have "\<exists>s'. fence_reachable sha W Q f s' \<and> fs_pc s' = (fs_pc ?s3)(t := Taking (Holding c) [] (rev ls @ []))
    \<and> fs_file s' = fs_file ?s3 \<and> fs_locks s' = (\<lambda>l. if l \<in> set ls then Some t else fs_locks ?s3 l)"
    by (rule fence_run_take [OF s3 _ locks]) (use free no in \<open>auto simp: set_fence_pc_def set_lock_def\<close>)
  then obtain s4 where r4: "fence_reachable sha W Q f s4" "fs_pc s4 = (fs_pc ?s3)(t := Taking (Holding c) [] (rev ls @ []))"
    "fs_file s4 = fs_file ?s3" "fs_locks s4 = (\<lambda>l. if l \<in> set ls then Some t else fs_locks ?s3 l)" by blast
  have s4: "fence_reachable sha W Q f s4" "fs_pc s4 = (fs_pc s)(t := Taking (Holding c) [] (rev ls))"
    "fs_file s4 = fs_file s"
    "fs_locks s4 = (\<lambda>l. if l \<in> set ls then Some t else if l = transition_lock then Some t else fs_locks s l)"
    using r4 by (simp_all add: set_fence_pc_def set_lock_def fun_eq_iff)
  let ?s5 = "set_fence_pc t (Rechecking (Holding c) (rev ls)) s4"
  let ?s6 = "set_fence_pc t (Freeing [transition_lock] (Working (Holding c) (rev ls))) ?s5"
  let ?s7 = "set_fence_pc t (Freeing [] (Working (Holding c) (rev ls))) (set_lock transition_lock None ?s6)"
  let ?s8 = "set_fence_pc t (Working (Holding c) (rev ls)) ?s7"
  have "fence_step sha W Q t Advances s4 ?s5" by (rule All_Taken) (simp add: s4(2))
  with s4(1) have "fence_reachable sha W Q f ?s5" by (rule Fence_Next)
  moreover have "fence_step sha W Q t Advances ?s5
      (set_fence_pc t (after_recheck (Holding c) (rev ls) (recheck w (fs_file ?s5) (Holding c))) ?s5)"
    by (rule Recheck) (use assms(4) in \<open>simp_all add: set_fence_pc_def\<close>)
  moreover have "after_recheck (Holding c) (rev ls) (recheck w (fs_file ?s5) (Holding c)) =
      Freeing [transition_lock] (Working (Holding c) (rev ls))"
    using matches s4(3) by (simp add: after_recheck_def recheck_def set_fence_pc_def keeps_transition_def)
  ultimately have "fence_reachable sha W Q f ?s6" by (metis Fence_Next)
  moreover have "fence_step sha W Q t Advances ?s6 ?s7" by (rule Release) (simp add: set_fence_pc_def)
  ultimately have "fence_reachable sha W Q f ?s7" by (rule Fence_Next)
  moreover have "fence_step sha W Q t Advances ?s7 ?s8" by (rule Released) (simp add: set_fence_pc_def)
  ultimately have "fence_reachable sha W Q f ?s8" by (rule Fence_Next)
  then show ?thesis using s4(2-4) free no
    by (intro exI [of _ ?s8]) (auto simp: set_fence_pc_def set_lock_def)
qed

subsection \<open>A small world\<close>

text \<open>Two directories, nothing registered; the hash gives the identity back.\<close>

definition fence_expansion :: expansion_context where
  "fence_expansion = \<lparr>ex_wd = ''/w'', ex_home = ''/home/u'', ex_env = []\<rparr>"

definition fence_paths :: path_env where
  "fence_paths = \<lparr>pe_wd = Some ''/w'', pe_home = Some ''/home/u'', pe_expand = os_expand (\<lambda>_. []), pe_eval = (\<lambda>_. None)\<rparr>"

definition fence_project :: project where
  "fence_project = \<lparr>pj_repository = ''github.com/o/r'', pj_name = ''r'', pj_path = ''/p'', pj_last_touched = []\<rparr>"

definition fence_world :: project_world where
  "fence_world = \<lparr>pw_paths = fence_paths, pw_git = (\<lambda>_. \<lparr>gi_url = Inl [], gi_main = Inl []\<rparr>), pw_cancelled = None,
     pw_io = \<lparr>ci_lock = None, ci_read = None, ci_write = None, ci_raw = None,
       ci_decode = (\<lambda>raws. Inr (map (\<lambda>_. fence_project) raws))\<rparr>, pw_other = None\<rparr>"

lemma fence_expansion_valid: "validate_expansion fence_expansion = None"
  by (simp add: validate_expansion_def fence_expansion_def is_abs_def)

lemma fence_path_identity:
  assumes "p = CHR ''/'' # d" "clean_path p = p" "is_graphic (last p)"
    and "d \<noteq> []" "hd d \<noteq> CHR ''/''" "hd d \<noteq> CHR '':''" "CHR ''%'' \<notin> set d" "CHR 0x5C \<notin> set d"
  shows "path_lifecycle_identity fence_paths p = Inr (''local/'' @ d)"
proof -
  have a: "is_abs p" by (simp add: is_abs_def assms(1))
  have "absolute_path_preserving (pe_wd fence_paths) p = Some p"
    using a trim_right_graphic [of p] assms(1-3) by (simp add: absolute_path_preserving_def abs_path_def)
  moreover have "local_repository_full_path p = ''local/'' @ escape_local d"
    using local_full_path_unix [OF assms(1)] assms(4-6) by simp
  moreover have "escape_local d = d" using assms(7,8)
    by (induction d) (auto simp: escape_local_Nil escape_local_Cons)
  ultimately show ?thesis using assms(1)
    by (simp add: path_lifecycle_identity_def repository_info_from_local_path_def Let_def fence_paths_def)
qed

lemma fence_lock_settled: "fold_project_identity i = Inr i \<Longrightarrow> fence_lock id i = Inr (hex_text i @ ''.lock'')"
  by (simp add: fence_lock_def)

lemma fence_local_fold: "d \<noteq> [] \<Longrightarrow> fold_project_identity (''local/'' @ d) = Inr (''local/'' @ d)"
  by (simp add: fold_project_identity_def validate_project_identity_def is_exact_local_def has_prefix_def)

text \<open>The claim of a directory that is not registered.\<close>

definition fence_claim :: "string \<Rightarrow> project_claim" where
  "fence_claim d = \<lparr>pc_registration = no_registration, pc_identity = ''local/'' @ d, pc_identities = [''local/'' @ d],
     pc_expansion = fence_expansion, pc_main_path = CHR ''/'' # d, pc_registered = False\<rparr>"

definition empty_config :: config_file where "empty_config = \<lparr>cf_projects = [], cf_workspaces = []\<rparr>"

lemma load_empty: "load_registrations fence_world fence_expansion empty_config = Inr []"
  by (simp add: load_registrations_def load_snapshot_def fence_world_def empty_config_def raw_project_entries_def
      check_representations_def)

lemma fence_claim_observed:
  assumes "path_lifecycle_identity fence_paths (CHR ''/'' # d) = Inr (''local/'' @ d)" "d \<noteq> []"
  shows "observe_project_claim fence_world (CHR ''/'' # d) fence_expansion empty_config = Inr (fence_claim d)"
    and "project_claim_matches fence_world (fence_claim d) empty_config = Inr True"
proof -
  have w: "pw_paths fence_world = fence_paths" "pw_cancelled fence_world = None" by (simp_all add: fence_world_def)
  have s: "stable_identity_set [''local/'' @ d] = Inr [''local/'' @ d]"
    using fence_local_fold [OF assms(2)] by (simp add: stable_identity_set_def)
  show "observe_project_claim fence_world (CHR ''/'' # d) fence_expansion empty_config = Inr (fence_claim d)"
    by (simp only: observe_project_claim_def w load_empty fence_expansion_valid assms(1) s option.case sum.case list.case
        filter.simps fence_claim_def)
  have "pc_expansion (fence_claim d) = fence_expansion" by (simp add: fence_claim_def)
  then show "project_claim_matches fence_world (fence_claim d) empty_config = Inr True"
    by (simp only: project_claim_matches_def load_empty sum.case)
       (simp add: fence_claim_def w assms(1))
qed

lemma demo_dir: "path_lifecycle_identity fence_paths ''/a'' = Inr (''local/'' @ ''a'')"
  "path_lifecycle_identity fence_paths ''/b'' = Inr (''local/'' @ ''b'')"
  "path_lifecycle_identity fence_paths ''/p'' = Inr (''local/'' @ ''p'')"
  by (rule fence_path_identity; simp add: clean_path_def build_path_def is_abs_def clean_elems_def clean_step_def
      is_graphic_def code_def)+

definition fence_requests :: "fence_request set" where
  "fence_requests = {Claim (fence_claim ''a''), Claim (fence_claim ''b'')}"

lemma fence_requests_observed: "observed_claims fence_requests"
  using fence_claim_observed(1) [of "''a''"] fence_claim_observed(1) [of "''b''"] demo_dir
  by (fastforce simp: observed_claims_def fence_requests_def)

lemma fence_claim_locks:
  "d \<noteq> [] \<Longrightarrow> map (fence_lock id) (claim_identities (fence_claim d)) = map Inr [hex_text (''local/'' @ d) @ ''.lock'']"
  using fence_lock_settled [OF fence_local_fold] by (simp add: claim_identities_def fence_claim_def)

abbreviation demo_lock :: "string \<Rightarrow> string" where
  "demo_lock d \<equiv> hex_text (''local/'' @ d) @ ''.lock''"

text \<open>One process works under the claim of \<open>/a\<close>.\<close>

lemma fence_one_works:
  "\<exists>s. fence_reachable id {fence_world} fence_requests empty_config s
     \<and> fs_pc s = (\<lambda>_. Resting None)(0 := Working (Holding (fence_claim ''a'')) [demo_lock ''a''])
     \<and> fs_file s = empty_config \<and> fs_locks s = (\<lambda>l. if l = demo_lock ''a'' then Some 0 else None)"
proof -
  have "\<exists>s. fence_reachable id {fence_world} fence_requests empty_config s
      \<and> fs_pc s = (fs_pc (fence_start empty_config))(0 := Working (Holding (fence_claim ''a'')) (rev [demo_lock ''a'']))
      \<and> fs_file s = fs_file (fence_start empty_config)
      \<and> fs_locks s = (\<lambda>l. if l \<in> set [demo_lock ''a''] then Some 0 else fs_locks (fence_start empty_config) l)"
    by (rule claim_granted [OF Fence_Start _ _ _ _ fence_claim_locks])
       (use fence_claim_observed(2) [of "''a''"] demo_dir in
         \<open>simp_all add: fence_start_def fence_requests_def\<close>)
  then obtain s where s: "fence_reachable id {fence_world} fence_requests empty_config s"
    "fs_pc s = (fs_pc (fence_start empty_config))(0 := Working (Holding (fence_claim ''a'')) (rev [demo_lock ''a'']))"
    "fs_file s = fs_file (fence_start empty_config)"
    "fs_locks s = (\<lambda>l. if l \<in> set [demo_lock ''a''] then Some 0 else fs_locks (fence_start empty_config) l)" by blast
  show ?thesis by (rule exI [of _ s]) (use s in \<open>simp add: fence_start_def fun_eq_iff\<close>)
qed

text \<open>Two processes work, each under a claim of its own.\<close>

lemma fence_two_work:
  "\<exists>s. fence_reachable id {fence_world} fence_requests empty_config s
     \<and> fs_pc s 0 = Working (Holding (fence_claim ''a'')) [demo_lock ''a'']
     \<and> fs_pc s 1 = Working (Holding (fence_claim ''b'')) [demo_lock ''b'']"
proof -
  obtain s where s: "fence_reachable id {fence_world} fence_requests empty_config s"
    "fs_pc s = (\<lambda>_. Resting None)(0 := Working (Holding (fence_claim ''a'')) [demo_lock ''a''])"
    "fs_file s = empty_config" "fs_locks s = (\<lambda>l. if l = demo_lock ''a'' then Some 0 else None)"
    using fence_one_works by blast
  have other: "demo_lock ''a'' \<noteq> transition_lock"
    by (rule transition_lock_other [OF fence_lock_settled [OF fence_local_fold]]) simp
  have "\<exists>s'. fence_reachable id {fence_world} fence_requests empty_config s'
      \<and> fs_pc s' = (fs_pc s)(1 := Working (Holding (fence_claim ''b'')) (rev [demo_lock ''b''])) \<and> fs_file s' = fs_file s
      \<and> fs_locks s' = (\<lambda>l. if l \<in> set [demo_lock ''b''] then Some 1 else fs_locks s l)"
    by (rule claim_granted [OF s(1) _ _ _ _ fence_claim_locks])
       (use fence_claim_observed(2) [of "''b''"] demo_dir other in \<open>simp_all add: s fence_requests_def\<close>)
  then show ?thesis by (auto simp: s)
qed

theorem fence_exclusive_witness:
  "\<exists>s :: fence_state. fs_pc s 0 = Working (Holding (fence_claim ''a'')) [demo_lock ''a'']
     \<and> fs_pc s 1 = Working (Holding (fence_claim ''b'')) [demo_lock ''b'']
     \<and> \<not> equal_project_identity ''local/a'' ''local/b''"
proof -
  obtain s where s: "fence_reachable id {fence_world} fence_requests empty_config s"
    and p: "fs_pc s 0 = Working (Holding (fence_claim ''a'')) [demo_lock ''a'']"
      "fs_pc s 1 = Working (Holding (fence_claim ''b'')) [demo_lock ''b'']"
    using fence_two_work by blast
  have i: "''local/a'' \<in> set (plan_identities (Holding (fence_claim ''a'')))"
    "''local/b'' \<in> set (plan_identities (Holding (fence_claim ''b'')))" by (simp_all add: claim_identities_def fence_claim_def)
  have "\<not> equal_project_identity ''local/a'' ''local/b''"
    by (rule fence_exclusive [OF s fence_requests_observed zero_neq_one, THEN conjunct1, rule_format, OF p i])
  with p show ?thesis by blast
qed

text \<open>A second process wants the same claim: it waits for the first, which can go on.\<close>

theorem fence_no_deadlock_witness:
  "\<exists>s :: fence_state. fence_waits id s 1 (demo_lock ''a'') \<and>
     (\<exists>u. fs_locks s (demo_lock ''a'') = Some u \<and> u \<noteq> 1)"
proof -
  obtain s where s: "fence_reachable id {fence_world} fence_requests empty_config s"
    "fs_pc s = (\<lambda>_. Resting None)(0 := Working (Holding (fence_claim ''a'')) [demo_lock ''a''])"
    "fs_file s = empty_config" "fs_locks s = (\<lambda>l. if l = demo_lock ''a'' then Some 0 else None)"
    using fence_one_works by blast
  have other: "demo_lock ''a'' \<noteq> transition_lock"
    by (rule transition_lock_other [OF fence_lock_settled [OF fence_local_fold]]) simp
  let ?c = "fence_claim ''a''"
  let ?s1 = "set_fence_pc 1 (Wanting (Claim ?c)) s"
  let ?s2 = "set_fence_pc 1 (Deciding (Claim ?c)) (set_lock transition_lock (Some 1) ?s1)"
  let ?s3 = "set_fence_pc 1 (Taking (Holding ?c) (claim_identities ?c) []) ?s2"
  have "fence_step id {fence_world} fence_requests 1 Begins s (set_fence_pc 1 (fence_begin (Claim ?c)) s)"
    by (rule Begin [of s 1 None]) (simp_all add: s fence_requests_def)
  then have "fence_reachable id {fence_world} fence_requests empty_config ?s1"
    using s(1) by (simp add: fence_begin_def) (rule Fence_Next)
  moreover have "fence_step id {fence_world} fence_requests 1 Advances ?s1 ?s2"
    by (rule Take_Transition) (use other in \<open>simp_all add: set_fence_pc_def s\<close>)
  ultimately have s2: "fence_reachable id {fence_world} fence_requests empty_config ?s2" by (rule Fence_Next)
  have step: "fence_step id {fence_world} fence_requests 1 Advances ?s2
      (set_fence_pc 1 (after_decision (decide id fence_world (fs_file ?s2) (Claim ?c))) ?s2)"
    by (rule Decide) (simp_all add: set_fence_pc_def)
  have eq: "after_decision (decide id fence_world (fs_file ?s2) (Claim ?c)) = Taking (Holding ?c) (claim_identities ?c) []"
    using fence_claim_observed(2) [of "''a''"] demo_dir
    by (simp add: after_decision_def decide_def set_fence_pc_def set_lock_def s)
  have s3: "fence_reachable id {fence_world} fence_requests empty_config ?s3"
    using Fence_Next [OF s2 step] unfolding eq .
  have free: "collision_free id ?s3" by (simp add: collision_free_def)
  have wait: "fence_waits id ?s3 1 (demo_lock ''a'')"
    using fence_claim_locks [of "''a''"] other
    by (simp add: fence_waits_def set_fence_pc_def set_lock_def s claim_identities_def fence_claim_def)
  have "{fence_world} \<noteq> {}" by simp
  from fence_no_deadlock [OF s3 fence_requests_observed this free, THEN conjunct1, rule_format, OF wait]
  obtain u where "fs_locks ?s3 (demo_lock ''a'') = Some u" "u \<noteq> 1" by (elim exE conjE)
  with wait show ?thesis by (intro exI conjI)
qed

subsection \<open>A claimed registration\<close>

definition fence_entry :: raw_entry where "fence_entry = [(''path'', V_String ''/p'')]"

definition one_project :: config_file where "one_project = \<lparr>cf_projects = [fence_entry], cf_workspaces = []\<rparr>"

definition demo_setting :: fence_setting where
  "demo_setting = \<lparr>se_paths = fence_paths, se_git = pw_git fence_world, se_decode = (\<lambda>_. fence_project),
     se_expansion = fence_expansion\<rparr>"

lemma fence_expand: "expand_with fence_expansion p = expand_path fence_paths p"
  by (simp add: expand_with_def expand_path_def fence_expansion_def fence_paths_def Let_def abs_path_def)

lemma fence_expand_p: "expand_with fence_expansion ''/p'' = Inr ''/p''"
  by (simp add: expand_with_def fence_expansion_def os_expand.simps is_abs_def has_prefix_def Let_def)

lemma slug_fold: "fold_project_identity ''github.com/o/r'' = Inr ''github.com/o/r''"
proof -
  have t: "trim_space ''github.com/o/r'' = ''github.com/o/r''" by (rule trim_space_graphic) (simp_all add: is_graphic_def code_def)
  have l: "to_lower ''github.com'' = ''github.com''" "to_lower ''o/r'' = ''o/r''"
    by (subst to_lower_ascii; simp add: ascii_lower_def lower_char_def is_upper_def code_def)+
  have c: "cut ''github.com/o/r'' (CHR ''/'') = (''github.com'', ''o/r'', True)" by simp
  have "fold_repository_identity ''github.com/o/r'' = ''github.com/o/r''"
    unfolding fold_repository_identity_def t Let_def c prod.case l by simp
  moreover have "\<not> is_exact_local ''github.com/o/r''"
  proof
    assume "is_exact_local ''github.com/o/r''"
    then have "take 1 ''github.com/o/r'' = ''l''" unfolding is_exact_local_def has_prefix_def prefix_def by auto
    then show False by simp
  qed
  ultimately show ?thesis using t demo_slug by (simp add: fold_project_identity_def validate_project_identity_def)
qed

definition entry_registration :: registration where
  "entry_registration = \<lparr>rg_persisted = fence_project, rg_effective = fence_project, rg_raw = Some fence_entry\<rparr>"

lemma load_one: "load_registrations fence_world fence_expansion one_project = Inr [entry_registration]"
proof -
  have "expand_registered (expand_with fence_expansion) fence_paths fence_project = Inr fence_project"
    using fence_expand_p by (simp add: expand_registered_def fence_project_def fence_paths_def)
  then show ?thesis
    by (simp add: load_registrations_def load_snapshot_def fence_world_def one_project_def raw_project_entries_def
        check_representations_def entry_registration_def)
qed

definition project_ids :: "string list" where
  "project_ids = remdups_adj (sort [''github.com/o/r'', ''local/p''])"

definition registered_claim :: project_claim where
  "registered_claim = \<lparr>pc_registration = entry_registration, pc_identity = ''github.com/o/r'', pc_identities = project_ids,
     pc_expansion = fence_expansion, pc_main_path = ''/p'', pc_registered = True\<rparr>"

lemma project_ids: "set project_ids = {''github.com/o/r'', ''local/p''}" "distinct project_ids" "project_ids \<noteq> []"
proof -
  show s: "set project_ids = {''github.com/o/r'', ''local/p''}" by (simp add: project_ids_def del: sort_key_simps)
  show "distinct project_ids" unfolding project_ids_def by (rule distinct_sorted_remdups) (rule sorted_sort)
  show "project_ids \<noteq> []"
  proof
    assume "project_ids = []"
    with s show False by (metis empty_set insert_not_empty)
  qed
qed

lemma resolve_entry: "resolve_project_identity fence_world entry_registration = Inr ''github.com/o/r''"
  using demo_slug by (simp add: resolve_project_identity_def entry_registration_def fence_project_def)

lemma owns_entry: "owns_path fence_paths ''/p'' entry_registration"
  by (simp add: owns_path_def entry_registration_def fence_project_def)

lemma registered_claim_observed:
  "observe_project_claim fence_world ''/p'' fence_expansion one_project = Inr registered_claim"
proof -
  have w: "pw_paths fence_world = fence_paths" "pw_cancelled fence_world = None" by (simp_all add: fence_world_def)
  have "fold_all [''github.com/o/r'', ''local/'' @ ''p''] = Inr [''github.com/o/r'', ''local/p'']"
    using slug_fold fence_local_fold [of "''p''"] by simp
  then have s: "stable_identity_set [''github.com/o/r'', ''local/'' @ ''p''] = Inr project_ids"
    unfolding stable_identity_set_def project_ids_def by (simp del: sort_key_simps)
  have f: "filter (owns_path fence_paths ''/p'') [entry_registration] = [entry_registration]" using owns_entry by simp
  show ?thesis
    by (simp only: observe_project_claim_def w load_one fence_expansion_valid f demo_dir s resolve_entry option.case sum.case
        list.case registered_claim_def)
qed

lemma registered_claim_matches: "project_claim_matches fence_world registered_claim one_project = Inr True"
proof -
  have w: "pw_paths fence_world = fence_paths" by (simp add: fence_world_def)
  have same: "same_persisted_entry entry_registration entry_registration"
    by (simp add: same_persisted_entry_def entry_registration_def fence_entry_def)
  have eq: "equal_project_identity ''github.com/o/r'' ''github.com/o/r''" "equal_project_identity (''local/'' @ ''p'') (''local/'' @ ''p'')"
    using slug_fold fence_local_fold [of "''p''"] by (simp_all add: equal_project_identity_def)
  have p: "pj_path (rg_effective entry_registration) = ''/p''" by (simp add: entry_registration_def fence_project_def)
  have "claim_entry_matches fence_world registered_claim entry_registration = Inr True"
    unfolding claim_entry_matches_def registered_claim_def project_claim.select_convs w p demo_dir resolve_entry
    using owns_entry eq by simp
  moreover have "List.find (\<lambda>r. same_persisted_entry r (pc_registration registered_claim)) [entry_registration] = Some entry_registration"
    using same by (simp add: registered_claim_def)
  moreover have "pc_expansion registered_claim = fence_expansion" "pc_registered registered_claim"
    by (simp_all add: registered_claim_def)
  ultimately show ?thesis by (simp add: project_claim_matches_def load_one)
qed

lemma demo_agrees: "agreeing_worlds demo_setting {fence_world}"
  using fence_expand fence_expansion_valid
  by (auto simp: agreeing_worlds_def demo_setting_def fence_world_def fence_paths_def)


subsection \<open>The configuration file\<close>

theorem swap_project_exact_witness:
  "fst (compare_and_swap_project fence_paths (pw_io fence_world) entry_registration None one_project)
     = one_project\<lparr>cf_projects := []\<rparr>"
proof -
  have m: "raw_matches (Some fence_entry) fence_entry" by (simp add: raw_matches_def fence_entry_def)
  have "swap_entry fence_paths [fence_project] [fence_entry] entry_registration None = Some []"
    using m by (simp add: swap_entry_def entry_registration_def)
  then obtain f' where r: "compare_and_swap_project fence_paths (pw_io fence_world) entry_registration None one_project = (f', Inr True)"
    by (simp add: compare_and_swap_project_def store_mutate_def fence_world_def raw_project_entries_def typed_projects_def
        check_representations_def one_project_def)
  from swap_project_exact [OF r, THEN conjunct1, rule_format, OF refl] obtain pre raw post where
    "cf_projects one_project = pre @ raw # post" "f' = one_project\<lparr>cf_projects := pre @ [] @ post\<rparr>"
    by (auto simp del: same_value.simps)
  moreover from this(1) have "pre = []" "post = []" by (simp_all add: one_project_def Cons_eq_append_conv)
  ultimately show ?thesis unfolding r by simp
qed

lemma sequence_ok: "\<forall>r \<in> set rs. \<exists>a. r = Inr a \<Longrightarrow> \<exists>a. sequence rs = Inr a"
  by (induction rs) fastforce+

lemma fingerprint_strings:
  assumes "\<forall>(k, v) \<in> set m. \<exists>s. v = V_String s"
  shows "\<exists>fp. fingerprint sha (Some m) = Inr fp"
proof -
  have "\<forall>r \<in> set (map (\<lambda>(k, r). prepend (write_string k) r) (sort_key fst (map (\<lambda>(k, v). (k, write_value v)) m))).
      \<exists>a. r = Inr a"
    using assms by (fastforce simp: prepend_def write_value.simps)
  from sequence_ok [OF this] obtain a where a: "sequence (map (\<lambda>(k, r). prepend (write_string k) r)
      (sort_key fst (map (\<lambda>(k, v). (k, write_value v)) m))) = Inr a" ..
  have "\<exists>b. write_value (V_Map (Some m)) = Inr b"
    by (subst write_value.simps) (simp add: a prepend_def del: write_value.simps)
  then show ?thesis by (auto simp: fingerprint_def fingerprint_text_def prepend_def simp del: write_value.simps write_body.simps)
qed


theorem workspaces_stay_distinct_witness:
  "workspaces_distinct fence_paths (=) (cf_workspaces (fst (register_workspace fence_paths (=) (\<lambda>_. Inr True)
     (pw_io fence_world) None \<lparr>wk_name = ''b'', wk_path = ''/b''\<rparr>
     \<lparr>cf_projects = [], cf_workspaces = [\<lparr>wk_name = ''a'', wk_path = ''/a''\<rparr>]\<rparr>)))"
proof -
  have "workspaces_distinct fence_paths (=) [\<lparr>wk_name = ''a'', wk_path = ''/a''\<rparr>]" by simp
  then have "workspaces_distinct fence_paths (=)
      (cf_workspaces \<lparr>cf_projects = [], cf_workspaces = [\<lparr>wk_name = ''a'', wk_path = ''/a''\<rparr>]\<rparr>)"
    by (simp only: config_file.select_convs)
  from workspaces_stay_distinct [OF eq_commute this, THEN conjunct1] show ?thesis .
qed

end
