(* ===== verification/Durations.thy ===== *)
theory Durations
  imports Service "HOL-Library.Word"
begin

text \<open>
  Duration texts with day notation (\<open>internal/duration/duration.go\<close>) and \<open>time.ParseDuration\<close>, which
  it falls back to. A \<open>time.Duration\<close> is a signed 64-bit number of nanoseconds, here a \<open>64 word\<close>
  read with \<open>sint\<close>. \<open>ParseDuration\<close> computes the fraction of a number in floating point; the
  result for digits \<open>f\<close>, scale \<open>10 ^ k\<close> and a unit is the parameter \<open>frac f k unit\<close>.
\<close>

subsection \<open>\<open>time.ParseDuration\<close>\<close>

definition unit_map :: "string \<Rightarrow> nat option" where
  "unit_map u =
     (if u = ''ns'' then Some 1
      else if u = ''us'' \<or> u = map byte [0xC2, 0xB5, 115] \<or> u = map byte [0xCE, 0xBC, 115]
      then Some 1000
      else if u = ''ms'' then Some 1000000
      else if u = ''s'' then Some 1000000000
      else if u = ''m'' then Some 60000000000
      else if u = ''h'' then Some 3600000000000
      else None)"

text \<open>\<open>leadingInt\<close>: the digits' value, unless it passes \<open>1 << 63\<close> on the way.\<close>

fun leading_int :: "nat \<Rightarrow> string \<Rightarrow> (nat \<times> string) option" where
  "leading_int x [] = Some (x, [])"
| "leading_int x (c # s) =
     (if \<not> is_digit c then Some (x, c # s)
      else if x > 2 ^ 63 div 10 then None
      else if x * 10 + digit_val c > 2 ^ 63 then None
      else leading_int (x * 10 + digit_val c) s)"

text \<open>\<open>leadingFraction\<close>: digits that do not fit are dropped; the scale is \<open>10 ^ k\<close>.\<close>

fun leading_fraction :: "nat \<Rightarrow> nat \<Rightarrow> bool \<Rightarrow> string \<Rightarrow> nat \<times> nat \<times> string" where
  "leading_fraction x k overflow [] = (x, k, [])"
| "leading_fraction x k overflow (c # s) =
     (if \<not> is_digit c then (x, k, c # s)
      else if overflow then leading_fraction x k True s
      else if x > (2 ^ 63 - 1) div 10 then leading_fraction x k True s
      else if x * 10 + digit_val c > 2 ^ 63 then leading_fraction x k True s
      else leading_fraction (x * 10 + digit_val c) (Suc k) False s)"

definition invalid_duration :: "string \<Rightarrow> string" where
  "invalid_duration orig = ''time: invalid duration '' @ go_quote orig"

definition is_number_byte :: "char \<Rightarrow> bool" where
  "is_number_byte c \<longleftrightarrow> c = CHR ''.'' \<or> is_digit c"

lemma leading_int_length: "leading_int x s = Some (v, t) \<Longrightarrow> length t \<le> length s"
  by (induction x s rule: leading_int.induct) (auto split: if_splits)

lemma leading_fraction_length: "leading_fraction x k ov s = (f, j, t) \<Longrightarrow> length t \<le> length s"
  by (induction x k ov s rule: leading_fraction.induct) (auto split: if_splits)

text \<open>One round of the loop: the value of the leading number with its unit, and what is left.\<close>

definition duration_term ::
    "(nat \<Rightarrow> nat \<Rightarrow> nat \<Rightarrow> nat) \<Rightarrow> string \<Rightarrow> string \<Rightarrow> string + nat \<times> string" where
  "duration_term frac orig s =
     (if s = [] \<or> \<not> is_number_byte (hd s) then Inl (invalid_duration orig)
      else case leading_int 0 s of
        None \<Rightarrow> Inl (invalid_duration orig)
      | Some (v, s1) \<Rightarrow>
          let pre = (length s1 \<noteq> length s);
              dot = (s1 \<noteq> [] \<and> hd s1 = CHR ''.'');
              (f, k, s2) = (if dot then leading_fraction 0 0 False (tl s1) else (0, 0, s1));
              post = (dot \<and> length s2 \<noteq> length (tl s1));
              u = takeWhile (\<lambda>c. \<not> is_number_byte c) s2;
              s3 = dropWhile (\<lambda>c. \<not> is_number_byte c) s2
          in
          if \<not> pre \<and> \<not> post then Inl (invalid_duration orig)
          else if u = [] then Inl (''time: missing unit in duration '' @ go_quote orig)
          else case unit_map u of
            None \<Rightarrow> Inl (''time: unknown unit '' @ go_quote u @ '' in duration '' @ go_quote orig)
          | Some unit \<Rightarrow>
              if v > 2 ^ 63 div unit then Inl (invalid_duration orig)
              else
                let w = v * unit + (if f > 0 then frac f k unit else 0) in
                if w > 2 ^ 63 then Inl (invalid_duration orig) else Inr (w, s3))"

lemma duration_term_shorter:
  assumes "duration_term frac orig s = Inr (w, t)"
  shows "length t < length s"
proof -
  obtain v s1 f k s2 where i: "leading_int 0 s = Some (v, s1)"
    and f: "(if s1 \<noteq> [] \<and> hd s1 = CHR ''.'' then leading_fraction 0 0 False (tl s1) else (0, 0, s1)) = (f, k, s2)"
    and u: "takeWhile (\<lambda>c. \<not> is_number_byte c) s2 \<noteq> []" "t = dropWhile (\<lambda>c. \<not> is_number_byte c) s2"
    using assms by (auto simp: duration_term_def Let_def split: if_splits option.splits prod.splits)
  have "length s2 \<le> length s1"
    using f leading_fraction_length [of 0 0 False "tl s1" f k s2] by (auto split: if_splits)
  moreover have "length s1 \<le> length s" by (rule leading_int_length [OF i])
  moreover have "length t < length s2"
  proof -
    have "length s2 = length (takeWhile (\<lambda>c. \<not> is_number_byte c) s2) + length t"
      using u(2) by (metis length_append takeWhile_dropWhile_id)
    with u(1) show ?thesis by simp
  qed
  ultimately show ?thesis by simp
qed

function duration_sum ::
    "(nat \<Rightarrow> nat \<Rightarrow> nat \<Rightarrow> nat) \<Rightarrow> string \<Rightarrow> nat \<Rightarrow> string \<Rightarrow> string + nat" where
  "duration_sum frac orig d s =
     (if s = [] then Inr d
      else case duration_term frac orig s of
        Inl e \<Rightarrow> Inl e
      | Inr (w, t) \<Rightarrow>
          if d + w > 2 ^ 63 then Inl (invalid_duration orig)
          else duration_sum frac orig (d + w) t)"
  by pat_completeness auto
termination
  by (relation "measure (\<lambda>(frac, orig, d, s). length s)") (auto dest: duration_term_shorter)

declare duration_sum.simps [simp del]

definition parse_duration :: "(nat \<Rightarrow> nat \<Rightarrow> nat \<Rightarrow> nat) \<Rightarrow> string \<Rightarrow> string + 64 word" where
  "parse_duration frac orig =
     (let neg = (orig \<noteq> [] \<and> hd orig = CHR ''-'');
          s = (if orig \<noteq> [] \<and> (hd orig = CHR ''-'' \<or> hd orig = CHR ''+'') then tl orig else orig)
      in
      if s = ''0'' then Inr 0
      else if s = [] then Inl (invalid_duration orig)
      else case duration_sum frac orig 0 s of
        Inl e \<Rightarrow> Inl e
      | Inr d \<Rightarrow>
          if neg then Inr (- of_nat d)
          else if d > 2 ^ 63 - 1 then Inl (invalid_duration orig)
          else Inr (of_nat d))"

subsection \<open>\<open>Parse\<close>\<close>

text \<open>The regular expression \<open>^(\d+)d$\<close>: the digits of a day count.\<close>

definition day_digits :: "string \<Rightarrow> string option" where
  "day_digits s =
     (if length s \<ge> 2 \<and> last s = CHR ''d'' \<and> list_all is_digit (butlast s)
      then Some (butlast s) else None)"

text \<open>\<open>strconv.Atoi\<close> on digits: an error beyond the 64-bit signed range.\<close>

definition atoi_digits :: "string \<Rightarrow> string + nat" where
  "atoi_digits s =
     (let n = digits_val 0 s in
      if n \<ge> 2 ^ 63 then Inl (''strconv.Atoi: parsing '' @ go_quote s @ '': value out of range'')
      else Inr n)"

definition hour :: "64 word" where
  "hour = 3600000000000"

definition parse :: "(nat \<Rightarrow> nat \<Rightarrow> nat \<Rightarrow> nat) \<Rightarrow> string \<Rightarrow> string + 64 word" where
  "parse frac s0 =
     (let s = trim_space s0 in
      if s = [] then Inl ''empty duration string''
      else case day_digits s of
        Some digits \<Rightarrow>
          (case atoi_digits digits of
             Inl e \<Rightarrow> Inl (''invalid day value: '' @ e)
           | Inr days \<Rightarrow>
               if days = 0 then Inl ''days must be positive''
               else Inr (of_nat days * 24 * hour))
      | None \<Rightarrow>
          (case parse_duration frac s of
             Inl e \<Rightarrow> Inl (''invalid duration format: '' @ e)
           | Inr d \<Rightarrow> if d \<le>s 0 then Inl ''duration must be positive'' else Inr d))"

subsection \<open>Day notation\<close>

lemma day_digits_itoa: "day_digits (itoa_nat n @ ''d'') = Some (itoa_nat n)"
  using itoa_nat_digits [of n] itoa_nat_nonempty [of n]
  by (cases "itoa_nat n") (auto simp: day_digits_def list_all_iff)

lemma trim_space_days: "trim_space (itoa_nat n @ ''d'') = itoa_nat n @ ''d''"
proof (rule trim_space_graphic)
  show "is_graphic (hd (itoa_nat n @ ''d''))"
    using itoa_nat_digits [of n] itoa_nat_nonempty [of n]
    by (cases "itoa_nat n") (auto intro: digit_graphic)
  show "is_graphic (last (itoa_nat n @ ''d''))" by (simp, code_simp)
qed simp

lemma parse_days:
  "parse frac (itoa_nat n @ ''d'') =
     (if n \<ge> 2 ^ 63 then Inl (''invalid day value: '' @ ''strconv.Atoi: parsing '' @
                               go_quote (itoa_nat n) @ '': value out of range'')
      else if n = 0 then Inl ''days must be positive''
      else Inr (of_nat n * 24 * hour))"
  by (simp add: parse_def trim_space_days day_digits_itoa atoi_digits_def digits_val_itoa_nat)

lemma sint_in_range:
  "- (2 ^ 63) \<le> k \<Longrightarrow> k < 2 ^ 63 \<Longrightarrow> sint (word_of_int k :: 64 word) = k"
  by (simp add: sint_sbintrunc' signed_take_bit_int_eq_self)

lemma sint_above_range:
  assumes "2 ^ 63 \<le> k" and "k < 2 ^ 64"
  shows "sint (word_of_int k :: 64 word) = k - 2 ^ 64"
proof -
  have "(k + 2 ^ 63) mod 2 ^ 64 = ((k + 2 ^ 63 - 2 ^ 64) + 2 ^ 64) mod 2 ^ 64" by (simp only: diff_add_cancel)
  also have "\<dots> = k + 2 ^ 63 - 2 ^ 64"
    unfolding mod_add_self2 using assms by (intro mod_pos_pos_trivial) simp_all
  finally show ?thesis by (simp add: int_word_sint add.commute)
qed

lemma days_word: "(of_nat n * 24 * hour :: 64 word) = word_of_int (int n * 86400000000000)"
  by (simp add: hour_def)

text \<open>
  Day notation is exact up to 106751 days: the text \<open>Nd\<close>, with any white space \<open>TrimSpace\<close>
  removes around it, is \<open>N\<close> times 24 hours, and \<open>0d\<close> is an error.
\<close>

theorem parse_days_exact:
  assumes "n \<le> 106751" and "trim_space s = itoa_nat n @ ''d''"
  shows "(if n = 0 then parse frac s = Inl ''days must be positive''
          else \<exists>d. parse frac s = Inr d \<and> sint d = int n * 24 * 3600 * 10 ^ 9)"
proof -
  have same: "parse frac s = parse frac (itoa_nat n @ ''d'')"
    using assms(2) by (simp add: parse_def trim_space_days)
  have "sint (word_of_int (int n * 86400000000000) :: 64 word) = int n * 86400000000000"
    using assms(1) by (intro sint_in_range) simp_all
  then show ?thesis using assms(1) by (simp add: same parse_days days_word)
qed

theorem parse_days_exact_witness:
  "\<exists>d. parse (\<lambda>_ _ _. 0) ''7d'' = Inr d \<and> sint d = 604800 * 10 ^ 9"
proof -
  have t: "trim_space ''7d'' = itoa_nat 7 @ ''d''" by code_simp
  show ?thesis using parse_days_exact [OF _ t, of "\<lambda>_ _ _. 0"] by simp
qed

text \<open>
  From 106752 days on, the multiplication in \<open>Parse\<close> wraps: \<open>days <= 0\<close> is tested before it, and
  nothing tests its result, so the texts from \<open>106752d\<close> to \<open>213503d\<close> are accepted as negative
  durations.
\<close>

theorem parse_days_wraps:
  assumes "106752 \<le> n" and "n \<le> 213503"
  shows "\<exists>d. parse frac (itoa_nat n @ ''d'') = Inr d \<and> sint d < 0"
proof -
  have "sint (word_of_int (int n * 86400000000000) :: 64 word) = int n * 86400000000000 - 2 ^ 64"
    using assms by (intro sint_above_range) simp_all
  with assms show ?thesis by (simp add: parse_days days_word)
qed

theorem parse_days_wraps_witness:
  "\<exists>d. parse (\<lambda>_ _ _. 0) (itoa_nat 106752 @ ''d'') = Inr d \<and> sint d < 0"
  by (rule parse_days_wraps) simp_all

subsection \<open>Unit notation\<close>

lemma digits_val_ge: "x \<le> digits_val x ds"
proof (induction ds arbitrary: x)
  case (Cons c ds)
  have "x \<le> x * 10 + digit_val c" by simp
  also have "\<dots> \<le> digits_val (x * 10 + digit_val c) ds" by (rule Cons.IH)
  finally show ?case by (simp add: digits_val_def)
qed (simp add: digits_val_def)

lemma leading_int_digits:
  assumes "\<forall>c \<in> set ds. is_digit c" and "digits_val x ds \<le> 2 ^ 63" and "t = [] \<or> \<not> is_digit (hd t)"
  shows "leading_int x (ds @ t) = Some (digits_val x ds, t)"
  using assms(1,2)
proof (induction ds arbitrary: x)
  case Nil
  with assms(3) show ?case by (cases t) (simp_all add: digits_val_def)
next
  case (Cons c ds)
  have step: "digits_val x (c # ds) = digits_val (x * 10 + digit_val c) ds" by (simp add: digits_val_def)
  then have "x * 10 + digit_val c \<le> 2 ^ 63" using Cons.prems(2) digits_val_ge order_trans by metis
  then have "x \<le> 2 ^ 63 div 10" "x * 10 + digit_val c \<le> 2 ^ 63" by simp_all
  with Cons step show ?case by simp
qed

lemma unit_map_text:
  assumes "unit_map u = Some k"
  shows "u \<noteq> []" and "\<forall>c \<in> set u. \<not> is_number_byte c" and "last u \<in> set ''smh''"
    and "0 < k"
proof -
  let ?us = "[''ns'', ''us'', map byte [0xC2, 0xB5, 115], map byte [0xCE, 0xBC, 115], ''ms'', ''s'', ''m'', ''h'']"
  have u: "u \<in> set ?us" using assms unfolding unit_map_def by (auto split: if_splits)
  have "\<forall>u \<in> set ?us. u \<noteq> [] \<and> list_all (\<lambda>c. \<not> is_number_byte c) u \<and> last u \<in> set ''smh''"
    by code_simp
  from bspec [OF this u] show "u \<noteq> []" "\<forall>c \<in> set u. \<not> is_number_byte c" "last u \<in> set ''smh''"
    unfolding list_all_iff by blast+
  show "0 < k" using assms by (auto simp: unit_map_def split: if_splits)
qed

lemma duration_term_print:
  assumes u: "unit_map u = Some k" and fits: "n * k \<le> 2 ^ 63"
    and rest: "t = [] \<or> is_number_byte (hd t)"
  shows "duration_term frac orig (itoa_nat n @ u @ t) = Inr (n * k, t)"
proof -
  note m = unit_map_text [OF u]
  have "n \<le> n * k" using m(4) by simp
  then have "n \<le> 2 ^ 63" using fits by linarith
  have u_head: "\<not> is_digit (hd (u @ t))" "hd (u @ t) \<noteq> CHR ''.''" "u @ t \<noteq> []"
    using m(1,2) by (cases u, auto simp: is_number_byte_def)+
  then have lead: "leading_int 0 (itoa_nat n @ u @ t) = Some (n, u @ t)"
    using leading_int_digits [OF itoa_nat_digits, of 0 n "u @ t"] \<open>n \<le> 2 ^ 63\<close>
    by (simp add: digits_val_itoa_nat)
  have tw: "takeWhile (\<lambda>c. \<not> is_number_byte c) (u @ t) = u"
    "dropWhile (\<lambda>c. \<not> is_number_byte c) (u @ t) = t"
    using m(2) rest by (cases t; simp add: takeWhile_append2 dropWhile_append2)+
  have head: "itoa_nat n @ u @ t \<noteq> []" "is_number_byte (hd (itoa_nat n @ u @ t))"
    using itoa_nat_digits [of n] itoa_nat_nonempty [of n]
    by (cases "itoa_nat n"; simp add: is_number_byte_def)+
  have "n \<le> 2 ^ 63 div k" using fits m(4) by (simp add: less_eq_div_iff_mult_less_eq del: power_numeral)
  then have "\<not> n > 2 ^ 63 div k" by simp
  then show ?thesis
    unfolding duration_term_def Let_def lead
    using head u_head tw u fits m(1) by simp
qed

definition print_terms :: "(nat \<times> string) list \<Rightarrow> string" where
  "print_terms ts = concat (map (\<lambda>(n, u). itoa_nat n @ u) ts)"

definition terms_value :: "(nat \<times> string) list \<Rightarrow> nat" where
  "terms_value ts = sum_list (map (\<lambda>(n, u). n * the (unit_map u)) ts)"

lemma print_terms_head:
  "ts \<noteq> [] \<Longrightarrow> print_terms ts \<noteq> [] \<and> is_digit (hd (print_terms ts))"
proof (cases ts)
  case (Cons p ts)
  obtain n u where p: "p = (n, u)" by (cases p)
  show ?thesis
    using itoa_nat_digits [of n] itoa_nat_nonempty [of n]
    by (cases "itoa_nat n") (simp_all add: Cons p print_terms_def)
qed simp

lemma duration_sum_print:
  assumes "\<forall>(n, u) \<in> set ts. unit_map u \<noteq> None" and "d + terms_value ts \<le> 2 ^ 63"
  shows "duration_sum frac orig d (print_terms ts) = Inr (d + terms_value ts)"
  using assms
proof (induction ts arbitrary: d)
  case Nil
  then show ?case by (simp add: print_terms_def terms_value_def duration_sum.simps)
next
  case (Cons p ts)
  obtain n u k where p: "p = (n, u)" and k: "unit_map u = Some k" using Cons.prems(1) by (cases p) auto
  have val: "terms_value (p # ts) = n * k + terms_value ts" by (simp add: terms_value_def p k)
  have print: "print_terms (p # ts) = itoa_nat n @ u @ print_terms ts" by (simp add: print_terms_def p)
  have rest: "print_terms ts = [] \<or> is_number_byte (hd (print_terms ts))"
    using print_terms_head [of ts] by (cases ts) (auto simp: print_terms_def is_number_byte_def)
  have dterm: "duration_term frac orig (itoa_nat n @ u @ print_terms ts) = Inr (n * k, print_terms ts)"
    by (rule duration_term_print [OF k _ rest]) (use Cons.prems(2) val in simp)
  have "duration_sum frac orig (d + n * k) (print_terms ts) = Inr (d + n * k + terms_value ts)"
    by (rule Cons.IH) (use Cons.prems val in auto)
  then show ?case
    unfolding print using Cons.prems(2) val
    by (subst duration_sum.simps) (simp add: dterm add.assoc)
qed

lemma print_terms_last:
  assumes "ts \<noteq> []" and "\<forall>(n, u) \<in> set ts. unit_map u \<noteq> None"
  shows "last (print_terms ts) \<in> set ''smh''"
  using assms
proof (induction ts)
  case (Cons p ts)
  obtain n u k where p: "p = (n, u)" and k: "unit_map u = Some k" using Cons.prems(2) by (cases p) auto
  show ?case
  proof (cases "ts = []")
    case True
    with unit_map_text(1,3) [OF k] show ?thesis by (simp add: print_terms_def p)
  next
    case False
    with Cons print_terms_head [of ts] show ?thesis by (simp add: print_terms_def p)
  qed
qed simp

text \<open>
  C24. Unit notation round trips: a non-empty sequence of whole numbers with the units ns, us, ms,
  s, m and h (and the two micro signs) is parsed, with any white space around it, to exactly the sum
  of its terms, whenever that is positive and below 2^63 nanoseconds; a zero sum is an error.
\<close>

theorem parse_terms_roundtrip:
  assumes "ts \<noteq> []" and "\<forall>(n, u) \<in> set ts. unit_map u \<noteq> None" and "terms_value ts < 2 ^ 63"
    and "trim_space s = print_terms ts"
  shows "(if terms_value ts = 0 then parse frac s = Inl ''duration must be positive''
          else \<exists>d. parse frac s = Inr d \<and> sint d = int (terms_value ts))"
proof -
  let ?p = "print_terms ts"
  note h = print_terms_head [OF assms(1)] and l = print_terms_last [OF assms(1,2)]
  have nd: "last ?p \<noteq> CHR ''d''" "?p \<noteq> ''0''" "hd ?p \<noteq> CHR ''-''" "hd ?p \<noteq> CHR ''+''"
    using h l by (auto simp: is_digit_def code_def)
  have days: "day_digits ?p = None" using nd(1) by (simp add: day_digits_def)
  have "duration_sum frac ?p 0 ?p = Inr (terms_value ts)"
    using duration_sum_print [OF assms(2), of 0 frac ?p] assms(3) by simp
  then have pd: "parse_duration frac ?p = Inr (of_nat (terms_value ts))"
    using nd h assms(3) by (simp add: parse_duration_def Let_def)
  have sint: "sint (of_nat (terms_value ts) :: 64 word) = int (terms_value ts)"
  proof -
    have "(of_nat (terms_value ts) :: 64 word) = word_of_int (int (terms_value ts))" by simp
    then show ?thesis using sint_in_range [of "int (terms_value ts)"] assms(3) by simp
  qed
  then have "(of_nat (terms_value ts) \<le>s (0 :: 64 word)) = (terms_value ts = 0)"
    by (simp add: word_sle_eq)
  then show ?thesis
    unfolding parse_def assms(4) Let_def using h days pd sint by simp
qed

theorem parse_terms_roundtrip_witness:
  "\<exists>d. parse (\<lambda>_ _ _. 0) '' 2h30m '' = Inr d \<and> sint d = 9000 * 10 ^ 9"
proof -
  have t: "trim_space '' 2h30m '' = print_terms [(2, ''h''), (30, ''m'')]" by code_simp
  have v: "terms_value [(2, ''h''), (30, ''m'')] = 9000 * 10 ^ 9"
    "\<forall>(n, u) \<in> set [(2, ''h''), (30, ''m'')]. unit_map u \<noteq> None"
    by (simp_all add: terms_value_def unit_map_def)
  show ?thesis using parse_terms_roundtrip [OF _ v(2) _ t, of "\<lambda>_ _ _. 0"] v(1) by simp
qed

end
