(* ===== verification/Spec2Isabelle.thy ===== *)
theory Spec2Isabelle
  imports Op_Hub_Properties Registry_Spec Creation_Lock_Spec Prune_Spec Fleet_Spec Status_Spec Fingerprint_Spec Project_Fence_Demo Durations
begin

text \<open>
  \<^bold>\<open>kwt: a verification development.\<close>

  kwt manages git worktrees across repositories and machines. A daemon (\<open>internal/daemon\<close>) admits work
  through a gate and runs long operations in a hub that streams their events to clients; a registry
  (\<open>internal/registry\<close>) records worktrees in a file shared by processes; a fleet hub
  (\<open>internal/fleet\<close>) collects the worktrees of all hosts; a policy (\<open>internal/prunepolicy\<close>) decides which
  worktrees are merged; repository identities (\<open>internal/url\<close>) tie these together. The theories follow
  those parts, one per component and one for what it promises:

  \<^item> \<open>Kwt_Prelude\<close>, \<open>Go_Strings\<close>, \<open>Go_Paths\<close>, \<open>Go_Url\<close>, \<open>Go_Json\<close>: shared lemmas, and what the code uses of
    Go's standard library (strings, path/filepath, net/url, encoding/json).
  \<^item> \<open>Service\<close>: \<open>service/error.go\<close> and \<open>service/operation.go\<close>, failures, events and the stream validator.
  \<^item> \<open>Gate\<close>: \<open>internal/daemon/gate.go\<close>; counters at 64 bits, drain and idle.
  \<^item> \<open>Event_Budget\<close> (\<open>operation_event.go\<close>) and \<open>Public_Errors\<close> (\<open>server.go\<close>): the size of an event before it
    is encoded, and what an error may show.
  \<^item> \<open>Op_Hub\<close>: \<open>operation.go\<close>, every method of the hub as a function on its state; \<open>Op_Hub_Cells\<close>,
    \<open>Op_Hub_Inv\<close>, \<open>Op_Hub_Steps\<close>, \<open>Op_Hub_Run\<close> carry the invariant through them, \<open>Op_Hub_System\<close> composes
    hub, gate and workers into a step relation, and \<open>Op_Hub_Properties\<close> states the properties of its
    reachable states.
  \<^item> \<open>Path_Utils\<close> (\<open>internal/utils\<close>), \<open>Registry\<close> and \<open>Registry_Spec\<close>: the registry file as a map, and its
    operations as atomic updates of it.
  \<^item> \<open>Creation_Lock\<close>, \<open>Creation_Lock_Spec\<close>: the lock files that own the creation of a worktree, as a
    transition system of processes over names and inodes.
  \<^item> \<open>Repo_Url\<close>, \<open>Repo_Url_Spec\<close>: remote URLs, canonical identities and their folding.
  \<^item> \<open>Prune_Policy\<close>, \<open>Prune_Spec\<close>: which worktree counts as merged, and the report.
  \<^item> \<open>Fleet\<close>, \<open>Fleet_Render\<close>, \<open>Fleet_Spec\<close>: the store of host manifests, the state it groups them into,
    and the status table.
  \<^item> \<open>Porcelain\<close>, \<open>Porcelain_Spec\<close>, \<open>Status_Changes\<close>, \<open>Status_Spec\<close>: git's status output, the changes in it
    and their summary (\<open>internal/status\<close>).
  \<^item> \<open>Project_Fingerprint\<close>, \<open>Fingerprint_Spec\<close>: the fingerprint of a project registration
    (\<open>internal/config/project_fingerprint.go\<close>) and that it is exact.
  \<^item> \<open>Local_Identity\<close>, \<open>Local_Identity_Spec\<close>: which repository a directory is (\<open>internal/worktree/worktree.go\<close>).
  \<^item> \<open>Project_Store\<close>, \<open>Project_Store_Spec\<close>: the global configuration as the store of projects and workspaces
    (\<open>internal/config\<close>), its compare-and-swap and its registrations.
  \<^item> \<open>Project_Identity\<close>, \<open>Project_Identity_Spec\<close>, \<open>Project_Fence\<close>, \<open>Project_Fence_Spec\<close>, \<open>Project_Claim_Spec\<close>:
    the locks around projects (\<open>internal/lifecycle\<close>) as a transition system of processes: they exclude, do
    not deadlock, and protect what was claimed. \<open>Project_Fence_Demo\<close> holds the concrete runs.
  \<^item> \<open>Durations\<close>: \<open>internal/duration\<close>, the parser of durations at 64 bits.

  \<^bold>\<open>How the code is modelled.\<close> A struct is a record, an enumeration a datatype, a method a function from the
  state to the state and its results; an error, a panic and an early return are values. Strings are byte
  lists. A map whose iteration order shows is an association list, and the theorems quantify over its
  order. A mutex makes a method one step; where the code releases it (the hub's workers, the creation
  locks) the steps interleave in an \<open>inductive\<close> relation. What the operating system, git, a clock or a
  third-party package answers is an argument or a field of an environment record, so a theorem holds for
  every answer. Integers are at their width where they can wrap (\<open>Gate\<close>, \<open>Durations\<close>); counters bounded by
  the memory are \<open>nat\<close> or \<open>int\<close>.

  \<^bold>\<open>Bounds and fuel.\<close> \<open>Op_Hub.prune_loop\<close> takes the number of completed operations as its fuel, each round
  removes one, and \<open>hub_prune\<close> shows that nothing is left over. The gate's identifiers are 64-bit words:
  \<open>gate_counters_exact\<close> holds for fewer than \<open>2 ^ 64\<close> calls. \<open>Repo_Url.canonical_info\<close> and the other
  recursions are total by their measures. A creation lock is tried 8 times, 33 steps at most.

  \<^bold>\<open>Interfaces.\<close> \<open>Gate.reservation_source\<close> is what the hub asks of a gate, \<open>Service.stream_acceptor\<close> what a
  client asks of the validator, \<open>Registry_Spec.cas_cell\<close> what a writer asks of a compare-and-swap; each is
  interpreted on the model of the code that provides it.

  \<^bold>\<open>Not modelled.\<close> The terminal interface, the commands, and the drivers of git, tmux and OpenSSH are mostly
  input and output; HTTP and sockets around the hub and the fleet store are left out. The configuration,
  lifecycle, maintenance and SSH session logic are left for later.
\<close>

end
